(* ===== verification/Prelude.thy ===== *)
theory Prelude
  imports Complex_Main
begin

text \<open>
  What every component of the model uses and no component owns: the conversions of C++
  from floating point to \<open>int\<close>, the containers of the program as lists
  (\<open>Urho3D::Vector\<close> and \<open>Urho3D::PODVector\<close>), and the collections of facts the
  component proofs share.

  An access the C++ leaves undefined (\<open>Front\<close> or \<open>Back\<close> of an empty vector, an
  index past the end, a member call on a null pointer) is the value \<open>None\<close> of an
  \<open>option\<close>; every operation that may make one returns an \<open>option\<close>, and a
  property that such an operation is safe says that it returns \<open>Some\<close>.
\<close>

named_theorems vec_simps \<open>evaluation of the vector operations\<close>
named_theorems num_simps \<open>evaluation of the numeric conversions\<close>
named_theorems frame_simps \<open>fields that an operation leaves alone\<close>

section \<open>Conversions\<close>

text \<open>\<open>(int)x\<close> truncates towards zero; \<open>round(x)\<close> of \<open><cmath>\<close> rounds halves away
  from zero. Both are only defined by C++ where the result fits the type.\<close>

definition c_trunc :: "real \<Rightarrow> int" where
  "c_trunc x = (if 0 \<le> x then \<lfloor>x\<rfloor> else \<lceil>x\<rceil>)"

definition c_round :: "real \<Rightarrow> int" where
  "c_round x = (if 0 \<le> x then \<lfloor>x + 1 / 2\<rfloor> else \<lceil>x - 1 / 2\<rceil>)"

lemma c_trunc_of_int [num_simps, simp]: "c_trunc (of_int n) = n"
  by (simp add: c_trunc_def)

lemma c_trunc_nonneg: "0 \<le> x \<Longrightarrow> c_trunc x = \<lfloor>x\<rfloor>"
  by (simp add: c_trunc_def)

lemma c_trunc_mono: "x \<le> y \<Longrightarrow> c_trunc x \<le> c_trunc y"
proof -
  assume "x \<le> y"
  moreover have "\<lceil>x\<rceil> \<le> \<lfloor>y\<rfloor>" if "x < 0" "0 \<le> y"
  proof -
    have "\<lceil>x\<rceil> \<le> 0" using that(1) by (simp add: ceiling_le_iff)
    moreover have "0 \<le> \<lfloor>y\<rfloor>" using that(2) by simp
    ultimately show ?thesis by linarith
  qed
  ultimately show ?thesis
    unfolding c_trunc_def by (auto intro: floor_mono ceiling_mono)
qed

lemma c_round_of_int [num_simps, simp]: "c_round (of_int n) = n"
  unfolding c_round_def by (auto simp: floor_eq_iff ceiling_eq_iff)

lemma c_round_dist: "\<bar>of_int (c_round x) - x\<bar> \<le> 1 / 2"
proof (cases "0 \<le> x")
  case True
  have "of_int \<lfloor>x + 1 / 2\<rfloor> \<le> x + 1 / 2" "x + 1 / 2 < of_int \<lfloor>x + 1 / 2\<rfloor> + 1"
    by linarith+
  moreover have "c_round x = \<lfloor>x + 1 / 2\<rfloor>" using True by (simp add: c_round_def)
  ultimately show ?thesis by linarith
next
  case False
  have "x - 1 / 2 \<le> of_int \<lceil>x - 1 / 2\<rceil>" "of_int \<lceil>x - 1 / 2\<rceil> < x - 1 / 2 + 1"
    by linarith+
  moreover have "c_round x = \<lceil>x - 1 / 2\<rceil>" using False by (simp add: c_round_def)
  ultimately show ?thesis by linarith
qed

lemma c_round_mono: "x \<le> y \<Longrightarrow> c_round x \<le> c_round y"
proof -
  assume "x \<le> y"
  moreover have "\<lceil>x - 1 / 2\<rceil> \<le> \<lfloor>y + 1 / 2\<rfloor>" if "x < 0" "0 \<le> y"
  proof -
    have "\<lceil>x - 1 / 2\<rceil> \<le> 0" using that(1) by (simp add: ceiling_le_iff)
    moreover have "0 \<le> \<lfloor>y + 1 / 2\<rfloor>" using that(2) by simp
    ultimately show ?thesis by linarith
  qed
  ultimately show ?thesis
    unfolding c_round_def by (auto intro: floor_mono ceiling_mono)
qed

section \<open>Vectors\<close>

text \<open>\<open>Erase(pos)\<close> removes one element and returns at once when the range is illegal;
  \<open>Pop()\<close> drops the last element of a vector that has one; \<open>Insert(0, xs)\<close> puts a
  vector in front; \<open>Push\<close> appends. \<open>Front\<close>, \<open>Back\<close> and indexing need an
  element to be there.\<close>

definition v_erase :: "nat \<Rightarrow> 'a list \<Rightarrow> 'a list" where
  "v_erase i xs = take i xs @ drop (Suc i) xs"

definition v_push :: "'a list \<Rightarrow> 'a \<Rightarrow> 'a list" where
  "v_push xs x = xs @ [x]"

definition v_pop :: "'a list \<Rightarrow> 'a list" where
  "v_pop xs = butlast xs"

definition v_insert0 :: "'a list \<Rightarrow> 'a list \<Rightarrow> 'a list" where
  "v_insert0 ys xs = ys @ xs"

definition v_front :: "'a list \<Rightarrow> 'a option" where
  "v_front xs = (case xs of [] \<Rightarrow> None | x # _ \<Rightarrow> Some x)"

definition v_back :: "'a list \<Rightarrow> 'a option" where
  "v_back xs = (if xs = [] then None else Some (last xs))"

definition v_at :: "'a list \<Rightarrow> nat \<Rightarrow> 'a option" where
  "v_at xs i = (if i < length xs then Some (xs ! i) else None)"

definition v_swap :: "'a list \<Rightarrow> nat \<Rightarrow> nat \<Rightarrow> 'a list" where
  "v_swap xs i j = xs[i := xs ! j, j := xs ! i]"

lemma v_erase_0 [vec_simps, simp]: "v_erase 0 xs = tl xs"
  by (cases xs) (simp_all add: v_erase_def)

lemma v_erase_Cons_Suc [vec_simps, simp]: "v_erase (Suc i) (x # xs) = x # v_erase i xs"
  by (simp add: v_erase_def)

lemma v_erase_past [vec_simps]: "length xs \<le> i \<Longrightarrow> v_erase i xs = xs"
  by (simp add: v_erase_def)

lemma v_erase_Nil [vec_simps, simp]: "v_erase i [] = []"
  by (simp add: v_erase_def)

lemma length_v_erase: "i < length xs \<Longrightarrow> length (v_erase i xs) = length xs - 1"
  by (simp add: v_erase_def)

lemma set_v_erase: "set (v_erase i xs) \<subseteq> set xs"
  unfolding v_erase_def using set_take_subset [of i xs] set_drop_subset [of "Suc i" xs] by auto

lemma v_front_Cons [vec_simps, simp]: "v_front (x # xs) = Some x"
  and v_front_Nil [vec_simps, simp]: "v_front [] = None"
  by (simp_all add: v_front_def)

lemma v_front_Some_iff: "v_front xs = Some x \<longleftrightarrow> xs = x # tl xs"
  by (cases xs) auto

lemma v_front_None_iff [simp]: "v_front xs = None \<longleftrightarrow> xs = []"
  by (cases xs) auto

lemma v_back_snoc [vec_simps, simp]: "v_back (xs @ [x]) = Some x"
  and v_back_Nil [vec_simps, simp]: "v_back [] = None"
  by (simp_all add: v_back_def)

lemma v_pop_snoc [vec_simps, simp]: "v_pop (xs @ [x]) = xs"
  and v_pop_Nil [vec_simps, simp]: "v_pop [] = []"
  by (simp_all add: v_pop_def)

lemma v_at_Some [vec_simps]: "i < length xs \<Longrightarrow> v_at xs i = Some (xs ! i)"
  by (simp add: v_at_def)

lemma length_v_swap [simp]: "length (v_swap xs i j) = length xs"
  by (simp add: v_swap_def)

section \<open>Numbers in text\<close>

text \<open>\<open>%d\<close>, \<open>%02d\<close> and \<open>String(int)\<close>: decimal digits, the sign in front.\<close>

definition digit :: "nat \<Rightarrow> char" where
  "digit d = char_of (48 + d)"

fun show_nat :: "nat \<Rightarrow> string" where
  "show_nat n = (if n < 10 then [digit n] else show_nat (n div 10) @ [digit (n mod 10)])"

declare show_nat.simps [simp del]

definition show_int :: "int \<Rightarrow> string" where
  "show_int i = (if i < 0 then CHR ''-'' # show_nat (nat (- i)) else show_nat (nat i))"

lemma digits [num_simps]:
  "digit 0 = CHR ''0''" "digit 1 = CHR ''1''" "digit 2 = CHR ''2''" "digit 3 = CHR ''3''" "digit 4 = CHR ''4''"
  "digit 5 = CHR ''5''" "digit 6 = CHR ''6''" "digit 7 = CHR ''7''" "digit 8 = CHR ''8''" "digit 9 = CHR ''9''"
  "digit (Suc 0) = CHR ''1''"
  by (simp_all add: digit_def char_of_def bit_0)

text \<open>\<open>%0wd\<close> pads with zeros after the sign up to the width.\<close>

definition show_pad :: "nat \<Rightarrow> int \<Rightarrow> string" where
  "show_pad w i =
     (let s = show_nat (nat \<bar>i\<bar>); sign = (if i < 0 then ''-'' else [])
      in sign @ replicate (w - length s - length sign) (digit 0) @ s)"

text \<open>Reading the digits back: the texts determine their numbers.\<close>

definition read_nat :: "string \<Rightarrow> nat" where
  "read_nat s = foldl (\<lambda>a c. 10 * a + (of_char c - 48)) 0 s"

lemma of_char_digit: "d < 10 \<Longrightarrow> of_char (digit d) - 48 = (d :: nat)"
  by (simp add: digit_def)

lemma read_show_nat [simp]: "read_nat (show_nat n) = n"
proof (induction n rule: show_nat.induct)
  case (1 n)
  show ?case
  proof (cases "n < 10")
    case True
    then show ?thesis by (simp add: show_nat.simps [of n] read_nat_def of_char_digit)
  next
    case False
    then have "read_nat (show_nat (n div 10)) = n div 10" using 1 by blast
    then show ?thesis
      using False by (simp add: show_nat.simps [of n] read_nat_def of_char_digit)
  qed
qed

lemma read_zeros: "read_nat (replicate k (digit 0) @ s) = read_nat s"
proof (induction k)
  case (Suc k)
  then show ?case by (simp add: read_nat_def of_char_digit digit_def)
qed simp

lemma show_nat_not_Nil [simp]: "show_nat n \<noteq> []"
  by (subst show_nat.simps) simp

lemma show_nat_digits: "set (show_nat n) \<subseteq> digit ` {0..<10}"
proof (induction n rule: show_nat.induct)
  case (1 n)
  then show ?case by (subst show_nat.simps) auto
qed

lemma digit_not_minus: "d < 10 \<Longrightarrow> digit d \<noteq> CHR ''-''"
proof
  assume "d < 10" "digit d = CHR ''-''"
  then have "of_char (digit d) = (of_char (CHR ''-'') :: nat)" by simp
  then show False using \<open>d < 10\<close> by (simp add: digit_def)
qed

lemma show_nat_no_minus: "hd (show_nat n) \<noteq> CHR ''-''"
  using show_nat_digits [of n] hd_in_set [OF show_nat_not_Nil [of n]] digit_not_minus by fastforce

lemma show_int_inj: "show_int a = show_int b \<longleftrightarrow> a = b"
proof
  assume e: "show_int a = show_int b"
  have hd_nonneg: "hd (show_int c) \<noteq> CHR ''-''" if "0 \<le> c" for c
    using that show_nat_no_minus by (simp add: show_int_def)
  show "a = b"
  proof (cases "a < 0")
    case True
    then have "hd (show_int a) = CHR ''-''" by (simp add: show_int_def)
    then have "hd (show_int b) = CHR ''-''" by (simp only: e)
    then have "b < 0" using hd_nonneg [of b] by force
    then have "show_nat (nat (- a)) = show_nat (nat (- b))" using e True by (simp add: show_int_def)
    then have "read_nat (show_nat (nat (- a))) = read_nat (show_nat (nat (- b)))" by simp
    then show ?thesis using True \<open>b < 0\<close> by simp
  next
    case False
    then have "hd (show_int b) \<noteq> CHR ''-''" using e hd_nonneg [of a] by simp
    then have "\<not> b < 0" by (auto simp: show_int_def)
    then have "show_nat (nat a) = show_nat (nat b)" using e False by (simp add: show_int_def)
    then have "read_nat (show_nat (nat a)) = read_nat (show_nat (nat b))" by simp
    then show ?thesis using False \<open>\<not> b < 0\<close> by simp
  qed
qed simp

end
