(* ===== verification/Float32.thy ===== *)
theory Float32
  imports Prelude
begin

text \<open>
  The C++ \<open>float\<close>. A value of type \<open>float\<close> is a real number here, and the result
  of every arithmetic operation of the source is the exact result rounded by the unit's
  rounding function \<open>rnd\<close>. The locale \<open>float_unit\<close> is the interface between the
  arithmetic unit and the program: what rounding to nearest promises and the program
  relies on. \<open>fl32\<close> is IEEE 754 binary32 rounding to nearest, ties to even, with the
  exponent unbounded above, and the interpretation at the end of the theory proves the laws
  for it. Infinities and NaN are not modelled: the values of the program (seconds, metres,
  health between 0 and 1, angles) are far from overflow.
\<close>

section \<open>The interface\<close>

locale float_unit =
  fixes rnd :: "real \<Rightarrow> real"
  assumes rnd_mono: "x \<le> y \<Longrightarrow> rnd x \<le> rnd y"
    and rnd_idem: "rnd (rnd x) = rnd x"
    and rnd_minus: "rnd (- x) = - rnd x"
    and rnd_dyadic: "\<bar>m\<bar> \<le> 2 ^ 24 \<Longrightarrow> k \<le> 149 \<Longrightarrow> rnd (of_int m / 2 ^ k) = of_int m / 2 ^ k"
    and rnd_err: "\<bar>rnd x - x\<bar> \<le> \<bar>x\<bar> / 2 ^ 24 + 1 / 2 ^ 150"
begin

lemma rnd_int: "\<bar>m\<bar> \<le> 2 ^ 24 \<Longrightarrow> rnd (of_int m) = of_int m"
  using rnd_dyadic [of m 0] by simp

lemma rnd_0: "rnd 0 = 0"
  using rnd_int [of 0] by simp

lemma rnd_1: "rnd 1 = 1"
  using rnd_int [of 1] by simp

lemma rnd_numeral: "(numeral n :: int) \<le> 2 ^ 24 \<Longrightarrow> rnd (numeral n) = numeral n"
  using rnd_int [of "numeral n"] by simp

lemma rnd_nonneg: "0 \<le> x \<Longrightarrow> 0 \<le> rnd x"
  using rnd_mono [of 0 x] by (simp add: rnd_0)

lemma rnd_nonpos: "x \<le> 0 \<Longrightarrow> rnd x \<le> 0"
  using rnd_mono [of x 0] by (simp add: rnd_0)

lemma rnd_le_float: "rnd y = y \<Longrightarrow> x \<le> y \<Longrightarrow> rnd x \<le> y"
  using rnd_mono [of x y] by simp

lemma float_le_rnd: "rnd y = y \<Longrightarrow> y \<le> x \<Longrightarrow> y \<le> rnd x"
  using rnd_mono [of y x] by simp

lemma sub_le: "rnd a = a \<Longrightarrow> 0 \<le> d \<Longrightarrow> rnd (a - d) \<le> a"
  by (rule rnd_le_float) simp_all

lemma add_ge: "rnd a = a \<Longrightarrow> 0 \<le> d \<Longrightarrow> a \<le> rnd (a + d)"
  by (rule float_le_rnd) simp_all

lemma sub_nonneg: "b \<le> a \<Longrightarrow> 0 \<le> rnd (a - b)"
  by (rule rnd_nonneg) simp

end

section \<open>Binary32\<close>

text \<open>Round to the nearest integer, ties to even; the exponent of the unit in the last
  place of a 24-bit significand, not below that of the subnormals.\<close>

definition rne :: "real \<Rightarrow> int" where
  "rne y = (let f = \<lfloor>y\<rfloor>; d = y - of_int f in
     if d < 1 / 2 then f else if d > 1 / 2 then f + 1 else if even f then f else f + 1)"

definition fl_exp :: "real \<Rightarrow> int" where
  "fl_exp x = max (\<lfloor>log 2 \<bar>x\<bar>\<rfloor> - 23) (-149)"

definition fl32 :: "real \<Rightarrow> real" where
  "fl32 x = (if x = 0 then 0 else of_int (rne (x / 2 powi fl_exp x)) * 2 powi fl_exp x)"

lemma rne_of_int [simp]: "rne (of_int n) = n"
  by (simp add: rne_def)

lemma rne_err: "\<bar>of_int (rne y) - y\<bar> \<le> 1 / 2"
proof -
  have "of_int \<lfloor>y\<rfloor> \<le> y" "y < of_int \<lfloor>y\<rfloor> + 1" by linarith+
  then show ?thesis by (auto simp: rne_def Let_def abs_le_iff)
qed

lemma rne_mono: assumes "x \<le> y" shows "rne x \<le> rne y"
proof (cases "\<lfloor>x\<rfloor> = \<lfloor>y\<rfloor>")
  case True
  then show ?thesis using assms by (auto simp: rne_def Let_def)
next
  case False
  then have "\<lfloor>x\<rfloor> + 1 \<le> \<lfloor>y\<rfloor>" using floor_mono [OF assms] by linarith
  moreover have "rne x \<le> \<lfloor>x\<rfloor> + 1" "\<lfloor>y\<rfloor> \<le> rne y" by (auto simp: rne_def Let_def)
  ultimately show ?thesis by linarith
qed

lemma rne_minus: "rne (- y) = - rne y"
proof (cases "y = of_int \<lfloor>y\<rfloor>")
  case True
  then obtain n where y: "y = of_int n" by blast
  show ?thesis using rne_of_int [of "- n"] unfolding y by simp
next
  case False
  then have b: "of_int \<lfloor>y\<rfloor> < y" "y < of_int \<lfloor>y\<rfloor> + 1" by linarith+
  then have fl: "\<lfloor>- y\<rfloor> = - \<lfloor>y\<rfloor> - 1" by linarith
  show ?thesis unfolding rne_def Let_def fl using b by auto
qed

lemma powi_pos [simp]: "0 < (2::real) powi e"
  by simp

lemma powi_mono: "a \<le> b \<Longrightarrow> (2::real) powi a \<le> 2 powi b"
  by (simp add: power_int_increasing)

lemma powi_add: "(2::real) powi (a + b) = 2 powi a * 2 powi b"
  by (simp add: power_int_add)

lemma log_floor_bounds:
  assumes "x \<noteq> 0"
  shows "2 powi \<lfloor>log 2 \<bar>x\<bar>\<rfloor> \<le> \<bar>x\<bar>" "\<bar>x\<bar> < 2 powi (\<lfloor>log 2 \<bar>x\<bar>\<rfloor> + 1)"
proof -
  have p: "0 < \<bar>x\<bar>" using assms by simp
  have "2 powr of_int \<lfloor>log 2 \<bar>x\<bar>\<rfloor> \<le> \<bar>x\<bar>"
    by (rule iffD1 [OF le_log_iff]) (use p in simp_all)
  moreover have "\<bar>x\<bar> < 2 powr of_int (\<lfloor>log 2 \<bar>x\<bar>\<rfloor> + 1)"
    by (rule iffD1 [OF log_less_iff], use p in \<open>simp_all del: of_int_add\<close>) linarith
  ultimately show "2 powi \<lfloor>log 2 \<bar>x\<bar>\<rfloor> \<le> \<bar>x\<bar>" "\<bar>x\<bar> < 2 powi (\<lfloor>log 2 \<bar>x\<bar>\<rfloor> + 1)"
    by (simp_all add: powr_real_of_int' del: of_int_add)
qed

lemma fl_exp_le: "\<bar>x\<bar> < 2 powi (fl_exp x + 24)"
proof (cases "x = 0")
  case False
  have "\<lfloor>log 2 \<bar>x\<bar>\<rfloor> + 1 \<le> fl_exp x + 24" by (simp add: fl_exp_def)
  then show ?thesis using log_floor_bounds (2) [OF False] powi_mono by (meson less_le_trans)
qed simp

lemma fl_exp_ge: "x \<noteq> 0 \<Longrightarrow> - 149 < fl_exp x \<Longrightarrow> 2 powi (fl_exp x + 23) \<le> \<bar>x\<bar>"
  using log_floor_bounds (1) [of x] by (auto simp: fl_exp_def max_def split: if_splits)

lemma fl32_eq: "fl32 x = of_int (rne (x / 2 powi fl_exp x)) * 2 powi fl_exp x"
  using rne_of_int [of 0] by (auto simp: fl32_def)

lemma powi_le_cancel: "(2::real) powi a < 2 powi b \<Longrightarrow> a < b"
  using powi_mono [of b a] by linarith

lemma fl32_exact:
  assumes m: "\<bar>m\<bar> \<le> 2 ^ 24" and e: "- 149 \<le> e"
  shows "fl32 (of_int m * 2 powi e) = of_int m * 2 powi e"
proof (cases "m = 0")
  case False
  define x where "x = of_int m * (2::real) powi e"
  define d where "d = fl_exp x"
  have x0: "x \<noteq> 0" using False by (simp add: x_def)
  have "\<exists>n::int. x = of_int n * 2 powi d"
  proof (cases "d \<le> e")
    case True
    have "x = of_int (m * 2 ^ nat (e - d)) * 2 powi d"
      using True powi_add [of "e - d" d] by (simp add: x_def power_int_def)
    then show ?thesis by blast
  next
    case False
    then have "2 powi (d + 23) \<le> \<bar>x\<bar>" using fl_exp_ge [OF x0] e by (simp add: d_def)
    moreover have "\<bar>x\<bar> \<le> 2 ^ 24 * 2 powi e"
      using m by (simp add: x_def abs_mult mult_right_mono)
    ultimately have le: "(2::real) powi (d + 23) \<le> 2 powi (24 + e)"
      by (simp add: powi_add)
    then have "d + 23 < 24 + e + 1"
    proof -
      have "(2::real) powi (24 + e) < 2 powi (24 + e + 1)"
        by (rule power_int_strict_increasing) simp_all
      then show ?thesis using le powi_le_cancel [of "d + 23" "24 + e + 1"] by linarith
    qed
    then have d: "d = e + 1" using False by linarith
    then have "(2::real) ^ 24 * 2 powi e \<le> of_int \<bar>m\<bar> * 2 powi e"
      using \<open>2 powi (d + 23) \<le> \<bar>x\<bar>\<close> powi_add [of 24 e] by (simp add: x_def abs_mult add.commute)
    then have "2 ^ 24 \<le> \<bar>m\<bar>"
      by (metis mult_le_cancel_right not_less of_int_abs numeral_power_le_of_int_cancel_iff powi_pos order_less_imp_le)
    with m have "m = 2 ^ 24 \<or> m = - (2 ^ 24)" by linarith
    then have "even m" by auto
    then obtain n where "m = 2 * n" by blast
    then have "x = of_int n * 2 powi d" using d powi_add [of e 1] by (simp add: x_def)
    then show ?thesis by blast
  qed
  then obtain n :: int where n: "x = of_int n * 2 powi d" by blast
  then have "x / 2 powi d = of_int n" by simp
  then have "fl32 x = of_int n * 2 powi d" unfolding fl32_eq d_def [symmetric] by simp
  then show ?thesis using n by (simp add: x_def)
qed (simp add: fl32_def)

section \<open>The laws hold for binary32\<close>

lemma fl32_minus: "fl32 (- x) = - fl32 x"
  using rne_minus [of "x / 2 powi fl_exp x"] by (simp add: fl32_def fl_exp_def)

lemma fl32_nonneg: "0 \<le> x \<Longrightarrow> 0 \<le> fl32 x"
  using rne_mono [of 0 "x / 2 powi fl_exp x"] rne_of_int [of 0] by (simp add: fl32_def)

lemma fl_exp_mono: "0 < x \<Longrightarrow> x \<le> y \<Longrightarrow> fl_exp x \<le> fl_exp y"
  unfolding fl_exp_def by (intro max.mono diff_mono floor_mono) simp_all

lemma fl32_le_pow:
  assumes "0 \<le> x" shows "fl32 x \<le> 2 powi (fl_exp x + 24)"
proof -
  have "x / 2 powi fl_exp x \<le> of_int (2 ^ 24)"
    using fl_exp_le [of x] assms by (simp add: field_simps powi_add)
  then have "rne (x / 2 powi fl_exp x) \<le> 2 ^ 24"
    using rne_mono rne_of_int by metis
  then have "of_int (rne (x / 2 powi fl_exp x)) \<le> (2::real) ^ 24"
    by (metis of_int_le_numeral_power_cancel_iff)
  then show ?thesis unfolding fl32_eq powi_add by (simp add: mult.commute)
qed

lemma fl32_ge_pow:
  assumes "0 < x" "- 149 < fl_exp x" shows "2 powi (fl_exp x + 23) \<le> fl32 x"
proof -
  have "of_int (2 ^ 23) \<le> x / 2 powi fl_exp x"
    using fl_exp_ge [of x] assms by (simp add: field_simps powi_add)
  then have "2 ^ 23 \<le> rne (x / 2 powi fl_exp x)"
    using rne_mono rne_of_int by metis
  then have "(2::real) ^ 23 \<le> of_int (rne (x / 2 powi fl_exp x))"
    by (metis numeral_power_le_of_int_cancel_iff)
  then show ?thesis unfolding fl32_eq powi_add by (simp add: mult.commute)
qed

lemma fl32_mono_pos:
  assumes "0 < x" "x \<le> y" shows "fl32 x \<le> fl32 y"
proof (cases "fl_exp x = fl_exp y")
  case True
  have "rne (x / 2 powi fl_exp x) \<le> rne (y / 2 powi fl_exp x)"
    by (rule rne_mono) (use assms in \<open>simp add: divide_right_mono\<close>)
  then show ?thesis unfolding fl32_eq True by (simp add: mult_right_mono)
next
  case False
  then have lt: "fl_exp x < fl_exp y" using fl_exp_mono [OF assms] by simp
  have "fl32 x \<le> 2 powi (fl_exp x + 24)" using assms(1) by (simp add: fl32_le_pow)
  also have "\<dots> \<le> 2 powi (fl_exp y + 23)" using lt by (simp add: powi_mono)
  also have "\<dots> \<le> fl32 y"
    by (rule fl32_ge_pow) (use assms lt in \<open>auto simp: fl_exp_def\<close>)
  finally show ?thesis .
qed

lemma fl32_0 [simp]: "fl32 0 = 0"
  by (simp add: fl32_def)

lemma fl32_mono: assumes "x \<le> y" shows "fl32 x \<le> fl32 y"
proof -
  have nonneg: "fl32 a \<le> fl32 b" if "0 \<le> a" "a \<le> b" for a b
    using that fl32_mono_pos [of a b] fl32_nonneg [of b] by (cases "a = 0") auto
  consider "0 \<le> x" | "y \<le> 0" | "x < 0" "0 < y" by linarith
  then show ?thesis
  proof cases
    case 2
    then have "fl32 (- y) \<le> fl32 (- x)" using assms by (intro nonneg) simp_all
    then show ?thesis by (simp add: fl32_minus)
  next
    case 3
    then show ?thesis using fl32_nonneg [of "- x"] fl32_nonneg [of y] by (simp add: fl32_minus)
  qed (use assms nonneg in blast)
qed

lemma fl32_err: "\<bar>fl32 x - x\<bar> \<le> \<bar>x\<bar> / 2 ^ 24 + 1 / 2 ^ 150"
proof (cases "x = 0")
  case False
  define u where "u = (2::real) powi fl_exp x"
  have u: "0 < u" by (simp add: u_def)
  have "fl32 x - x = (of_int (rne (x / u)) - x / u) * u"
    using u by (simp add: fl32_eq u_def [symmetric] left_diff_distrib)
  then have "\<bar>fl32 x - x\<bar> \<le> u / 2"
    using rne_err [of "x / u"] u by (simp add: abs_mult)
  also have "\<dots> \<le> \<bar>x\<bar> / 2 ^ 24 + 1 / 2 ^ 150"
  proof (cases "fl_exp x = - 149")
    case True
    then have "u / 2 = 1 / 2 ^ 150" by (simp add: u_def power_int_def field_simps)
    then show ?thesis by (simp add: field_simps)
  next
    case ne: False
    then have "- 149 < fl_exp x" by (simp add: fl_exp_def)
    then have "u * 2 ^ 23 \<le> \<bar>x\<bar>" using fl_exp_ge [OF False] by (simp add: u_def powi_add)
    then show ?thesis by (simp add: field_simps)
  qed
  finally show ?thesis .
qed simp

lemma fl32_idem: "fl32 (fl32 x) = fl32 x"
proof -
  have "x \<le> 2 ^ 24 * 2 powi fl_exp x" "- (2 ^ 24 * 2 powi fl_exp x) \<le> x"
    using fl_exp_le [of x] by (simp_all add: powi_add abs_less_iff)
  then have "x / 2 powi fl_exp x \<le> of_int (2 ^ 24)" "of_int (- (2 ^ 24)) \<le> x / 2 powi fl_exp x"
    by (simp_all add: field_simps)
  then have "rne (x / 2 powi fl_exp x) \<le> 2 ^ 24" "- (2 ^ 24) \<le> rne (x / 2 powi fl_exp x)"
    using rne_mono rne_of_int by metis+
  then have "\<bar>rne (x / 2 powi fl_exp x)\<bar> \<le> 2 ^ 24" by linarith
  then show ?thesis
    unfolding fl32_eq [of x] by (intro fl32_exact) (simp_all add: fl_exp_def)
qed

lemma fl32_dyadic:
  assumes "\<bar>m\<bar> \<le> 2 ^ 24" "k \<le> 149"
  shows "fl32 (of_int m / 2 ^ k) = of_int m / 2 ^ k"
proof -
  have "(2::real) powi (- int k) = 1 / 2 ^ k" by (simp add: power_int_minus_divide)
  then show ?thesis using fl32_exact [of m "- int k"] assms by simp
qed

interpretation binary32: float_unit fl32
  by unfold_locales (rule fl32_mono fl32_idem fl32_minus fl32_dyadic fl32_err; assumption?)+

end
