(* ===== verification/Engine.thy ===== *)
theory Engine
  imports Float32
begin

text \<open>
  The interface to Urho3D, the engine the game is written against. The engine is not part of
  the repository, so nothing here defines what it computes: its pure functions (vector and
  quaternion algebra, trigonometry, case-insensitive string comparison) are the fields of a
  record \<open>urho\<close> that the definitions of the model take as an argument, and what it
  answers about the scene in one frame (positions, navigation paths, ray casts) is the record
  \<open>scene\<close>. Public data members of engine types that the source reads and writes
  (\<open>position.x_\<close>, \<open>difference.y_ = 0.0f\<close>) are record fields here.

  What the source tells the engine to do without reading it back (play a sound, remove a
  node, end the level) is an \<^verbatim>\<open>effect\<close>, listed in the order of the calls.
  \<open>Game::EndLevel\<close> is always the last thing its callers do, so executing the
  \<open>End_Level\<close> effect when the caller returns is executing it where it is called.
\<close>

section \<open>Values\<close>

type_synonym node = nat

record vec3 =
  vx :: real
  vy :: real
  vz :: real

record quat =
  qw :: real
  qx :: real
  qy :: real
  qz :: real

definition V3 :: "real \<Rightarrow> real \<Rightarrow> real \<Rightarrow> vec3" where
  "V3 x y z = \<lparr>vx = x, vy = y, vz = z\<rparr>"

lemma V3_sel [simp, vec_simps]: "vx (V3 x y z) = x" "vy (V3 x y z) = y" "vz (V3 x y z) = z"
  by (simp_all add: V3_def)

lemma V3_update [simp, vec_simps]:
  "(V3 x y z)\<lparr>vx := a\<rparr> = V3 a y z" "(V3 x y z)\<lparr>vy := a\<rparr> = V3 x a z" "(V3 x y z)\<lparr>vz := a\<rparr> = V3 x y a"
  by (simp_all add: V3_def)

lemma V3_eq_iff [simp]: "V3 x y z = V3 x' y' z' \<longleftrightarrow> x = x' \<and> y = y' \<and> z = z'"
  by (simp add: V3_def)

lemma vec3_eqI: "vx a = vx b \<Longrightarrow> vy a = vy b \<Longrightarrow> vz a = vz b \<Longrightarrow> a = (b :: vec3)"
  by simp

abbreviation vec_ZERO :: vec3 where "vec_ZERO \<equiv> V3 0 0 0"
abbreviation vec_UP :: vec3 where "vec_UP \<equiv> V3 0 1 0"
abbreviation vec_DOWN :: vec3 where "vec_DOWN \<equiv> V3 0 (- 1) 0"
abbreviation vec_LEFT :: vec3 where "vec_LEFT \<equiv> V3 (- 1) 0 0"
abbreviation vec_RIGHT :: vec3 where "vec_RIGHT \<equiv> V3 1 0 0"
abbreviation vec_FORWARD :: vec3 where "vec_FORWARD \<equiv> V3 0 0 1"

datatype color = WHITE | BLACK | RED | GREEN | BLUE | GRAY | Rgba real real real real

section \<open>The engine's functions\<close>

text \<open>\<open>flt\<close> rounds to \<open>float\<close>; the other fields are named after the Urho3D members
  they stand for: \<open>Vector3::operator+\<close>, \<open>operator-\<close>, \<open>operator*\<close> with a scalar,
  \<open>LengthSquared\<close>, \<open>Length\<close>, \<open>DotProduct\<close>, \<open>Normalize\<close>, \<open>operator/\<close> and the
  unary \<open>operator-\<close>; \<open>Cos\<close> and
  \<open>Sin\<close> of an angle in degrees; the \<open>Quaternion\<close> constructors from an angle and an
  axis, from Euler angles and from two directions, \<open>operator*\<close>, \<open>Normalized\<close>,
  \<open>Slerp\<close>, \<open>YawAngle\<close> and the rotation of a vector; \<open>Node::Rotate\<close> on a rotation;
  \<open>String::Compare(_, false) == 0\<close>; \<open>ToFloat\<close>, \<open>ToInt\<close>, \<open>ToBool\<close>,
  \<open>ToVector3\<close>, \<open>ToVector2\<close> and \<open>ToIntVector2\<close>, which read an XML attribute.\<close>

record urho =
  flt :: "real \<Rightarrow> real"
  vec_add :: "vec3 \<Rightarrow> vec3 \<Rightarrow> vec3"
  vec_sub :: "vec3 \<Rightarrow> vec3 \<Rightarrow> vec3"
  vec_scale :: "vec3 \<Rightarrow> real \<Rightarrow> vec3"
  vec_len2 :: "vec3 \<Rightarrow> real"
  vec_len :: "vec3 \<Rightarrow> real"
  vec_dot :: "vec3 \<Rightarrow> vec3 \<Rightarrow> real"
  vec_norm :: "vec3 \<Rightarrow> vec3"
  vec_div :: "vec3 \<Rightarrow> vec3 \<Rightarrow> vec3"
  vec_neg :: "vec3 \<Rightarrow> vec3"
  u_cos :: "real \<Rightarrow> real"
  u_sin :: "real \<Rightarrow> real"
  q_axis :: "real \<Rightarrow> vec3 \<Rightarrow> quat"
  q_euler :: "real \<Rightarrow> real \<Rightarrow> real \<Rightarrow> quat"
  q_between :: "vec3 \<Rightarrow> vec3 \<Rightarrow> quat"
  q_mul :: "quat \<Rightarrow> quat \<Rightarrow> quat"
  q_norm :: "quat \<Rightarrow> quat"
  q_slerp :: "quat \<Rightarrow> quat \<Rightarrow> real \<Rightarrow> quat"
  q_yaw :: "quat \<Rightarrow> real"
  q_rot :: "quat \<Rightarrow> vec3 \<Rightarrow> vec3"
  n_rotate :: "quat \<Rightarrow> quat \<Rightarrow> quat"
  str_ieq :: "string \<Rightarrow> string \<Rightarrow> bool"
  parse_float :: "string \<Rightarrow> real"
  parse_int :: "string \<Rightarrow> int"
  parse_bool :: "string \<Rightarrow> bool"
  parse_vec3 :: "string \<Rightarrow> vec3"
  parse_vec2 :: "string \<Rightarrow> real \<times> real"
  parse_ivec2 :: "string \<Rightarrow> int \<times> int"

text \<open>The \<open>float\<close> operations of the source: the exact result, rounded.\<close>

abbreviation fadd :: "urho \<Rightarrow> real \<Rightarrow> real \<Rightarrow> real" where "fadd E a b \<equiv> flt E (a + b)"
abbreviation fsub :: "urho \<Rightarrow> real \<Rightarrow> real \<Rightarrow> real" where "fsub E a b \<equiv> flt E (a - b)"
abbreviation fmul :: "urho \<Rightarrow> real \<Rightarrow> real \<Rightarrow> real" where "fmul E a b \<equiv> flt E (a * b)"
abbreviation fdiv :: "urho \<Rightarrow> real \<Rightarrow> real \<Rightarrow> real" where "fdiv E a b \<equiv> flt E (a / b)"

text \<open>\<open>node->GetWorldDirection()\<close> and \<open>GetDirection()\<close>: the rotated forward axis.\<close>

definition node_dir :: "urho \<Rightarrow> quat \<Rightarrow> vec3" where
  "node_dir E r = q_rot E r vec_FORWARD"

text \<open>The documented behaviour of the engine that some properties rely on, as an interface:
  the arithmetic unit rounds to nearest, and vectors are added and subtracted by component.\<close>

locale vector_unit = float_unit "flt E" for E :: urho +
  assumes add_x: "vx (vec_add E a b) = flt E (vx a + vx b)"
    and add_y: "vy (vec_add E a b) = flt E (vy a + vy b)"
    and add_z: "vz (vec_add E a b) = flt E (vz a + vz b)"
    and sub_x: "vx (vec_sub E a b) = flt E (vx a - vx b)"
    and sub_y: "vy (vec_sub E a b) = flt E (vy a - vy b)"
    and sub_z: "vz (vec_sub E a b) = flt E (vz a - vz b)"
    and len2_zero: "vec_len2 E vec_ZERO = 0"
    and len2_nonneg: "0 \<le> vec_len2 E v"
begin

lemma add_V3: "vec_add E (V3 x y z) (V3 a b c) = V3 (flt E (x + a)) (flt E (y + b)) (flt E (z + c))"
  by (rule vec3_eqI) (simp_all add: add_x add_y add_z)

lemma sub_V3: "vec_sub E (V3 x y z) (V3 a b c) = V3 (flt E (x - a)) (flt E (y - b)) (flt E (z - c))"
  by (rule vec3_eqI) (simp_all add: sub_x sub_y sub_z)

lemma sub_self: "vec_sub E a a = vec_ZERO"
  by (rule vec3_eqI) (simp_all add: sub_x sub_y sub_z rnd_0)

end

text \<open>A concrete engine for the witnesses: binary32 arithmetic by component.\<close>

definition engine32 :: urho where
  "engine32 = \<lparr>
     flt = fl32,
     vec_add = (\<lambda>a b. V3 (fl32 (vx a + vx b)) (fl32 (vy a + vy b)) (fl32 (vz a + vz b))),
     vec_sub = (\<lambda>a b. V3 (fl32 (vx a - vx b)) (fl32 (vy a - vy b)) (fl32 (vz a - vz b))),
     vec_scale = (\<lambda>a s. V3 (fl32 (vx a * s)) (fl32 (vy a * s)) (fl32 (vz a * s))),
     vec_len2 = (\<lambda>a. vx a * vx a + vy a * vy a + vz a * vz a),
     vec_len = (\<lambda>a. sqrt (vx a * vx a + vy a * vy a + vz a * vz a)),
     vec_dot = (\<lambda>a b. vx a * vx b + vy a * vy b + vz a * vz b),
     vec_norm = (\<lambda>a. let l = sqrt (vx a * vx a + vy a * vy a + vz a * vz a) in
        if l = 0 then a else V3 (vx a / l) (vy a / l) (vz a / l)),
     vec_div = (\<lambda>a b. V3 (fl32 (vx a / vx b)) (fl32 (vy a / vy b)) (fl32 (vz a / vz b))),
     vec_neg = (\<lambda>a. V3 (- vx a) (- vy a) (- vz a)),
     u_cos = (\<lambda>d. cos (d * pi / 180)),
     u_sin = (\<lambda>d. sin (d * pi / 180)),
     q_axis = (\<lambda>a v. \<lparr>qw = a, qx = vx v, qy = vy v, qz = vz v\<rparr>),
     q_euler = (\<lambda>x y z. \<lparr>qw = 1, qx = x, qy = y, qz = z\<rparr>),
     q_between = (\<lambda>a b. \<lparr>qw = 1, qx = vx b - vx a, qy = vy b - vy a, qz = vz b - vz a\<rparr>),
     q_mul = (\<lambda>a b. a),
     q_norm = (\<lambda>a. a),
     q_slerp = (\<lambda>a b t. b),
     q_yaw = qw,
     q_rot = (\<lambda>q v. v),
     n_rotate = (\<lambda>r d. d),
     str_ieq = (=),
     parse_float = (\<lambda>s. of_nat (length s)),
     parse_int = (\<lambda>s. int (length s)),
     parse_bool = (\<lambda>s. s = ''true''),
     parse_vec3 = (\<lambda>s. V3 (of_nat (length s)) 0 0),
     parse_vec2 = (\<lambda>s. (of_nat (length s), 0)),
     parse_ivec2 = (\<lambda>s. (int (length s), 0)) \<rparr>"

lemma engine32_sel [simp]:
  "flt engine32 = fl32"
  "vec_add engine32 a b = V3 (fl32 (vx a + vx b)) (fl32 (vy a + vy b)) (fl32 (vz a + vz b))"
  "vec_sub engine32 a b = V3 (fl32 (vx a - vx b)) (fl32 (vy a - vy b)) (fl32 (vz a - vz b))"
  "vec_len2 engine32 a = vx a * vx a + vy a * vy a + vz a * vz a"
  "str_ieq engine32 = (=)"
  "parse_float engine32 t = of_nat (length t)"
  "parse_int engine32 t = int (length t)"
  "parse_bool engine32 t = (t = ''true'')"
  "parse_vec3 engine32 t = V3 (of_nat (length t)) 0 0"
  by (simp_all add: engine32_def)

interpretation engine: vector_unit engine32
  by (intro vector_unit.intro vector_unit_axioms.intro) (simp_all add: binary32.float_unit_axioms)

section \<open>XML elements\<close>

text \<open>An element of a level or room file: its tag, attributes, text and child elements.
  \<open>GetAttribute\<close> of a missing attribute is the empty string; \<open>GetChild(tag)\<close> followed
  by \<open>GetNext(tag)\<close> visits the children with that tag in document order.\<close>

datatype xml = Xml (xml_tag: string) (xml_attrs: "(string \<times> string) list") (xml_value: string)
  (xml_children: "xml list")

definition has_attr :: "xml \<Rightarrow> string \<Rightarrow> bool" where
  "has_attr x k = (map_of (xml_attrs x) k \<noteq> None)"

definition get_attr :: "xml \<Rightarrow> string \<Rightarrow> string" where
  "get_attr x k = (case map_of (xml_attrs x) k of None \<Rightarrow> [] | Some v \<Rightarrow> v)"

definition children_named :: "string \<Rightarrow> xml \<Rightarrow> xml list" where
  "children_named t x = filter (\<lambda>c. xml_tag c = t) (xml_children x)"

section \<open>The scene in one frame\<close>

text \<open>\<open>GetScene()->GetChild("Person", true)\<close>; \<open>GetWorldPosition()\<close> of a node;
  \<open>NavigationMesh::FindPath\<close> and \<open>FindNearestPoint\<close>;
  \<open>PhysicsWorld::RaycastSingle\<close>: the node of the body hit, if any, for an origin, a direction
  and a distance.\<close>

record scene =
  person_node :: node
  world_pos :: "node \<Rightarrow> vec3"
  find_path :: "vec3 \<Rightarrow> vec3 \<Rightarrow> vec3 list"
  find_nearest :: "vec3 \<Rightarrow> vec3 \<Rightarrow> vec3"
  raycast :: "vec3 \<Rightarrow> vec3 \<Rightarrow> real \<Rightarrow> node option"

abbreviation person_pos :: "scene \<Rightarrow> vec3" where
  "person_pos sc \<equiv> world_pos sc (person_node sc)"

text \<open>A concrete scene for the witnesses: nothing blocks a ray, a path is its two end points.\<close>

definition scene0 :: scene where
  "scene0 = \<lparr>person_node = 3, world_pos = (\<lambda>n. if n = 3 then vec_ZERO else V3 (of_nat n) 0 0),
     find_path = (\<lambda>a b. [a, b]), find_nearest = (\<lambda>p _. p), raycast = (\<lambda>_ _ _. None)\<rparr>"

definition quat0 :: quat where
  "quat0 = \<lparr>qw = 1, qx = 0, qy = 0, qz = 0\<rparr>"

lemma scene0_sel [simp]:
  "person_node scene0 = 3" "world_pos scene0 n = (if n = 3 then vec_ZERO else V3 (of_nat n) 0 0)"
  "find_path scene0 a b = [a, b]" "find_nearest scene0 a b = a" "raycast scene0 a b d = None"
  by (simp_all add: scene0_def)

section \<open>Effects\<close>

datatype effect =
    Play_Sound string
  | Stop_Sound
  | Remove_Node node
  | End_Level bool bool
  | Log_Error string
  | Log_Warning string
  | Create_Node string vec3
  | Exit_Engine
  | Crash

text \<open>The rooms of a level are 11 m squares centred on multiples of 11 m: the room of a
  position, as several components compute it.\<close>

definition room_of :: "urho \<Rightarrow> vec3 \<Rightarrow> int \<times> int" where
  "room_of E p = (c_round (fdiv E (vx p) 11), c_round (fdiv E (vz p) 11))"

end
