(* ===== verification/Timer.thy ===== *)
theory Timer
  imports Float32
begin

text \<open>
  Timers that count down by the frame's time step: \<open>SelfDestroy\<close>, the lasers' delay, the
  animated posters. The locale \<open>countdown\<close> is their contract; on a grid of binary fractions
  the \<open>float\<close> arithmetic is exact, and the frame in which a timer runs out is known.
\<close>

locale countdown = float_unit rnd
  for rnd :: "real \<Rightarrow> real" +
  fixes left :: "'s \<Rightarrow> real"
    and tick :: "real \<Rightarrow> 's \<Rightarrow> 's"
  assumes tick_left: "0 < left s \<Longrightarrow> left (tick dt s) = rnd (left s - dt)"
begin

lemma tick_le:
  assumes "0 < left s" "rnd (left s) = left s" "0 \<le> dt"
  shows "left (tick dt s) \<le> left s"
  using assms sub_le by (simp add: tick_left)

lemma run_exact:
  assumes "left s = of_int a / 2 ^ m" "m \<le> 149" "a \<le> 2 ^ 24" "0 < b" "b \<le> 2 ^ 24"
    and "0 < a - (int n - 1) * b"
  shows "left ((tick (of_int b / 2 ^ m) ^^ n) s) = of_int (a - int n * b) / 2 ^ m"
  using assms(6)
proof (induction n)
  case (Suc n)
  have r: "0 < a - int n * b" using Suc.prems by simp
  moreover have "a - (int n - 1) * b = a - int n * b + b" by (simp add: algebra_simps)
  ultimately have IH: "left ((tick (of_int b / 2 ^ m) ^^ n) s) = of_int (a - int n * b) / 2 ^ m"
    using Suc.IH assms(4) by linarith
  have "0 \<le> int n * b" using assms(4) by simp
  then have ub: "a - int n * b \<le> 2 ^ 24" using assms(3) by linarith
  have "\<bar>a - int n * b - b\<bar> \<le> 2 ^ 24" using r ub assms(4,5) by linarith
  then have "rnd (of_int (a - int n * b - b) / 2 ^ m) = of_int (a - int n * b - b) / 2 ^ m"
    using rnd_dyadic assms(2) by blast
  moreover have "0 < left ((tick (of_int b / 2 ^ m) ^^ n) s)"
    using r by (simp only: IH) (simp flip: of_int_mult of_int_diff)
  moreover have "left ((tick (of_int b / 2 ^ m) ^^ n) s) - of_int b / 2 ^ m = of_int (a - int n * b - b) / 2 ^ m"
    unfolding IH by (simp add: diff_divide_distrib)
  ultimately show ?case by (simp add: tick_left algebra_simps)
qed (simp add: assms)

text \<open>The frame in which the timer runs out.\<close>

lemma runs_out:
  assumes "left s = of_int a / 2 ^ m" "m \<le> 149" "a \<le> 2 ^ 24" "0 < b" "b \<le> 2 ^ 24"
    and "(int n - 1) * b < a" "a \<le> int n * b"
  shows "left ((tick (of_int b / 2 ^ m) ^^ n) s) \<le> 0"
    and "k < n \<Longrightarrow> 0 < left ((tick (of_int b / 2 ^ m) ^^ k) s)"
proof -
  show "left ((tick (of_int b / 2 ^ m) ^^ n) s) \<le> 0"
    using assms run_exact [OF assms(1-5), of n]
    by (simp add: divide_nonpos_pos flip: of_int_mult of_int_diff)
  assume k: "k < n"
  then have "int k * b \<le> (int n - 1) * b" using assms(4) by (intro mult_right_mono) auto
  then have "0 < a - int k * b" using assms(6) by linarith
  moreover have "(int k - 1) * b \<le> int k * b" using assms(4) by (simp add: left_diff_distrib)
  ultimately show "0 < left ((tick (of_int b / 2 ^ m) ^^ k) s)"
    using run_exact [OF assms(1-5), of k] by (simp flip: of_int_mult of_int_diff)
qed

end

section \<open>Periodic events\<close>

text \<open>A component that does something every \<open>p\<close> frames: the phase counts the frames since
  the last event, \<open>out\<close> is what the events change, by \<open>f\<close>. The contract holds on the
  states that satisfy \<open>ok\<close>, which frames preserve.\<close>

locale periodic =
  fixes ok :: "'s \<Rightarrow> bool"
    and step :: "'s \<Rightarrow> 's"
    and phase :: "'s \<Rightarrow> nat"
    and out :: "'s \<Rightarrow> 'o"
    and f :: "'o \<Rightarrow> 'o"
    and p :: nat
  assumes p_pos: "0 < p"
    and phase_less: "ok s \<Longrightarrow> phase s < p"
    and ok_step: "ok s \<Longrightarrow> ok (step s)"
    and phase_step: "ok s \<Longrightarrow> phase (step s) = Suc (phase s) mod p"
    and out_step: "ok s \<Longrightarrow> out (step s) = (if Suc (phase s) = p then f (out s) else out s)"
begin

lemma schedule:
  "ok s \<Longrightarrow> ok ((step ^^ n) s) \<and> phase ((step ^^ n) s) = (phase s + n) mod p \<and>
    out ((step ^^ n) s) = (f ^^ ((phase s + n) div p)) (out s)"
proof (induction n)
  case 0
  then show ?case using phase_less [of s] by simp
next
  case (Suc n)
  let ?s = "(step ^^ n) s"
  have IH: "ok ?s" "phase ?s = (phase s + n) mod p" "out ?s = (f ^^ ((phase s + n) div p)) (out s)"
    using Suc by auto
  have d: "(phase s + Suc n) div p = (if Suc (phase ?s) = p then Suc ((phase s + n) div p) else (phase s + n) div p)"
    using p_pos by (simp add: IH(2) div_Suc mod_Suc split: if_splits)
  have "phase ((step ^^ Suc n) s) = (phase s + Suc n) mod p"
    using phase_step [OF IH(1)] by (simp add: IH(2) mod_simps)
  moreover have "out ((step ^^ Suc n) s) = (f ^^ ((phase s + Suc n) div p)) (out s)"
    unfolding d using out_step [OF IH(1)] by (simp add: IH(3))
  ultimately show ?case using ok_step [OF IH(1)] by simp
qed

end

end
