(* ===== verification/Posters.thy ===== *)
theory Posters
  imports Engine Timer
begin

text \<open>
  Animated posters (\<open>src/AnimatedPoster.cpp\<close>): a texture that is replaced at a fixed pace, on a
  material of the poster's own.
\<close>

record material =
  mt_texture :: "string option"
  mt_bias :: real

text \<open>Times are \<open>float\<close>s that may be infinite: \<open>1.0f / 0.0f\<close>, the speed of a poster whose
  element has no \<open>speed\<close>, is \<open>None\<close>, and stays infinite when a time step is subtracted.\<close>

record animated_poster =
  a_speed :: "real option"
  a_count :: int
  a_path :: string
  a_timer :: "real option"
  a_frame :: int
  a_material :: "material option"
  a_model :: "material option"
  a_removed :: bool

definition ap_new :: "animated_poster \<Rightarrow> animated_poster" where
  "ap_new p = p\<lparr>a_speed := Some 1, a_count := 1, a_timer := Some 0, a_frame := 0, a_material := None,
     a_removed := False\<rparr>"

definition ap_load :: "urho \<Rightarrow> xml \<Rightarrow> animated_poster \<Rightarrow> animated_poster" where
  "ap_load E x p =
     (let sp = parse_float E (get_attr x ''speed'')
      in p\<lparr>a_speed := (if sp = 0 then None else Some (fdiv E 1 sp)),
           a_count := parse_int E (get_attr x ''frames''),
           a_path := get_attr x ''path''\<rparr>)"

text \<open>\<open>clone\<close> is \<open>Material::Clone\<close>.\<close>

definition ap_start :: "(material \<Rightarrow> material) \<Rightarrow> animated_poster \<Rightarrow> animated_poster \<times> effect list" where
  "ap_start clone p =
     (case a_model p of
        None \<Rightarrow> (p, [Log_Error ''Bad material on animated poster.''])
      | Some base \<Rightarrow>
          (let m = (clone base)\<lparr>mt_bias := mt_bias base\<rparr>
           in (p\<lparr>a_material := Some m, a_model := Some m\<rparr>, [])))"

definition ap_texture :: "string \<Rightarrow> int \<Rightarrow> string" where
  "ap_texture path frame = ''Textures/'' @ path @ ''/'' @ show_int (frame + 1) @ ''.png''"

text \<open>\<open>loaded\<close> says which resources exist: the texture of a missing file is null.\<close>

definition ap_update :: "urho \<Rightarrow> (string \<Rightarrow> bool) \<Rightarrow> real \<Rightarrow> animated_poster \<Rightarrow> animated_poster" where
  "ap_update E loaded dt p =
     (case a_material p of
        None \<Rightarrow> p\<lparr>a_removed := True\<rparr>
      | Some m \<Rightarrow>
          (let p1 = p\<lparr>a_timer := map_option (\<lambda>t. fsub E t dt) (a_timer p)\<rparr> in
           if (case a_timer p1 of None \<Rightarrow> True | Some t \<Rightarrow> 0 < t) then p1
           else (let p2 = p1\<lparr>a_timer := a_speed p1, a_frame := a_frame p1 + 1\<rparr>;
                     p3 = (if a_count p2 \<le> a_frame p2 then p2\<lparr>a_frame := 0\<rparr> else p2);
                     n = ap_texture (a_path p3) (a_frame p3);
                     m1 = m\<lparr>mt_texture := (if loaded n then Some n else None)\<rparr>
                 in p3\<lparr>a_material := Some m1, a_model := Some m1\<rparr>)))"

section \<open>Lemmas\<close>

definition ap_next :: "int \<Rightarrow> int \<Rightarrow> int" where
  "ap_next c f = (if c \<le> f + 1 then 0 else f + 1)"

lemma ap_next_pow: "0 \<le> x \<Longrightarrow> x < c \<Longrightarrow> (ap_next c ^^ n) x = (x + int n) mod c"
proof (induction n)
  case (Suc n)
  let ?y = "(x + int n) mod c"
  have y: "(ap_next c ^^ n) x = ?y" "0 \<le> ?y" "?y < c" using Suc by auto
  have "(x + int (Suc n)) mod c = (?y + 1) mod c" by (simp add: mod_simps algebra_simps)
  also have "\<dots> = ap_next c ?y" using y(2,3) by (cases "?y + 1 = c") (auto simp: ap_next_def)
  finally show ?case by (simp add: y(1))
qed simp

lemma ap_next_range: "0 < c \<Longrightarrow> 0 \<le> f \<Longrightarrow> 0 \<le> ap_next c f \<and> ap_next c f < c"
  by (simp add: ap_next_def)

text \<open>The invariant of a running poster: a timer of \<open>(a - k b) / 2^m\<close> seconds \<open>k\<close> frames after
  a change, and the texture of the current frame.\<close>

definition ap_running :: "(string \<Rightarrow> bool) \<Rightarrow> int \<Rightarrow> int \<Rightarrow> nat \<Rightarrow> animated_poster \<Rightarrow> bool" where
  "ap_running loaded a b m p \<longleftrightarrow>
     a_speed p = Some (of_int a / 2 ^ m) \<and>
     (\<exists>k. int k * b < a \<and> a_timer p = Some (of_int (a - int k * b) / 2 ^ m)) \<and>
     map_option mt_texture (a_material p) =
       Some (if loaded (ap_texture (a_path p) (a_frame p)) then Some (ap_texture (a_path p) (a_frame p)) else None)"

definition ap_phase :: "int \<Rightarrow> int \<Rightarrow> nat \<Rightarrow> animated_poster \<Rightarrow> nat" where
  "ap_phase a b m p = nat \<lfloor>(of_int a - the (a_timer p) * 2 ^ m) / of_int b\<rfloor>"

definition frames_per_image :: "int \<Rightarrow> int \<Rightarrow> nat" where
  "frames_per_image a b = Suc (nat ((a - 1) div b))"

lemma ap_phase_eq: "a_timer p = Some (of_int (a - int k * b) / 2 ^ m) \<Longrightarrow> 0 < b \<Longrightarrow> ap_phase a b m p = k"
  by (simp add: ap_phase_def)

lemma last_frame:
  assumes "0 < b" "0 < a" "int k * b < a"
  shows "k < frames_per_image a b" and "a \<le> int (Suc k) * b \<longleftrightarrow> Suc k = frames_per_image a b"
proof -
  have le: "int k \<le> (a - 1) div b" using zdiv_mono1 [of "int k * b" "a - 1" b] assms by simp
  then show "k < frames_per_image a b" by (simp add: frames_per_image_def)
  have m: "(a - 1) div b * b \<le> a - 1" "a - 1 < (a - 1) div b * b + b"
    using pos_mod_sign [OF assms(1), of "a - 1"] pos_mod_bound [OF assms(1), of "a - 1"] div_mult_mod_eq [of "a - 1" b]
    by linarith+
  have "a \<le> int (Suc k) * b \<longleftrightarrow> (a - 1) div b < int (Suc k)"
  proof
    assume "a \<le> int (Suc k) * b"
    then have "(a - 1) div b * b < int (Suc k) * b" using m(1) by linarith
    then show "(a - 1) div b < int (Suc k)" using assms(1) by (simp only: mult_less_cancel_right)
  next
    assume "(a - 1) div b < int (Suc k)"
    then have "(a - 1) div b \<le> int k" by simp
    then have "(a - 1) div b * b \<le> int k * b" using assms(1) by (intro mult_right_mono) auto
    then show "a \<le> int (Suc k) * b" using m(2) by (simp add: algebra_simps)
  qed
  then show "a \<le> int (Suc k) * b \<longleftrightarrow> Suc k = frames_per_image a b"
    using le nat_eq_iff [of "(a - 1) div b" k] by (simp add: frames_per_image_def) linarith
qed

lemma ap_step:
  assumes "float_unit (flt E)" "0 < a" "a \<le> 2 ^ 24" "0 < b" "b \<le> 2 ^ 24" "m \<le> 149"
    and "a_speed p = Some (of_int a / 2 ^ m)" "int k * b < a" "a_timer p = Some (of_int (a - int k * b) / 2 ^ m)"
    and "a_material p = Some mat"
  shows "case ap_update E loaded (of_int b / 2 ^ m) p of p' \<Rightarrow>
    a_speed p' = a_speed p \<and> a_path p' = a_path p \<and> a_count p' = a_count p \<and>
    (if Suc k = frames_per_image a b
     then a_timer p' = Some (of_int a / 2 ^ m) \<and> a_frame p' = ap_next (a_count p) (a_frame p) \<and>
       map_option mt_texture (a_material p') =
         Some (if loaded (ap_texture (a_path p') (a_frame p')) then Some (ap_texture (a_path p') (a_frame p')) else None)
     else a_timer p' = Some (of_int (a - int (Suc k) * b) / 2 ^ m) \<and> int (Suc k) * b < a \<and>
       a_frame p' = a_frame p \<and> a_material p' = a_material p)"
proof -
  have kb: "0 \<le> int k * b" and e: "int (Suc k) * b = int k * b + b"
    using assms(4) by (simp_all add: algebra_simps)
  have "\<bar>a - int (Suc k) * b\<bar> \<le> 2 ^ 24" unfolding e using assms(3-5,8) kb by linarith
  then have "flt E (of_int (a - int (Suc k) * b) / 2 ^ m) = of_int (a - int (Suc k) * b) / 2 ^ m"
    using float_unit.rnd_dyadic [OF assms(1)] assms(6) by blast
  moreover have "of_int (a - int k * b) / 2 ^ m - of_int b / 2 ^ m = (of_int (a - int (Suc k) * b) / 2 ^ m :: real)"
    by (simp add: diff_divide_distrib algebra_simps add_divide_distrib)
  ultimately have t: "flt E (of_int (a - int k * b) / 2 ^ m - of_int b / 2 ^ m) = of_int (a - int (Suc k) * b) / 2 ^ m"
    by (simp only:)
  have "0 < (of_int (a - int (Suc k) * b) / 2 ^ m :: real) \<longleftrightarrow> int (Suc k) * b < a"
    unfolding zero_less_divide_iff of_int_0_less_iff by simp
  also have "\<dots> \<longleftrightarrow> Suc k \<noteq> frames_per_image a b"
    using last_frame(2) [OF assms(4,2,8)] by linarith
  finally have pos: "0 < (of_int (a - int (Suc k) * b) / 2 ^ m :: real) \<longleftrightarrow> Suc k \<noteq> frames_per_image a b" .
  define T where "T = (of_int (a - int (Suc k) * b) / 2 ^ m :: real)"
  note t = t [folded T_def] and pos = pos [folded T_def]
  show ?thesis
  proof (cases "Suc k = frames_per_image a b")
    case True
    then have "\<not> 0 < T" using pos by simp
    then show ?thesis unfolding T_def [symmetric]
      using True by (simp add: ap_update_def assms(7,9,10) t Let_def ap_next_def del: of_int_diff of_int_mult)
  next
    case False
    then have "0 < T" using pos by simp
    moreover have "int (Suc k) * b < a" using False last_frame(2) [OF assms(4,2,8)] by linarith
    ultimately show ?thesis unfolding T_def [symmetric]
      using False by (simp add: ap_update_def assms(7,9,10) t Let_def del: of_nat_Suc of_int_diff of_int_mult)
  qed
qed

text \<open>A running poster: the phase and the frame of the \<open>periodic\<close> contract.\<close>

lemma ap_periodic:
  assumes "float_unit (flt E)" "0 < a" "a \<le> 2 ^ 24" "0 < b" "b \<le> 2 ^ 24" "m \<le> 149"
  shows "periodic (\<lambda>p. ap_running loaded a b m p \<and> a_count p = c) (ap_update E loaded (of_int b / 2 ^ m))
    (ap_phase a b m) a_frame (ap_next c) (frames_per_image a b)"
proof
  show "0 < frames_per_image a b" by (simp add: frames_per_image_def)
  fix p assume "ap_running loaded a b m p \<and> a_count p = c"
  then obtain k mat where k: "a_speed p = Some (of_int a / 2 ^ m)" "int k * b < a"
    "a_timer p = Some (of_int (a - int k * b) / 2 ^ m)" "a_material p = Some mat" "a_count p = c"
    "map_option mt_texture (a_material p) =
       Some (if loaded (ap_texture (a_path p) (a_frame p)) then Some (ap_texture (a_path p) (a_frame p)) else None)"
    by (auto simp: ap_running_def)
  let ?p = "ap_update E loaded (of_int b / 2 ^ m) p"
  note st = ap_step [OF assms k(1-4), of loaded]
  have ph: "ap_phase a b m p = k" using ap_phase_eq [OF k(3) assms(4)] .
  then show "ap_phase a b m p < frames_per_image a b" using last_frame(1) [OF assms(4,2) k(2)] by simp
  show "ap_running loaded a b m ?p \<and> a_count ?p = c"
  proof (cases "Suc k = frames_per_image a b")
    case True
    then show ?thesis using st k(1,5) assms(2) unfolding ap_running_def by (auto intro: exI [of _ 0])
  next
    case False
    then show ?thesis using st k(1,5,6) unfolding ap_running_def by (auto intro!: exI [of _ "Suc k"])
  qed
  show "ap_phase a b m ?p = Suc (ap_phase a b m p) mod frames_per_image a b"
  proof (cases "Suc k = frames_per_image a b")
    case True
    then show ?thesis using st ph ap_phase_eq [of ?p a 0 b m] assms(4) by simp
  next
    case False
    then show ?thesis using st ph ap_phase_eq [of ?p a "Suc k" b m] assms(4) last_frame(1) [OF assms(4,2) k(2)]
      by (simp del: of_nat_Suc)
  qed
  show "a_frame ?p = (if Suc (ap_phase a b m p) = frames_per_image a b then ap_next c (a_frame p) else a_frame p)"
    using st ph k(5) by (cases "Suc k = frames_per_image a b") auto
qed

interpretation film: periodic "\<lambda>p. ap_running (\<lambda>_. True) 64 1 6 p \<and> a_count p = 4"
  "ap_update engine32 (\<lambda>_. True) (of_int 1 / 2 ^ 6)" "ap_phase 64 1 6" a_frame "ap_next 4" "frames_per_image 64 1"
  by (rule ap_periodic) (simp_all add: binary32.float_unit_axioms)

lemma ap_update_frame [frame_simps]:
  "a_path (ap_update E loaded dt p) = a_path p" "a_count (ap_update E loaded dt p) = a_count p"
  by (simp_all add: ap_update_def Let_def split: option.split)

lemma ap_updates_frame [frame_simps]:
  "a_path ((ap_update E loaded dt ^^ n) p) = a_path p"
  by (induction n) (simp_all add: frame_simps)

section \<open>Properties\<close>

text \<open>An animated poster with \<open>c\<close> images shows them in a cycle: its first update shows
  image 2 (image 1 again if there is only one), and from then on the image changes every
  \<open>(a - 1) div b + 1\<close> frames, the duration of an image over that of a frame, rounded up, for
  images of \<open>a / 2^m\<close> seconds and frames of \<open>b / 2^m\<close>. The texture is always that of the current
  frame, a file numbered from 1 to \<open>c\<close>.\<close>

theorem animated_poster_cycle:
  assumes "float_unit (flt E)" "0 < a" "a \<le> 2 ^ 24" "0 < b" "b \<le> 2 ^ 24" "m \<le> 149" "0 < c"
    and "a_count p = c" "a_speed p = Some (of_int a / 2 ^ m)" "a_timer p = Some 0" "a_frame p = 0" "a_material p \<noteq> None"
  shows "case (ap_update E loaded (of_int b / 2 ^ m) ^^ Suc n) p of q \<Rightarrow>
    a_frame q = (1 + int (n div frames_per_image a b)) mod c \<and>
    map_option mt_texture (a_material q) =
      Some (if loaded (ap_texture (a_path p) (a_frame q)) then Some (ap_texture (a_path p) (a_frame q)) else None)"
proof -
  let ?u = "ap_update E loaded (of_int b / 2 ^ m)"
  obtain mat where m: "a_material p = Some mat" using assms(12) by blast
  have "flt E (0 - of_int b / 2 ^ m) \<le> 0"
    using float_unit.rnd_nonpos [OF assms(1)] assms(4) by simp
  then have t: "\<not> 0 < flt E (- (of_int b / 2 ^ m))" by simp
  have p1: "ap_running loaded a b m (?u p)" "a_count (?u p) = c" "a_frame (?u p) = ap_next c 0" "a_path (?u p) = a_path p"
    "a_timer (?u p) = Some (of_int (a - int 0 * b) / 2 ^ m)"
    using assms(2,8-11) m t unfolding ap_running_def
    by (simp_all add: ap_update_def Let_def ap_next_def exI [of _ 0])
  have ph: "ap_phase a b m (?u p) = 0" by (rule ap_phase_eq [OF p1(5) assms(4)])
  let ?q = "(?u ^^ n) (?u p)"
  have q: "ap_running loaded a b m ?q" "a_frame ?q = (ap_next c ^^ (n div frames_per_image a b)) (ap_next c 0)"
    using periodic.schedule [OF ap_periodic [OF assms(1-6)], of loaded "?u p" c n] p1 ph by auto
  have one: "ap_next c 0 = 1 mod c" using assms(7) by (auto simp: ap_next_def)
  have "a_frame ?q = (1 mod c + int (n div frames_per_image a b)) mod c"
    unfolding q(2) one by (rule ap_next_pow) (use assms(7) in auto)
  then have fq: "a_frame ?q = (1 + int (n div frames_per_image a b)) mod c" by (simp add: mod_simps)
  have path: "a_path ?q = a_path p" by (simp add: frame_simps)
  have mq: "map_option mt_texture (a_material ?q) = Some (if loaded (ap_texture (a_path p) (a_frame ?q))
      then Some (ap_texture (a_path p) (a_frame ?q)) else None)"
    using q(1) unfolding ap_running_def path by blast
  have "(?u ^^ Suc n) p = ?q" by (simp only: funpow_Suc_right o_apply)
  then show ?thesis by (simp only: fq mq)
qed

definition poster0 :: animated_poster where
  "poster0 = \<lparr>a_speed = Some (1 / 4), a_count = 4, a_path = ''TV'', a_timer = Some 0, a_frame = 0,
     a_material = Some \<lparr>mt_texture = None, mt_bias = 0\<rparr>, a_model = None, a_removed = False\<rparr>"

lemma poster0_sel [simp]:
  "a_speed poster0 = Some (1 / 4)" "a_count poster0 = 4" "a_path poster0 = ''TV''" "a_timer poster0 = Some 0"
  "a_frame poster0 = 0" "a_material poster0 = Some \<lparr>mt_texture = None, mt_bias = 0\<rparr>"
  by (simp_all add: poster0_def)

theorem animated_poster_cycle_witness:
  "a_frame ((ap_update engine32 (\<lambda>_. True) (1 / 64) ^^ 49) poster0) = 0 \<and>
   map_option mt_texture (a_material ((ap_update engine32 (\<lambda>_. True) (1 / 64) ^^ 49) poster0)) = Some (Some ''Textures/TV/1.png'')"
proof -
  have "float_unit (flt engine32)" by (simp add: binary32.float_unit_axioms)
  note c = animated_poster_cycle [OF this, where a = 16 and b = 1 and m = 6 and c = 4 and p = poster0
      and loaded = "\<lambda>_. True" and n = 48]
  have f: "a_frame ((ap_update engine32 (\<lambda>_. True) (1 / 64) ^^ 49) poster0) = 0"
    using c by (simp add: frames_per_image_def del: funpow.simps)
  then show ?thesis
    using c by (simp add: f frames_per_image_def ap_texture_def show_int_def show_nat.simps digits
        del: funpow.simps)
qed

end
