(* ===== verification/AudioQueue.thy ===== *)
theory AudioQueue
  imports Engine
begin

text \<open>
  Voice clips (\<open>src/AudioManager.cpp\<close>, \<open>src/AudioZone.cpp\<close>). The manager plays one clip
  at a time from the back of a queue; an entry with no sound ends the level. Zones and bosses
  hand it queues: \<open>audio_queue\<close> is the interface they rely on.
\<close>

section \<open>The manager\<close>

text \<open>A \<open>Sound *\<close> is the name of the resource, \<open>None\<close> when null: \<open>GetResource\<close> of a
  missing file is null as well.\<close>

record audio_entry =
  ae_sound :: "string option"
  ae_delay :: real

record audio_manager =
  am_queue :: "audio_entry list"

definition am_new :: audio_manager where
  "am_new = \<lparr>am_queue = []\<rparr>"

definition am_play :: "audio_entry list \<Rightarrow> bool \<Rightarrow> audio_manager \<Rightarrow> audio_manager" where
  "am_play sounds q s = s\<lparr>am_queue := v_insert0 sounds (if \<not> q then [] else am_queue s)\<rparr>"

text \<open>\<open>playing\<close> is \<open>source_->IsPlaying()\<close>. The delay is decremented in place, through the
  reference \<open>next\<close>.\<close>

definition am_scene_update :: "urho \<Rightarrow> real \<Rightarrow> bool \<Rightarrow> audio_manager \<Rightarrow> audio_manager \<times> effect list" where
  "am_scene_update E dt playing s =
     (if playing then (s, [])
      else (case v_back (am_queue s) of
          None \<Rightarrow> (s, [])
        | Some next \<Rightarrow>
            if 0 < ae_delay next
            then (s\<lparr>am_queue := v_push (v_pop (am_queue s)) (next\<lparr>ae_delay := fsub E (ae_delay next) dt\<rparr>)\<rparr>, [])
            else (s\<lparr>am_queue := v_pop (am_queue s)\<rparr>,
                  case ae_sound next of Some n \<Rightarrow> [Play_Sound n] | None \<Rightarrow> [End_Level False False])))"

section \<open>Zones\<close>

record audio_zone =
  az_queue :: "audio_entry list"
  az_removed :: bool

definition az_new :: audio_zone where
  "az_new = \<lparr>az_queue = [], az_removed = False\<rparr>"

definition az_enqueue :: "string option \<Rightarrow> real \<Rightarrow> audio_zone \<Rightarrow> audio_zone" where
  "az_enqueue clip d z = z\<lparr>az_queue := v_insert0 [\<lparr>ae_sound = clip, ae_delay = d\<rparr>] (az_queue z)\<rparr>"

definition az_collision :: "scene \<Rightarrow> node \<Rightarrow> audio_zone \<Rightarrow> audio_manager \<Rightarrow> audio_zone \<times> audio_manager" where
  "az_collision sc other z am =
     (if other \<noteq> person_node sc then (z, am)
      else (z\<lparr>az_removed := True\<rparr>, am_play (az_queue z) False am))"

section \<open>The queue as an interface\<close>

text \<open>What an entry does when its turn comes.\<close>

definition emit :: "audio_entry \<Rightarrow> effect" where
  "emit e = (case ae_sound e of Some n \<Rightarrow> Play_Sound n | None \<Rightarrow> End_Level False False)"

lemma emit_delay [simp]: "emit (e\<lparr>ae_delay := d\<rparr>) = emit e"
  by (simp add: emit_def)

locale audio_queue =
  fixes play :: "audio_entry list \<Rightarrow> bool \<Rightarrow> 's \<Rightarrow> 's"
    and tick :: "real \<Rightarrow> bool \<Rightarrow> 's \<Rightarrow> 's \<times> effect list"
    and pending :: "'s \<Rightarrow> audio_entry list"
  assumes pending_play: "pending (play xs q s) = (if q then pending s else []) @ rev xs"
    and tick_playing: "tick dt True s = (s, [])"
    and tick_empty: "pending s = [] \<Longrightarrow> tick dt p s = (s, [])"
    and tick_wait: "pending s = e # es \<Longrightarrow> 0 < ae_delay e \<Longrightarrow>
      snd (tick dt False s) = [] \<and> (\<exists>d. pending (fst (tick dt False s)) = e\<lparr>ae_delay := d\<rparr> # es)"
    and tick_ready: "pending s = e # es \<Longrightarrow> \<not> 0 < ae_delay e \<Longrightarrow>
      snd (tick dt False s) = [emit e] \<and> pending (fst (tick dt False s)) = es"
begin

fun ticks :: "(real \<times> bool) list \<Rightarrow> 's \<Rightarrow> 's \<times> effect list" where
  "ticks [] s = (s, [])"
| "ticks ((dt, p) # ts) s =
     (case tick dt p s of (s1, es) \<Rightarrow> case ticks ts s1 of (s2, fs) \<Rightarrow> (s2, es @ fs))"

text \<open>What has been emitted and what is still pending is, at every moment, the queue.\<close>

lemma tick_conserves:
  "snd (tick dt p s) @ map emit (pending (fst (tick dt p s))) = map emit (pending s)"
proof (cases "p \<or> pending s = []")
  case True
  then show ?thesis using tick_playing tick_empty by (cases p) auto
next
  case False
  then obtain e es where "pending s = e # es" by (cases "pending s") auto
  then show ?thesis
    using False tick_wait [of s e es dt] tick_ready [of s e es dt] by (cases "0 < ae_delay e") auto
qed

lemma ticks_conserve:
  "snd (ticks ts s) @ map emit (pending (fst (ticks ts s))) = map emit (pending s)"
proof (induction ts arbitrary: s)
  case (Cons t ts)
  obtain dt p where t: "t = (dt, p)" by (cases t)
  show ?case
    using Cons.IH [of "fst (tick dt p s)"] tick_conserves [of dt p s]
    by (simp add: t case_prod_beta)
qed simp

lemma ticks_silent:
  assumes "list_all (\<lambda>e. \<not> 0 < ae_delay e) (pending s)" "length (pending s) \<le> n"
  shows "snd (ticks (replicate n (dt, False)) s) = map emit (pending s)"
  using assms
proof (induction n arbitrary: s)
  case (Suc n)
  show ?case
  proof (cases "pending s")
    case Nil
    then show ?thesis using Suc.IH [of s] by (simp add: tick_empty case_prod_beta)
  next
    case (Cons e es)
    then show ?thesis
      using Suc.IH [of "fst (tick dt False s)"] Suc.prems tick_ready [OF Cons, of dt]
      by (simp add: case_prod_beta)
  qed
qed simp

end

lemma rev_split: "rev xs = e # es \<longleftrightarrow> xs = rev es @ [e]"
  by (metis rev.simps(2) rev_rev_ident)

interpretation am: audio_queue am_play "am_scene_update E" "\<lambda>s. rev (am_queue s)" for E
  by unfold_locales
    (auto simp: am_play_def v_insert0_def am_scene_update_def rev_split emit_def v_push_def
      split: option.split)

section \<open>Properties\<close>

text \<open>The zones of a room are filled in document order, the clips of a zone one after the other.\<close>

definition az_load :: "(string option \<times> real) list \<Rightarrow> audio_zone" where
  "az_load cs = foldl (\<lambda>z (clip, d). az_enqueue clip d z) az_new cs"

lemma az_load_queue: "az_queue (az_load cs) = rev (map (\<lambda>(s, d). \<lparr>ae_sound = s, ae_delay = d\<rparr>) cs)"
proof -
  have "az_queue (foldl (\<lambda>z (clip, d). az_enqueue clip d z) z cs) =
      rev (map (\<lambda>(s, d). \<lparr>ae_sound = s, ae_delay = d\<rparr>) cs) @ az_queue z" for z
    by (induction cs arbitrary: z) (auto simp: az_enqueue_def v_insert0_def)
  then show ?thesis by (simp add: az_load_def az_new_def)
qed

text \<open>C23. A zone plays its clips in the order in which the room file lists them: when the
  person enters the zone, whatever the manager was doing, then after any number of frames the
  clips started so far followed by the clips still queued are exactly the zone's clips, in
  document order. The zone is removed, so it plays only once.\<close>

theorem audio_zone_order:
  "case az_collision sc (person_node sc) (az_load cs) m of (z, m1) \<Rightarrow>
     az_removed z \<and>
     snd (am.ticks E ts m1) @ map emit (rev (am_queue (fst (am.ticks E ts m1)))) =
     map (\<lambda>(s, d). emit \<lparr>ae_sound = s, ae_delay = d\<rparr>) cs"
  by (simp add: az_collision_def am.ticks_conserve am_play_def v_insert0_def az_load_queue
      case_prod_beta' comp_def)

text \<open>A queue whose delays have run out is played to its end, one entry per frame in
  which the source is silent: after as many such frames as the queue has entries every clip has
  been started, in order, and a null entry has ended the level.\<close>

theorem audio_queue_drains:
  assumes "list_all (\<lambda>e. ae_delay e \<le> 0) q" "length q \<le> n"
  shows "snd (am.ticks E (replicate n (dt, False)) (am_play q False m)) = map emit (rev q)"
  using am.ticks_silent [of "am_play q False m" n E dt] assms
  by (simp add: am_play_def v_insert0_def not_less list_all_iff)

theorem audio_queue_drains_witness:
  "snd (am.ticks engine32 (replicate 3 (1, False)) (am_play
      [\<lparr>ae_sound = None, ae_delay = 0\<rparr>, \<lparr>ae_sound = Some ''29_Mav'', ae_delay = 0\<rparr>] False am_new)) =
   [Play_Sound ''29_Mav'', End_Level False False]"
  using audio_queue_drains [of "[\<lparr>ae_sound = None, ae_delay = 0\<rparr>, \<lparr>ae_sound = Some ''29_Mav'', ae_delay = 0\<rparr>]"
      3 engine32 1 am_new]
  by (simp add: emit_def del: am.ticks.simps)

end
