(* ===== verification/SceneTree.thy ===== *)
theory SceneTree
  imports AudioQueue
begin

text \<open>
  Scenes as the loader builds them: trees of nodes with components, whose settings are kept by
  name (\<open>SetMass(100.0f)\<close> is \<open>(''Mass'', A_real 100)\<close>). The engine's defaults, which the source
  does not write, are left out. A resource is the name of its file, null when the cache does not
  find the file.
\<close>

section \<open>Trees\<close>

datatype attr =
    A_real real
  | A_int int
  | A_bool bool
  | A_str string
  | A_vec vec3
  | A_color color
  | A_res "string option"
  | A_xml xml
  | A_path "vec3 list"
  | A_zone audio_zone

datatype comp = Comp (cp_type: string) (cp_attrs: "(string \<times> attr) list")

datatype snode =
  SNode (sn_name: string) (sn_pos: vec3) (sn_rot: quat) (sn_scale: vec3) (sn_enabled: bool)
    (sn_vars: "(string \<times> attr) list") (sn_comps: "comp list") (sn_children: "snode list")

definition q_IDENTITY :: quat where
  "q_IDENTITY = \<lparr>qw = 1, qx = 0, qy = 0, qz = 0\<rparr>"

text \<open>A node as \<open>CreateChild\<close> makes it, with its position, rotation, components and children;
  \<open>SetScale\<close>, \<open>SetVar\<close> and \<open>SetEnabled\<close> apart.\<close>

definition mk_node :: "string \<Rightarrow> vec3 \<Rightarrow> quat \<Rightarrow> comp list \<Rightarrow> snode list \<Rightarrow> snode" where
  "mk_node n p r cs ch = SNode n p r (V3 1 1 1) True [] cs ch"

definition set_scale :: "vec3 \<Rightarrow> snode \<Rightarrow> snode" where
  "set_scale s n = SNode (sn_name n) (sn_pos n) (sn_rot n) s (sn_enabled n) (sn_vars n) (sn_comps n) (sn_children n)"

definition set_pos :: "vec3 \<Rightarrow> snode \<Rightarrow> snode" where
  "set_pos p n = SNode (sn_name n) p (sn_rot n) (sn_scale n) (sn_enabled n) (sn_vars n) (sn_comps n) (sn_children n)"

definition set_rot :: "quat \<Rightarrow> snode \<Rightarrow> snode" where
  "set_rot r n = SNode (sn_name n) (sn_pos n) r (sn_scale n) (sn_enabled n) (sn_vars n) (sn_comps n) (sn_children n)"

definition set_vars :: "(string \<times> attr) list \<Rightarrow> snode \<Rightarrow> snode" where
  "set_vars vs n = SNode (sn_name n) (sn_pos n) (sn_rot n) (sn_scale n) (sn_enabled n) vs (sn_comps n) (sn_children n)"

definition set_comps :: "comp list \<Rightarrow> snode \<Rightarrow> snode" where
  "set_comps cs n = SNode (sn_name n) (sn_pos n) (sn_rot n) (sn_scale n) (sn_enabled n) (sn_vars n) cs (sn_children n)"

definition disabled :: "snode \<Rightarrow> snode" where
  "disabled n = SNode (sn_name n) (sn_pos n) (sn_rot n) (sn_scale n) False (sn_vars n) (sn_comps n) (sn_children n)"

text \<open>\<open>SetDirection\<close>.\<close>

definition dir_rot :: "urho \<Rightarrow> vec3 \<Rightarrow> quat" where
  "dir_rot E d = q_between E vec_FORWARD d"

lemma mk_node_sel [simp]:
  "sn_name (mk_node n p r cs ch) = n" "sn_pos (mk_node n p r cs ch) = p" "sn_rot (mk_node n p r cs ch) = r"
  "sn_comps (mk_node n p r cs ch) = cs" "sn_children (mk_node n p r cs ch) = ch"
  by (simp_all add: mk_node_def)

lemma set_sel [simp]:
  "sn_name (set_scale s x) = sn_name x" "sn_pos (set_scale s x) = sn_pos x" "sn_rot (set_scale s x) = sn_rot x"
  "sn_scale (set_scale s x) = s" "sn_comps (set_scale s x) = sn_comps x" "sn_children (set_scale s x) = sn_children x"
  "sn_name (set_pos p x) = sn_name x" "sn_pos (set_pos p x) = p" "sn_rot (set_pos p x) = sn_rot x"
  "sn_scale (set_pos p x) = sn_scale x" "sn_comps (set_pos p x) = sn_comps x" "sn_children (set_pos p x) = sn_children x"
  "sn_name (set_rot r x) = sn_name x" "sn_pos (set_rot r x) = sn_pos x" "sn_rot (set_rot r x) = r"
  "sn_scale (set_rot r x) = sn_scale x" "sn_comps (set_rot r x) = sn_comps x" "sn_children (set_rot r x) = sn_children x"
  "sn_name (set_vars v x) = sn_name x" "sn_pos (set_vars v x) = sn_pos x" "sn_vars (set_vars v x) = v"
  "sn_comps (set_vars v x) = sn_comps x" "sn_children (set_vars v x) = sn_children x"
  "sn_name (set_comps cs x) = sn_name x" "sn_pos (set_comps cs x) = sn_pos x" "sn_comps (set_comps cs x) = cs"
  "sn_rot (set_comps cs x) = sn_rot x" "sn_scale (set_comps cs x) = sn_scale x" "sn_children (set_comps cs x) = sn_children x"
  "sn_name (disabled x) = sn_name x" "sn_comps (disabled x) = sn_comps x" "sn_children (disabled x) = sn_children x"
  by (simp_all add: set_scale_def set_pos_def set_rot_def set_vars_def set_comps_def disabled_def)

section \<open>Looking things up\<close>

text \<open>\<open>GetChild(name)\<close> of the scene, and \<open>GetChildrenWithComponent\<close>, which searches the whole
  tree.\<close>

definition get_child :: "string \<Rightarrow> snode list \<Rightarrow> snode option" where
  "get_child n ns = find (\<lambda>x. sn_name x = n) ns"

primrec all_nodes :: "snode \<Rightarrow> snode list" where
  "all_nodes (SNode n p r s e vs cs ch) = SNode n p r s e vs cs ch # concat (map all_nodes ch)"

definition has_comp :: "string \<Rightarrow> snode \<Rightarrow> bool" where
  "has_comp c x = list_ex (\<lambda>k. cp_type k = c) (sn_comps x)"

definition with_comp :: "string \<Rightarrow> snode list \<Rightarrow> snode list" where
  "with_comp c ns = filter (has_comp c) (concat (map all_nodes ns))"

section \<open>Resources\<close>

record pixel =
  px_r :: real
  px_g :: real
  px_b :: real
  px_a :: real

abbreviation "px_BLACK \<equiv> \<lparr>px_r = 0, px_g = 0, px_b = 0, px_a = 1\<rparr>"
abbreviation "px_WHITE \<equiv> \<lparr>px_r = 1, px_g = 1, px_b = 1, px_a = 1\<rparr>"
abbreviation "px_RED \<equiv> \<lparr>px_r = 1, px_g = 0, px_b = 0, px_a = 1\<rparr>"
abbreviation "px_GREEN \<equiv> \<lparr>px_r = 0, px_g = 1, px_b = 0, px_a = 1\<rparr>"
abbreviation "px_BLUE \<equiv> \<lparr>px_r = 0, px_g = 0, px_b = 1, px_a = 1\<rparr>"

record image =
  im_w :: nat
  im_h :: nat
  im_px :: "nat \<Rightarrow> nat \<Rightarrow> pixel"

text \<open>\<open>rs_bounds\<close>: size and centre of a model's bounding box; \<open>rs_component\<close>: the component
  classes that the engine itself registers.\<close>

record resources =
  rs_image :: "string \<Rightarrow> image option"
  rs_xml :: "string \<Rightarrow> xml option"
  rs_loaded :: "string \<Rightarrow> bool"
  rs_bounds :: "string option \<Rightarrow> vec3 \<times> vec3"
  rs_component :: "string \<Rightarrow> bool"

definition get_resource :: "resources \<Rightarrow> string \<Rightarrow> string option" where
  "get_resource rs n = (if rs_loaded rs n then Some n else None)"

text \<open>The names of rooms, \<open>ToString("%dx%d", x + 1, y + 1)\<close>.\<close>

definition room_name :: "int \<Rightarrow> int \<Rightarrow> string" where
  "room_name x y = show_int x @ ''x'' @ show_int y"

lemma digit_not_x: "d < 10 \<Longrightarrow> digit d \<noteq> CHR ''x''"
proof
  assume "d < 10" "digit d = CHR ''x''"
  then have "of_char (digit d) = (of_char (CHR ''x'') :: nat)" by simp
  then show False using \<open>d < 10\<close> by (simp add: digit_def)
qed

lemma show_nat_no_x: "CHR ''x'' \<notin> set (show_nat n)"
proof
  assume "CHR ''x'' \<in> set (show_nat n)"
  then obtain d where "d < 10" "CHR ''x'' = digit d" using show_nat_digits [of n] by auto
  then show False using digit_not_x by metis
qed

lemma show_int_no_x: "CHR ''x'' \<notin> set (show_int i)"
  using show_nat_no_x by (simp add: show_int_def)

lemma room_name_inj: "room_name x y = room_name x' y' \<longleftrightarrow> x = x' \<and> y = y'"
proof
  assume e: "room_name x y = room_name x' y'"
  have split: "takeWhile (\<lambda>c. c \<noteq> CHR ''x'') (room_name a b) = show_int a" for a b
    unfolding room_name_def using show_int_no_x [of a] by (subst takeWhile_append2) auto
  have "show_int x = show_int x'" using e split by metis
  moreover have "show_int y = show_int y'" using e calculation by (simp add: room_name_def)
  ultimately show "x = x' \<and> y = y'" by (simp add: show_int_inj)
qed simp

lemma room_name_neq [simp]: "room_name x y \<noteq> []"
  by (simp add: room_name_def)

end
