(* ===== verification/Level.thy ===== *)
theory Level
  imports SceneTree "HOL-Library.Product_Lexorder"
begin

text \<open>
  Building a level (\<open>Game::LoadLevel\<close> in \<open>src/Game.cpp\<close>): the floor plan is an image whose
  pixels are rooms and walls, a room's contents are an XML file. The result is the scene: its own
  components and its nodes, in the order in which the code creates them, and what the loader
  logs. The positions of a room's contents relative to the room are those relative to its
  contents node, which has the room's transform.
\<close>

section \<open>Component classes\<close>

text \<open>The classes \<open>Game::Start\<close> registers (with those that \<open>Person\<close> and \<open>Thrower\<close> register),
  and those of them that derive from \<open>InteractableComponent\<close>.\<close>

definition registered :: "string list" where
  "registered = [''AnimatedPoster'', ''AudioManager'', ''AudioZone'', ''BossLaser'', ''CameraController'', ''Door'',
     ''Guard'', ''InteractableComponent'', ''InteractablePoster'', ''Inventory'', ''Laser'', ''MrWright'', ''BossBertha'',
     ''Padlock'', ''Person'', ''ClickMarker'', ''Pickup'', ''SecurityCamera'', ''Stairs'', ''Terminal'', ''Thrower'',
     ''SelfDestroy'', ''TutorialPoster'', ''Wife'']"

definition interactable :: "string list" where
  "interactable = [''AnimatedPoster'', ''BossLaser'', ''InteractableComponent'', ''InteractablePoster'', ''Laser'',
     ''MrWright'', ''BossBertha'', ''Padlock'', ''Pickup'', ''SecurityCamera'', ''Stairs'', ''Terminal'', ''TutorialPoster'',
     ''Wife'']"

section \<open>The level's and the rooms' settings\<close>

record level_style =
  ls_lights :: bool
  ls_floor :: "string option"
  ls_walls :: "string option"
  ls_doors :: "string option"

definition material_res :: "resources \<Rightarrow> string \<Rightarrow> string option" where
  "material_res rs n = get_resource rs (''Materials/'' @ n @ ''.xml'')"

definition level_style :: "urho \<Rightarrow> resources \<Rightarrow> xml option \<Rightarrow> level_style" where
  "level_style E rs levelXml =
     (let grey = material_res rs ''FlatGrey'';
          d = \<lparr>ls_lights = True, ls_floor = grey, ls_walls = grey, ls_doors = grey\<rparr>
      in case levelXml of
           None \<Rightarrow> d
         | Some r \<Rightarrow>
             (let d1 = (if has_attr r ''lights'' then d\<lparr>ls_lights := parse_bool E (get_attr r ''lights'')\<rparr> else d);
                  d2 = (if has_attr r ''floor'' then d1\<lparr>ls_floor := material_res rs (get_attr r ''floor'')\<rparr> else d1);
                  d3 = (if has_attr r ''walls'' then d2\<lparr>ls_walls := material_res rs (get_attr r ''walls'')\<rparr> else d2)
              in d3\<lparr>ls_doors := (if has_attr r ''doors'' then material_res rs (get_attr r ''doors'') else ls_walls d3)\<rparr>))"

record room_style =
  ro_lights :: bool
  ro_floor :: "string option"
  ro_name :: string

definition room_style :: "urho \<Rightarrow> resources \<Rightarrow> level_style \<Rightarrow> xml option \<Rightarrow> room_style" where
  "room_style E rs ls roomXml =
     (let d = \<lparr>ro_lights = ls_lights ls, ro_floor = ls_floor ls, ro_name = []\<rparr>
      in case roomXml of
           None \<Rightarrow> d
         | Some r \<Rightarrow>
             (let d1 = (if has_attr r ''lights'' then d\<lparr>ro_lights := parse_bool E (get_attr r ''lights'')\<rparr> else d);
                  d2 = (if has_attr r ''floor'' then d1\<lparr>ro_floor := material_res rs (get_attr r ''floor'')\<rparr> else d1)
              in d2\<lparr>ro_name := get_attr r ''name''\<rparr>))"

section \<open>Objects\<close>

definition object_scale :: "urho \<Rightarrow> xml \<Rightarrow> vec3" where
  "object_scale E x =
     (if has_attr x ''scale''
      then (let strScale = get_attr x ''scale''; vecScale = parse_vec3 E strScale
            in if vecScale \<noteq> vec_ZERO then vecScale
               else V3 (parse_float E strScale) (parse_float E strScale) (parse_float E strScale))
      else V3 1 1 1)"

text \<open>The interaction component: created by its class name, which must be known, and loaded from
  the element if it is an \<open>InteractableComponent\<close>.\<close>

definition interaction_comp :: "resources \<Rightarrow> xml \<Rightarrow> comp list \<times> effect list" where
  "interaction_comp rs x =
     (let cls = get_attr x ''interaction'' in
      if cls \<in> set registered \<or> rs_component rs cls
      then (if cls \<in> set interactable then ([Comp cls [(''LoadFromXML'', A_xml x)]], [])
            else ([Comp cls []], [Log_Warning (''Component '' @ cls @ '' doesn't inherit from InteractableComponent'')]))
      else ([], [Log_Error (''Failed to create interaction component: '' @ cls)]))"

definition load_object :: "urho \<Rightarrow> resources \<Rightarrow> xml \<Rightarrow> snode \<times> effect list" where
  "load_object E rs x =
     (let angles = parse_vec3 E (get_attr x ''angles'');
          model = get_resource rs (''Models/'' @ get_attr x ''model'' @ ''.mdl'');
          solid = \<not> parse_bool E (get_attr x ''nonsolid'');
          static = Comp ''StaticModel'' [(''Model'', A_res model), (''Material'', A_res (material_res rs (get_attr x ''material''))),
            (''CastShadows'', A_bool True), (''ViewMask'', A_int 2)];
          body = (if has_attr x ''interaction'' \<or> solid
                  then [Comp ''RigidBody'' [(''Restitution'', A_real (1 / 2))],
                        Comp ''CollisionShape'' [(''Box'', A_vec (fst (rs_bounds rs model))), (''Offset'', A_vec (snd (rs_bounds rs model)))]]
                  else []);
          (extra, msgs) = (if has_attr x ''interaction'' then interaction_comp rs x
                          else if solid then ([Comp ''Navigable'' []], []) else ([], []))
      in (set_scale (object_scale E x)
            (mk_node [] (parse_vec3 E (get_attr x ''position'')) (q_euler E (vx angles) (vy angles) (vz angles))
               (static # body @ extra) []),
          msgs))"

section \<open>Guards\<close>

definition guard_waypoints :: "urho \<Rightarrow> vec3 \<Rightarrow> xml \<Rightarrow> vec3 list" where
  "guard_waypoints E base x =
     map (\<lambda>w. vec_add E base (parse_vec3 E (get_attr w ''position''))) (children_named ''waypoint'' x)"

text \<open>The spotlight that guards and the player carry; 75 and 5 are \<open>Guard::VIEW_ANGLE\<close> and
  \<open>Guard::VIEW_DISTANCE\<close>.\<close>

definition search_light :: "urho \<Rightarrow> resources \<Rightarrow> snode" where
  "search_light E rs =
     mk_node ''SearchLight'' (V3 0 (flt E (13 / 10)) 0) (q_axis E 30 vec_RIGHT)
       [Comp ''Light'' [(''LightType'', A_str ''LIGHT_SPOT''), (''RampTexture'', A_res (get_resource rs ''Textures/RampExtreme.png'')),
          (''ShapeTexture'', A_res (get_resource rs ''Textures/SpotHard.png'')), (''Brightness'', A_real (flt E (1 / 5))),
          (''Color'', A_color WHITE), (''CastShadows'', A_bool True), (''Fov'', A_real 75), (''Range'', A_real 5),
          (''SpecularIntensity'', A_real 10)]] []"

text \<open>The body of a person: guards and the player.\<close>

definition person_body :: "urho \<Rightarrow> comp list" where
  "person_body E =
     [Comp ''RigidBody'' [(''Mass'', A_real 100), (''Friction'', A_real 0), (''AngularFactor'', A_vec vec_ZERO)],
      Comp ''CollisionShape'' [(''Cylinder'', A_vec (V3 (1 / 2) (flt E (18 / 10)) (1 / 2))),
        (''Offset'', A_vec (V3 0 (fdiv E (flt E (18 / 10)) 2) 0))]]"

definition person_plane :: "resources \<Rightarrow> string \<Rightarrow> comp" where
  "person_plane rs m = Comp ''StaticModel'' [(''Model'', A_res (get_resource rs ''Models/PersonPlane.mdl'')),
     (''Material'', A_res (material_res rs m)), (''CastShadows'', A_bool True), (''ViewMask'', A_int 2)]"

definition guard_node :: "urho \<Rightarrow> resources \<Rightarrow> vec3 \<Rightarrow> vec3 list \<Rightarrow> snode" where
  "guard_node E rs base ws =
     mk_node ''Guard'' (vec_sub E (hd ws) base) q_IDENTITY
       (person_plane rs ''GuardForward'' # person_body E @
        [Comp ''Guard'' [(''Waypoints'', A_path ws)],
         Comp ''SoundSource3D'' [(''NearDistance'', A_real 1), (''FarDistance'', A_real 10), (''RolloffFactor'', A_real 2),
           (''Sound'', A_res (get_resource rs ''Audio/footsteps.wav'')), (''Looped'', A_bool True)]])
       [search_light E rs]"

text \<open>The loop over the \<open>guard\<close> elements. For a guard without waypoints it continues without
  going on to the next element, and so does not end; without the sound of the footsteps, whose
  \<open>SetLooped\<close> is called, it does not go on either.\<close>

definition footsteps :: string where
  "footsteps = ''Audio/footsteps.wav''"

partial_function (option) load_guards :: "urho \<Rightarrow> resources \<Rightarrow> vec3 \<Rightarrow> xml list \<Rightarrow> snode list option" where
  "load_guards E rs base cs =
     (if cs = [] then Some []
      else if guard_waypoints E base (hd cs) = [] then load_guards E rs base cs
      else if \<not> rs_loaded rs footsteps then None
      else Option.bind (load_guards E rs base (tl cs))
             (\<lambda>gs. Some (guard_node E rs base (guard_waypoints E base (hd cs)) # gs)))"

lemma load_guards_Nil [simp]: "load_guards E rs base [] = Some []"
  by (simp add: load_guards.simps)

lemma load_guards_Cons:
  "guard_waypoints E base c \<noteq> [] \<Longrightarrow>
   load_guards E rs base (c # r) =
     (if rs_loaded rs footsteps
      then map_option (\<lambda>gs. guard_node E rs base (guard_waypoints E base c) # gs) (load_guards E rs base r)
      else None)"
  by (subst load_guards.simps) (simp add: map_conv_bind_option comp_def)

text \<open>A call that returns never meets a guard without waypoints.\<close>

lemma load_guards_returns:
  assumes "load_guards E rs base cs = Some gs"
  shows "\<forall>c \<in> set cs. guard_waypoints E base c \<noteq> []"
proof (rule load_guards.raw_induct [where P = "\<lambda>E rs base cs gs. \<forall>c \<in> set cs. guard_waypoints E base c \<noteq> []",
      OF _ assms])
  fix lg E rs base cs gs
  assume IH: "\<And>E rs base cs gs. lg E rs base cs = Some gs \<Longrightarrow> \<forall>c \<in> set cs. guard_waypoints E base c \<noteq> []"
    and *: "(if cs = [] then Some []
      else if guard_waypoints E base (hd cs) = [] then lg E rs base cs
      else if \<not> rs_loaded rs footsteps then None
      else Option.bind (lg E rs base (tl cs))
             (\<lambda>gs. Some (guard_node E rs base (guard_waypoints E base (hd cs)) # gs))) = Some gs"
  show "\<forall>c \<in> set cs. guard_waypoints E base c \<noteq> []"
    using * IH [of E rs base cs gs] IH [of E rs base "tl cs"]
    by (cases cs) (auto split: if_splits simp: Option.bind_eq_Some_conv)
qed

lemma load_guards_total:
  "\<forall>c \<in> set cs. guard_waypoints E base c \<noteq> [] \<Longrightarrow> cs = [] \<or> rs_loaded rs footsteps \<Longrightarrow>
   load_guards E rs base cs = Some (map (\<lambda>c. guard_node E rs base (guard_waypoints E base c)) cs)"
  by (induction cs) (auto simp add: load_guards_Cons)

lemma load_guards_defined:
  "load_guards E rs base cs \<noteq> None \<longleftrightarrow>
   (\<forall>c \<in> set cs. guard_waypoints E base c \<noteq> []) \<and> (cs = [] \<or> rs_loaded rs footsteps)"
proof (cases "\<forall>c \<in> set cs. guard_waypoints E base c \<noteq> []")
  case True
  then show ?thesis
  proof (cases "cs = [] \<or> rs_loaded rs footsteps")
    case False
    then show ?thesis using True by (cases cs) (simp_all add: load_guards_Cons)
  qed (simp add: load_guards_total)
next
  case False
  then have "load_guards E rs base cs = None" using load_guards_returns by (cases "load_guards E rs base cs") blast+
  then show ?thesis using False by simp
qed

section \<open>Audio zones\<close>

definition load_zone :: "urho \<Rightarrow> resources \<Rightarrow> xml \<Rightarrow> snode" where
  "load_zone E rs x =
     (let position = parse_vec2 E (get_attr x ''position'');
          rotation = parse_float E (get_attr x ''rotation'');
          size = parse_vec2 E (get_attr x ''size'');
          clips = map (\<lambda>a. (get_resource rs (''Audio/'' @ xml_value a), parse_float E (get_attr a ''delay'')))
                    (children_named ''audioclip'' x)
      in mk_node ''AudioZone'' (V3 (fst position) 0 (snd position)) (q_euler E 0 rotation 0)
           [Comp ''RigidBody'' [(''Trigger'', A_bool True)],
            Comp ''CollisionShape'' [(''Box'', A_vec (V3 (fst size) 3 (snd size))), (''Offset'', A_vec (V3 0 (3 / 2) 0))],
            Comp ''AudioZone'' [(''Queue'', A_zone (az_load clips))]] [])"

section \<open>Rooms\<close>

definition room_lights :: "urho \<Rightarrow> real \<Rightarrow> (string \<times> attr) list \<Rightarrow> snode list" where
  "room_lights E brightness extra =
     (let h = 3;
          light = mk_node [] (V3 (- 11 / 4) h (- 11 / 4)) (dir_rot E vec_DOWN)
            [Comp ''Light'' ([(''LightType'', A_str ''LIGHT_POINT''), (''Brightness'', A_real brightness), (''Color'', A_color WHITE)] @ extra)] []
      in [light, set_pos (V3 (11 / 4) h (- 11 / 4)) light, set_pos (V3 (- 11 / 4) h (11 / 4)) light,
          set_pos (V3 (11 / 4) h (11 / 4)) light])"

definition room_label :: "urho \<Rightarrow> resources \<Rightarrow> string \<Rightarrow> snode" where
  "room_label E rs n =
     set_scale (V3 3 3 3)
       (mk_node [] (V3 0 (flt E (1 / 10)) 0) (q_axis E 90 vec_RIGHT)
          [Comp ''Text3D'' [(''Text'', A_str n), (''Font'', A_res (get_resource rs ''Fonts/Anonymous Pro.sdf'')),
             (''Color'', A_color WHITE), (''Alignment'', A_str ''HA_CENTER, VA_CENTER''), (''FaceCameraMode'', A_str ''FC_ROTATE_Y'')]] [])"

definition floor_comps :: "resources \<Rightarrow> string option \<Rightarrow> comp list" where
  "floor_comps rs mat =
     [Comp ''Navigable'' [(''Recursive'', A_bool False)],
      Comp ''RigidBody'' [(''Restitution'', A_real (1 / 2))],
      Comp ''CollisionShape'' [(''Box'', A_vec (V3 11 1 11)), (''Offset'', A_vec (V3 0 (- 1 / 2) 0))],
      Comp ''StaticModel'' [(''Model'', A_res (get_resource rs ''Models/Floor.mdl'')), (''Material'', A_res mat), (''ViewMask'', A_int 1)]]"

definition room_position :: "urho \<Rightarrow> nat \<Rightarrow> nat \<Rightarrow> vec3" where
  "room_position E x y = V3 (fmul E (of_nat x) 11) 0 (fmul E (of_nat y) 11)"

definition room_contents :: "urho \<Rightarrow> resources \<Rightarrow> vec3 \<Rightarrow> xml \<Rightarrow> (snode \<times> effect list) option" where
  "room_contents E rs base r =
     (let objects = map (load_object E rs) (children_named ''object'' r) in
      case load_guards E rs base (children_named ''guard'' r) of
        None \<Rightarrow> None
      | Some guards \<Rightarrow>
          Some (mk_node [] vec_ZERO q_IDENTITY []
                  (map fst objects @ guards @ map (load_zone E rs) (children_named ''audiozone'' r)),
                concat (map snd objects)))"

definition room_xml :: "resources \<Rightarrow> int \<Rightarrow> nat \<Rightarrow> nat \<Rightarrow> xml option" where
  "room_xml rs level x y =
     rs_xml rs (''Levels/'' @ show_int (level + 1) @ ''/'' @ room_name (int x + 1) (int y + 1) @ ''.xml'')"

definition load_room ::
  "urho \<Rightarrow> resources \<Rightarrow> bool \<Rightarrow> int \<Rightarrow> level_style \<Rightarrow> nat \<Rightarrow> nat \<Rightarrow> (snode \<times> effect list) option" where
  "load_room E rs dev level ls x y =
     (let xmlf = room_xml rs level x y;
          st = room_style E rs ls xmlf;
          n = room_name (int x + 1) (int y + 1);
          pos = room_position E x y;
          room = (\<lambda>contents. set_vars ((if ro_name st \<noteq> [] then [(''label'', A_str (ro_name st))] else []) @ [(''dark'', A_bool (\<not> ro_lights st))])
            (mk_node n pos q_IDENTITY (floor_comps rs (ro_floor st))
               ((if ro_lights st then room_lights E (1 / 4) [] else []) @
                (if dev then [room_label E rs n] else []) @ contents)))
      in case xmlf of
           None \<Rightarrow> Some (room [], [])
         | Some r \<Rightarrow> map_option (\<lambda>(c, msgs). (room [c], msgs)) (room_contents E rs pos r))"

text \<open>Which pixels are rooms, and in which order.\<close>

definition floor_pixel :: "image \<Rightarrow> nat \<Rightarrow> nat \<Rightarrow> pixel" where
  "floor_pixel im x y = im_px im (1 + x * 2) ((im_h im - 1) - (1 + y * 2))"

definition is_floor :: "pixel \<Rightarrow> bool" where
  "is_floor c \<longleftrightarrow> \<not> (px_a c < 1 / 2 \<or> c = px_BLACK)"

definition floor_grid :: "image \<Rightarrow> (nat \<times> nat) list" where
  "floor_grid im =
     filter (\<lambda>(x, y). is_floor (floor_pixel im x y))
       (List.product [0..<(im_w im - 1) div 2] [0..<(im_h im - 1) div 2])"

text \<open>\<open>personPosition\<close> after the loop: the last blue room, or the origin.\<close>

definition person_start :: "urho \<Rightarrow> image \<Rightarrow> vec3" where
  "person_start E im =
     foldl (\<lambda>p (x, y). if floor_pixel im x y = px_BLUE then room_position E x y else p) vec_ZERO (floor_grid im)"

section \<open>Walls\<close>

definition wall_type :: "pixel \<Rightarrow> string" where
  "wall_type c = (if c = px_WHITE then ''Filler'' else if c = px_RED \<or> c = px_GREEN then ''Door'' else [])"

text \<open>The two nodes of a door: the door, whose component's trigger is the other one.\<close>

definition door_nodes :: "resources \<Rightarrow> string option \<Rightarrow> snode list" where
  "door_nodes rs mat =
     [mk_node [] vec_ZERO q_IDENTITY
        [Comp ''RigidBody'' [],
         Comp ''StaticModel'' [(''Model'', A_res (get_resource rs ''Models/Door.mdl'')), (''Material'', A_res mat),
           (''CastShadows'', A_bool True), (''ViewMask'', A_int 2)],
         Comp ''CollisionShape'' [(''Box'', A_vec (V3 (3 / 2) 2 1)), (''Offset'', A_vec (V3 0 1 0))],
         Comp ''Door'' [(''TriggerNode'', A_str ''next sibling'')]] [],
      mk_node [] vec_ZERO q_IDENTITY
        [Comp ''RigidBody'' [(''Trigger'', A_bool True)],
         Comp ''CollisionShape'' [(''Box'', A_vec (V3 2 2 2)), (''Offset'', A_vec (V3 0 1 0))]] []]"

definition wall_node :: "urho \<Rightarrow> resources \<Rightarrow> level_style \<Rightarrow> nat \<Rightarrow> nat \<Rightarrow> pixel \<Rightarrow> snode" where
  "wall_node E rs ls x y c =
     (let position = V3 (fadd E (- 11 / 2) (fmul E (of_nat x) (11 / 2))) 0 (fadd E (- 11 / 2) (fmul E (of_nat y) (11 / 2)));
          wallType = wall_type c;
          model = get_resource rs (''Models/Wall'' @ wallType @ ''.mdl'')
      in mk_node [] position (if y mod 2 \<noteq> 0 then q_axis E 90 vec_UP else q_IDENTITY)
           [Comp ''Navigable'' [(''Recursive'', A_bool False)],
            Comp ''RigidBody'' [(''Restitution'', A_real (1 / 2))],
            Comp ''StaticModel'' [(''Model'', A_res model), (''Material'', A_res (ls_walls ls)),
              (''CastShadows'', A_bool True), (''ViewMask'', A_int 1)],
            (if wallType = [] then Comp ''CollisionShape'' [(''Box'', A_vec (V3 11 3 1)), (''Offset'', A_vec (V3 0 (3 / 2) 0))]
             else Comp ''CollisionShape'' [(''TriangleMesh'', A_res model)])]
           (if wallType = ''Door'' then door_nodes rs (ls_doors ls) else []))"

definition wall_pixel :: "image \<Rightarrow> nat \<Rightarrow> nat \<Rightarrow> pixel" where
  "wall_pixel im x y = im_px im x ((im_h im - 1) - y)"

definition wall_grid :: "image \<Rightarrow> (nat \<times> nat) list" where
  "wall_grid im =
     filter (\<lambda>(x, y). x mod 2 \<noteq> y mod 2 \<and> \<not> px_a (wall_pixel im x y) < 1 / 2)
       (List.product [0..<im_w im] [0..<im_h im])"

definition load_walls :: "urho \<Rightarrow> resources \<Rightarrow> level_style \<Rightarrow> image \<Rightarrow> snode list" where
  "load_walls E rs ls im = map (\<lambda>(x, y). wall_node E rs ls x y (wall_pixel im x y)) (wall_grid im)"

section \<open>The player and the camera\<close>

definition light_mask :: int where
  "light_mask = - 2"

definition person_tree :: "urho \<Rightarrow> resources \<Rightarrow> vec3 \<Rightarrow> snode" where
  "person_tree E rs p =
     mk_node ''Person'' p q_IDENTITY
       (person_plane rs ''MaverickForward'' # person_body E @
        [Comp ''Person'' [], Comp ''Inventory'' [], Comp ''Thrower'' [], Comp ''SoundListener'' []])
       [mk_node ''ShadowCaster'' vec_ZERO (q_axis E 90 vec_UP)
          [Comp ''StaticModel'' [(''Model'', A_res (get_resource rs ''Models/PersonPlane.mdl'')),
             (''Material'', A_res (material_res rs ''MaverickLeftShadow'')), (''CastShadows'', A_bool True),
             (''ShadowMask'', A_int 1), (''ViewMask'', A_int 2)]] [],
        disabled (search_light E rs)]"

text \<open>The spotlight of the camera, in a level and on the title screen; the light mask \<open>~0x01\<close> is
  all ones but the last.\<close>

definition camera_light :: "urho \<Rightarrow> resources \<Rightarrow> snode" where
  "camera_light E rs =
     mk_node [] (V3 0 (- 1 / 2) 0) (q_axis E (- 5) vec_RIGHT)
       [Comp ''Light'' [(''LightType'', A_str ''LIGHT_SPOT''), (''Range'', A_real 500), (''Brightness'', A_real (flt E (1 / 5))),
          (''Fov'', A_real 90), (''Color'', A_color WHITE), (''CastShadows'', A_bool True), (''LightMask'', A_int light_mask),
          (''ShapeTexture'', A_res (get_resource rs ''Textures/White.png''))]] []"

definition camera_tree :: "urho \<Rightarrow> resources \<Rightarrow> vec3 \<Rightarrow> snode" where
  "camera_tree E rs p =
     mk_node [] (vec_add E p (V3 0 5 (- 5))) q_IDENTITY [Comp ''CameraController'' []]
       [mk_node ''Camera'' (V3 0 9 (- 15 / 2)) (q_axis E (95 / 2) vec_RIGHT)
          [Comp ''Camera'' [(''FarClip'', A_real 200)]] [camera_light E rs]]"

section \<open>The scene\<close>

record level_scene =
  sc_comps :: "comp list"
  sc_nodes :: "snode list"

text \<open>The components of the scene itself, in a level and on the title screen.\<close>

definition world_comps :: "urho \<Rightarrow> comp list" where
  "world_comps E =
     [Comp ''Octree'' [], Comp ''DebugRenderer'' [], Comp ''AudioManager'' [],
      Comp ''Zone'' [(''BoundingBoxMin'', A_real (- 1000)), (''BoundingBoxMax'', A_real 1000), (''AmbientColor'', A_color BLACK),
        (''FogStart'', A_real 50), (''FogEnd'', A_real 200)],
      Comp ''NavigationMesh'' [(''CellSize'', A_real (flt E (5 / 100))), (''CellHeight'', A_real (flt E (2 / 100))),
        (''AgentRadius'', A_real (1 / 4)), (''AgentHeight'', A_real (flt E (18 / 10))), (''AgentMaxClimb'', A_real 0),
        (''AgentMaxSlope'', A_real 5)],
      Comp ''PhysicsWorld'' []]"

primrec load_rooms ::
  "urho \<Rightarrow> resources \<Rightarrow> bool \<Rightarrow> int \<Rightarrow> level_style \<Rightarrow> (nat \<times> nat) list \<Rightarrow> (snode list \<times> effect list) option" where
  "load_rooms E rs dev level ls [] = Some ([], [])"
| "load_rooms E rs dev level ls (c # cs) =
     (case load_room E rs dev level ls (fst c) (snd c) of
        None \<Rightarrow> None
      | Some (room, msgs) \<Rightarrow>
          map_option (\<lambda>(rooms, logs). (room # rooms, msgs @ logs)) (load_rooms E rs dev level ls cs))"

definition build_level ::
  "urho \<Rightarrow> resources \<Rightarrow> bool \<Rightarrow> int \<Rightarrow> image \<Rightarrow> (level_scene \<times> effect list) option" where
  "build_level E rs dev level im =
     (let ls = level_style E rs (rs_xml rs (''Levels/'' @ show_int (level + 1) @ ''.xml'')) in
      map_option
        (\<lambda>(rooms, msgs).
           (\<lparr>sc_comps = world_comps E,
              sc_nodes = rooms @ load_walls E rs ls im @
                [person_tree E rs (person_start E im), camera_tree E rs (person_start E im)]\<rparr>, msgs))
        (load_rooms E rs dev level ls (floor_grid im)))"

section \<open>Lemmas\<close>

lemma load_room_name:
  "load_room E rs dev level ls x y = Some (r, msgs) \<Longrightarrow>
   sn_name r = room_name (int x + 1) (int y + 1) \<and> sn_pos r = room_position E x y"
  by (auto simp: load_room_def Let_def split: option.splits)

text \<open>A room some of whose guards have no waypoint, or that has guards while the sound of the
  footsteps is missing.\<close>

definition bad_guards :: "resources \<Rightarrow> int \<Rightarrow> nat \<times> nat \<Rightarrow> bool" where
  "bad_guards rs level c =
     (case room_xml rs level (fst c) (snd c) of
        None \<Rightarrow> False
      | Some r \<Rightarrow> list_ex (\<lambda>g. children_named ''waypoint'' g = []) (children_named ''guard'' r) \<or>
          children_named ''guard'' r \<noteq> [] \<and> \<not> rs_loaded rs footsteps)"

lemma load_room_None:
  "load_room E rs dev level ls x y = None \<longleftrightarrow> bad_guards rs level (x, y)"
proof (cases "room_xml rs level x y")
  case (Some r)
  let ?p = "room_position E x y"
  have "load_guards E rs ?p (children_named ''guard'' r) = None \<longleftrightarrow>
      list_ex (\<lambda>g. children_named ''waypoint'' g = []) (children_named ''guard'' r) \<or>
      children_named ''guard'' r \<noteq> [] \<and> \<not> rs_loaded rs footsteps"
    using load_guards_defined [of E rs ?p "children_named ''guard'' r"]
    by (auto simp: guard_waypoints_def list_ex_iff)
  then show ?thesis
    by (auto simp add: load_room_def Let_def Some bad_guards_def room_contents_def split: option.split)
qed (simp add: load_room_def Let_def bad_guards_def)

lemma load_rooms_None:
  "load_rooms E rs dev level ls cs = None \<longleftrightarrow> list_ex (bad_guards rs level) cs"
  by (induction cs) (auto split: option.splits simp: load_room_None [of E rs dev level ls, symmetric])

lemma load_rooms_nodes:
  "load_rooms E rs dev level ls cs = Some (rooms, msgs) \<Longrightarrow>
   list_all2 (\<lambda>(x, y) r. sn_name r = room_name (int x + 1) (int y + 1) \<and> sn_pos r = room_position E x y) cs rooms"
proof (induction cs arbitrary: rooms msgs)
  case (Cons c cs)
  then show ?case using load_room_name [of E rs dev level ls "fst c" "snd c"]
    by (auto split: option.splits)
qed simp

lemma load_rooms_loaded:
  "load_rooms E rs dev level ls cs = Some (rooms, msgs) \<Longrightarrow>
   list_all2 (\<lambda>(x, y) r. sn_name r = room_name (int x + 1) (int y + 1) \<and> (\<exists>m. load_room E rs dev level ls x y = Some (r, m))) cs rooms"
proof (induction cs arbitrary: rooms msgs)
  case (Cons c cs)
  then show ?case using load_room_name [of E rs dev level ls "fst c" "snd c"]
    by (auto split: option.splits)
qed simp

text \<open>Looking up a room by its name among nodes so named.\<close>

lemma get_child_room:
  "list_all2 (\<lambda>(x, y) r. sn_name r = room_name (int x + 1) (int y + 1) \<and> P x y r) cs rooms \<Longrightarrow>
   (case get_child (room_name (i + 1) (j + 1)) rooms of
      None \<Rightarrow> \<not> (0 \<le> i \<and> 0 \<le> j \<and> (nat i, nat j) \<in> set cs)
    | Some r \<Rightarrow> 0 \<le> i \<and> 0 \<le> j \<and> (nat i, nat j) \<in> set cs \<and> P (nat i) (nat j) r)"
proof (induction rule: list_all2_induct)
  case (Cons c cs r rs)
  then show ?case
    by (cases "int (fst c) = i \<and> int (snd c) = j")
      (auto simp: get_child_def room_name_inj split: option.splits prod.splits)
qed (simp add: get_child_def)

lemma room_name_other: "room_name i j \<noteq> ''Person''"
proof
  assume "room_name i j = ''Person''"
  moreover have "CHR ''x'' \<in> set (room_name i j)" by (simp add: room_name_def)
  ultimately show False by simp
qed

lemma get_child_rest:
  "get_child (room_name i j) (load_walls E rs ls im @ [person_tree E rs p, camera_tree E rs p]) = None"
  using room_name_other [of i j] room_name_neq [of i j, symmetric]
  by (auto simp: get_child_def find_None_iff load_walls_def wall_node_def person_tree_def camera_tree_def Let_def)

lemma find_append: "find P (xs @ ys) = (case find P xs of None \<Rightarrow> find P ys | Some x \<Rightarrow> Some x)"
  by (induction xs) auto

lemma build_level_room:
  assumes "build_level E rs dev level im = Some (sc, msgs)"
  shows "case get_child (room_name (i + 1) (j + 1)) (sc_nodes sc) of
      None \<Rightarrow> \<not> (0 \<le> i \<and> 0 \<le> j \<and> (nat i, nat j) \<in> set (floor_grid im))
    | Some r \<Rightarrow> 0 \<le> i \<and> 0 \<le> j \<and> (nat i, nat j) \<in> set (floor_grid im) \<and> sn_pos r = room_position E (nat i) (nat j)"
proof -
  let ?ls = "level_style E rs (rs_xml rs (''Levels/'' @ show_int (level + 1) @ ''.xml''))"
  obtain rooms where r: "load_rooms E rs dev level ?ls (floor_grid im) = Some (rooms, msgs)"
    and sc: "sc_nodes sc = rooms @ load_walls E rs ?ls im @
        [person_tree E rs (person_start E im), camera_tree E rs (person_start E im)]"
    using assms by (auto simp: build_level_def Let_def)
  have "get_child (room_name (i + 1) (j + 1)) (sc_nodes sc) = get_child (room_name (i + 1) (j + 1)) rooms"
    using get_child_rest [of "i + 1" "j + 1" E rs ?ls im "person_start E im"]
    by (simp add: sc get_child_def find_append split: option.split)
  then show ?thesis
    using get_child_room [OF load_rooms_nodes [OF r], of i j] by simp
qed

lemma build_level_loaded:
  assumes "build_level E rs dev level im = Some (sc, msgs)"
  shows "case get_child (room_name (i + 1) (j + 1)) (sc_nodes sc) of
      None \<Rightarrow> \<not> (0 \<le> i \<and> 0 \<le> j \<and> (nat i, nat j) \<in> set (floor_grid im))
    | Some r \<Rightarrow> 0 \<le> i \<and> 0 \<le> j \<and> (nat i, nat j) \<in> set (floor_grid im) \<and>
        (\<exists>m. load_room E rs dev level (level_style E rs (rs_xml rs (''Levels/'' @ show_int (level + 1) @ ''.xml''))) (nat i) (nat j) =
          Some (r, m))"
proof -
  let ?ls = "level_style E rs (rs_xml rs (''Levels/'' @ show_int (level + 1) @ ''.xml''))"
  obtain rooms where r: "load_rooms E rs dev level ?ls (floor_grid im) = Some (rooms, msgs)"
    and sc: "sc_nodes sc = rooms @ load_walls E rs ?ls im @
        [person_tree E rs (person_start E im), camera_tree E rs (person_start E im)]"
    using assms by (auto simp: build_level_def Let_def)
  have "get_child (room_name (i + 1) (j + 1)) (sc_nodes sc) = get_child (room_name (i + 1) (j + 1)) rooms"
    using get_child_rest [of "i + 1" "j + 1" E rs ?ls im "person_start E im"]
    by (simp add: sc get_child_def find_append split: option.split)
  then show ?thesis
    using get_child_room [OF load_rooms_loaded [OF r], of i j] by simp
qed

text \<open>The names in a tree.\<close>

definition names :: "snode \<Rightarrow> string list" where
  "names x = map sn_name (all_nodes x)"

lemma names_mk_node [simp]: "names (mk_node n p r cs ch) = n # concat (map names ch)"
proof -
  have "map sn_name (concat (map all_nodes ch)) = concat (map names ch)"
    by (induction ch) (simp_all add: names_def)
  then show ?thesis by (simp add: names_def mk_node_def)
qed

lemma names_set [simp]:
  "names (set_scale s x) = names x" "names (set_pos p x) = names x" "names (set_vars v x) = names x"
  "names (disabled x) = names x"
  by (cases x; simp add: names_def set_scale_def set_pos_def set_vars_def disabled_def)+

lemma filter_names: "n \<notin> set (names x) \<Longrightarrow> filter (\<lambda>y. sn_name y = n) (all_nodes x) = []"
  by (auto simp: names_def filter_empty_conv)

lemma filter_names_list:
  "n \<notin> (\<Union>x \<in> set xs. set (names x)) \<Longrightarrow> filter (\<lambda>y. sn_name y = n) (concat (map all_nodes xs)) = []"
  using filter_names by (induction xs) auto

lemma load_guards_nodes:
  assumes "load_guards E rs base cs = Some gs"
  shows "gs = map (\<lambda>c. guard_node E rs base (guard_waypoints E base c)) cs"
proof -
  have "load_guards E rs base cs \<noteq> None" using assms by simp
  then have "load_guards E rs base cs = Some (map (\<lambda>c. guard_node E rs base (guard_waypoints E base c)) cs)"
    unfolding load_guards_defined by (rule conjE) (rule load_guards_total)
  then show ?thesis using assms by simp
qed

lemma names_load_object: "names (fst (load_object E rs x)) = [[]]"
  by (simp add: load_object_def Let_def case_prod_beta)

lemma names_guard_node: "names (guard_node E rs base ws) = [''Guard'', ''SearchLight'']"
  by (simp add: guard_node_def search_light_def)

lemma names_load_zone: "names (load_zone E rs x) = [''AudioZone'']"
  by (simp add: load_zone_def Let_def)

lemma names_room_contents:
  "room_contents E rs base r = Some (c, msgs) \<Longrightarrow> ''Person'' \<notin> set (names c)"
  using load_guards_nodes [of E rs base "children_named ''guard'' r"]
  by (auto simp: room_contents_def Let_def names_load_object names_guard_node names_load_zone
      split: option.splits if_splits)

lemma names_load_room: "load_room E rs dev level ls x y = Some (r, msgs) \<Longrightarrow> ''Person'' \<notin> set (names r)"
  using room_name_other [of "int x + 1" "int y + 1"]
    names_room_contents [of E rs "room_position E x y" "the (room_xml rs level x y)"]
  by (auto simp: load_room_def Let_def room_lights_def room_label_def split: option.splits if_splits)

lemma names_load_rooms:
  "load_rooms E rs dev level ls cs = Some (rooms, msgs) \<Longrightarrow> r \<in> set rooms \<Longrightarrow> ''Person'' \<notin> set (names r)"
  by (induction cs arbitrary: rooms msgs) (auto dest: names_load_room split: option.splits)

lemma names_walls: "w \<in> set (load_walls E rs ls im) \<Longrightarrow> ''Person'' \<notin> set (names w)"
  by (auto simp: load_walls_def wall_node_def Let_def door_nodes_def)

lemma filter_person_tree:
  "filter (\<lambda>y. sn_name y = ''Person'') (all_nodes (person_tree E rs p)) = [person_tree E rs p]"
  by (simp add: person_tree_def mk_node_def disabled_def search_light_def)

lemma names_camera_tree: "''Person'' \<notin> set (names (camera_tree E rs p))"
  by (simp add: camera_tree_def camera_light_def)

text \<open>The last blue room.\<close>

definition blue_rooms :: "image \<Rightarrow> (nat \<times> nat) list" where
  "blue_rooms im = filter (\<lambda>(x, y). floor_pixel im x y = px_BLUE) (floor_grid im)"

definition spawn_room :: "image \<Rightarrow> (nat \<times> nat) option" where
  "spawn_room im = v_back (blue_rooms im)"

lemma person_start_spawn:
  "person_start E im = (case spawn_room im of None \<Rightarrow> vec_ZERO | Some (x, y) \<Rightarrow> room_position E x y)"
proof -
  have "foldl (\<lambda>p (x, y). if floor_pixel im x y = px_BLUE then room_position E x y else p) vec_ZERO cs =
      (case v_back (filter (\<lambda>(x, y). floor_pixel im x y = px_BLUE) cs) of
         None \<Rightarrow> vec_ZERO | Some (x, y) \<Rightarrow> room_position E x y)" for cs
    by (induction cs rule: rev_induct) (auto split: prod.split simp: v_back_def)
  then show ?thesis by (simp add: person_start_def spawn_room_def blue_rooms_def)
qed

text \<open>Rounding a coordinate to its room: within 5 m of the centre of a room the division is closer
  to the room's index than to any half.\<close>

lemma room_index:
  assumes "float_unit (flt E)" "\<bar>c - 11 * of_nat n\<bar> \<le> 5" "n < 2 ^ 18"
  shows "c_round (fdiv E c 11) = int n"
proof -
  have bound: "\<bar>32 * int n + 15\<bar> \<le> 2 ^ 24" "\<bar>32 * int n - 15\<bar> \<le> 2 ^ 24" using assms(3) by auto
  have "flt E (of_int (32 * int n + 15) / 2 ^ 5) = of_int (32 * int n + 15) / 2 ^ 5"
    "flt E (of_int (32 * int n - 15) / 2 ^ 5) = of_int (32 * int n - 15) / 2 ^ 5"
    by (rule float_unit.rnd_dyadic [OF assms(1)]; use bound in simp)+
  then have "flt E (of_nat n + 15 / 32) = of_nat n + 15 / 32" "flt E (of_nat n - 15 / 32) = of_nat n - 15 / 32"
    by (simp_all add: add_divide_distrib diff_divide_distrib)
  moreover have "c / 11 \<le> of_nat n + 15 / 32" "of_nat n - 15 / 32 \<le> c / 11"
    using assms(2) by (simp_all add: abs_le_iff)
  ultimately have "fdiv E c 11 \<le> of_nat n + 15 / 32" "of_nat n - 15 / 32 \<le> fdiv E c 11"
    using float_unit.rnd_le_float [OF assms(1)] float_unit.float_le_rnd [OF assms(1)] by metis+
  then have "of_int (c_round (fdiv E c 11)) < (of_int (int n) + 1 :: real)"
      "(of_int (int n) - 1 :: real) < of_int (c_round (fdiv E c 11))"
    using c_round_dist [of "fdiv E c 11"] unfolding of_int_of_nat_eq by linarith+
  then show ?thesis by linarith
qed

text \<open>The rooms are visited column by column, each column upwards: in the lexicographic order of their
  coordinates.\<close>

lemma sorted_grid: "sorted_wrt (<) (List.product [0..<m] [0..<n])"
proof -
  have "sorted_wrt (<) (List.product xs ys)" if "sorted_wrt (<) xs" "sorted_wrt (<) ys" for xs ys :: "nat list"
    using that by (induction xs) (auto simp: sorted_wrt_append sorted_wrt_map less_prod_def)
  then show ?thesis by simp
qed

lemma sorted_last:
  fixes c :: "'a :: linorder"
  shows "sorted_wrt (<) xs \<Longrightarrow> v_back xs = Some c \<longleftrightarrow> c \<in> set xs \<and> (\<forall>d \<in> set xs. d \<le> c)"
  by (cases xs rule: rev_cases) (auto simp: v_back_def sorted_wrt_append dest: less_le_not_le [THEN iffD1] less_imp_le)

lemma spawn_room_last:
  "spawn_room im = Some c \<longleftrightarrow> c \<in> set (blue_rooms im) \<and> (\<forall>d \<in> set (blue_rooms im). d \<le> c)"
proof -
  have "sorted_wrt (<) (blue_rooms im)"
    by (simp add: blue_rooms_def floor_grid_def sorted_grid sorted_wrt_filter)
  then show ?thesis by (simp add: spawn_room_def sorted_last)
qed

lemma build_level_person:
  assumes "build_level E rs dev level im = Some (sc, msgs)"
  shows "filter (\<lambda>n. sn_name n = ''Person'') (concat (map all_nodes (sc_nodes sc))) = [person_tree E rs (person_start E im)]"
proof -
  let ?ls = "level_style E rs (rs_xml rs (''Levels/'' @ show_int (level + 1) @ ''.xml''))"
  obtain rooms where r: "load_rooms E rs dev level ?ls (floor_grid im) = Some (rooms, msgs)"
    and sc: "sc_nodes sc = rooms @ load_walls E rs ?ls im @
        [person_tree E rs (person_start E im), camera_tree E rs (person_start E im)]"
    using assms by (auto simp: build_level_def Let_def)
  have "''Person'' \<notin> (\<Union>x \<in> set (rooms @ load_walls E rs ?ls im). set (names x))"
    using names_load_rooms [OF r] names_walls by auto
  then have "filter (\<lambda>n. sn_name n = ''Person'') (concat (map all_nodes (rooms @ load_walls E rs ?ls im))) = []"
    by (rule filter_names_list)
  then show ?thesis
    by (simp add: sc filter_person_tree filter_names [OF names_camera_tree])
qed

section \<open>Properties\<close>

text \<open>A plan for the witnesses: one blue room.\<close>

definition plan0 :: image where
  "plan0 = \<lparr>im_w = 3, im_h = 3, im_px = (\<lambda>x y. if x = 1 \<and> y = 1 then px_BLUE else px_BLACK)\<rparr>"

definition res0 :: resources where
  "res0 = \<lparr>rs_image = (\<lambda>n. if n = ''Levels/1.png'' then Some plan0 else None), rs_xml = (\<lambda>_. None),
     rs_loaded = (\<lambda>_. False), rs_bounds = (\<lambda>_. (V3 1 1 1, vec_ZERO)), rs_component = (\<lambda>_. False)\<rparr>"

lemma floor_plan0: "floor_grid plan0 = [(0, 0)]"
  by (simp add: floor_grid_def plan0_def floor_pixel_def is_floor_def)

lemma spawn_plan0: "spawn_room plan0 = Some (0, 0)"
  by (simp add: spawn_room_def blue_rooms_def floor_plan0, simp add: plan0_def floor_pixel_def v_back_def)

lemma build_level_res0: "\<exists>sc msgs. build_level engine32 res0 False 0 plan0 = Some (sc, msgs)"
  by (simp add: build_level_def Let_def floor_plan0 load_room_def room_xml_def res0_def)

text \<open>C13. Loading a level does not come to an end exactly if some room of the floor plan has an XML file
  with a guard that has no waypoints, where the loop over the guards stays at that guard for
  ever, or with guards while the sound of their footsteps is missing, where a null pointer is
  used. Every other level is loaded, whatever else its files hold.\<close>

theorem level_loads_iff:
  "build_level E rs dev level im = None \<longleftrightarrow> list_ex (bad_guards rs level) (floor_grid im)"
  by (simp add: build_level_def Let_def load_rooms_None)

text \<open>C18. A loaded level has exactly one node called Person, at any depth. It stands at the centre of a
  blue room of the floor plan, or at the origin if no room is blue; if there are several blue rooms,
  in the one with the greatest x coordinate, and among those with the greatest y coordinate.\<close>

theorem level_one_person:
  assumes "build_level E rs dev level im = Some (sc, msgs)"
  shows "filter (\<lambda>n. sn_name n = ''Person'') (concat (map all_nodes (sc_nodes sc))) =
    [person_tree E rs (case spawn_room im of None \<Rightarrow> vec_ZERO | Some (x, y) \<Rightarrow> room_position E x y)] \<and>
    (spawn_room im = Some c \<longleftrightarrow> c \<in> set (blue_rooms im) \<and> (\<forall>d \<in> set (blue_rooms im). d \<le> c))"
  using build_level_person [OF assms] by (simp add: spawn_room_last flip: person_start_spawn)

theorem level_one_person_witness:
  "filter (\<lambda>n. sn_name n = ''Person'') (concat (map all_nodes (sc_nodes (fst (the (build_level engine32 res0 False 0 plan0)))))) =
    [person_tree engine32 res0 vec_ZERO]"
proof -
  obtain sc msgs where b: "build_level engine32 res0 False 0 plan0 = Some (sc, msgs)"
    using build_level_res0 by blast
  show ?thesis using level_one_person [OF b] by (simp add: b spawn_plan0 room_position_def)
qed

text \<open>C17. Finding the room of a position: in a loaded level, a lookup of a room by the coordinates of
  its name succeeds exactly for the floor pixels of the plan. A point within 5 m of the centre of
  a room, in both directions, is looked up as that room by the computation that the player, the
  camera and the enemies share (positions up to 2 ^ 18 rooms from the origin).\<close>

theorem level_room_lookup:
  assumes "float_unit (flt E)" "build_level E rs dev level im = Some (sc, msgs)"
  shows "(get_child (room_name (i + 1) (j + 1)) (sc_nodes sc) \<noteq> None \<longleftrightarrow>
      (0 \<le> i \<and> 0 \<le> j \<and> (nat i, nat j) \<in> set (floor_grid im))) \<and>
    (\<bar>vx p - 11 * of_nat x\<bar> \<le> 5 \<and> \<bar>vz p - 11 * of_nat y\<bar> \<le> 5 \<and> x < 2 ^ 18 \<and> y < 2 ^ 18 \<and>
      (x, y) \<in> set (floor_grid im) \<longrightarrow>
     (\<exists>r. get_child (room_name (fst (room_of E p) + 1) (snd (room_of E p) + 1)) (sc_nodes sc) = Some r \<and>
        sn_pos r = room_position E x y))"
proof
  show "get_child (room_name (i + 1) (j + 1)) (sc_nodes sc) \<noteq> None \<longleftrightarrow>
      (0 \<le> i \<and> 0 \<le> j \<and> (nat i, nat j) \<in> set (floor_grid im))"
    using build_level_room [OF assms(2), of i j] by (simp split: option.splits)
  show "\<bar>vx p - 11 * of_nat x\<bar> \<le> 5 \<and> \<bar>vz p - 11 * of_nat y\<bar> \<le> 5 \<and> x < 2 ^ 18 \<and> y < 2 ^ 18 \<and>
      (x, y) \<in> set (floor_grid im) \<longrightarrow>
     (\<exists>r. get_child (room_name (fst (room_of E p) + 1) (snd (room_of E p) + 1)) (sc_nodes sc) = Some r \<and>
        sn_pos r = room_position E x y)"
    using build_level_room [OF assms(2), of "int x" "int y"] room_index [OF assms(1)]
    by (auto simp: room_of_def split: option.splits)
qed

theorem level_room_lookup_witness:
  "\<exists>sc msgs r. build_level engine32 res0 False 0 plan0 = Some (sc, msgs) \<and>
     get_child (room_name 2 1) (sc_nodes sc) = None \<and>
     get_child (room_name (fst (room_of engine32 (V3 3 0 (- 5))) + 1) (snd (room_of engine32 (V3 3 0 (- 5))) + 1)) (sc_nodes sc) = Some r \<and>
     sn_pos r = vec_ZERO"
proof -
  obtain sc msgs where b: "build_level engine32 res0 False 0 plan0 = Some (sc, msgs)"
    using build_level_res0 by blast
  have "float_unit (flt engine32)" by (simp add: binary32.float_unit_axioms)
  from level_room_lookup [OF this b, of 1 0 "V3 3 0 (- 5)" 0 0]
  show ?thesis using b by (auto simp: floor_plan0 room_position_def)
qed

end
