(* ===== verification/TitleScene.thy ===== *)
theory TitleScene
  imports Level
begin

text \<open>
  The scene behind the title screen (in \<open>Game::HandleUpdate\<close>, \<open>src/Game.cpp\<close>): two floors, three
  walls, some furniture and a camera. The code makes a node, clones it and changes the clone, so
  every piece has all the components of the first one; a clone is the last child of its parent.
\<close>

section \<open>The room\<close>

definition title_floor :: "urho \<Rightarrow> resources \<Rightarrow> snode list" where
  "title_floor E rs =
     (let lights = room_lights E (flt E (3 / 10)) [(''CastShadows'', A_bool True)];
          floor = mk_node [] vec_ZERO q_IDENTITY (floor_comps rs (material_res rs ''FlatGrey'')) lights
      in [floor, set_pos (V3 0 0 11) floor])"

definition title_walls :: "urho \<Rightarrow> resources \<Rightarrow> snode list" where
  "title_walls E rs =
     (let wall = mk_node [] (V3 0 0 (11 / 2)) q_IDENTITY
            [Comp ''Navigable'' [(''Recursive'', A_bool False)], Comp ''RigidBody'' [(''Restitution'', A_real (1 / 2))],
             Comp ''StaticModel'' [(''Model'', A_res (get_resource rs ''Models/Wall.mdl'')),
               (''Material'', A_res (material_res rs ''FlatGrey'')), (''CastShadows'', A_bool True), (''ViewMask'', A_int 1)]] [];
          wall2 = set_rot (q_axis E 90 vec_UP) (set_pos (V3 (- 11 / 2) 0 0) wall)
      in [wall, wall2, set_pos (V3 (11 / 2) 0 0) wall2])"

section \<open>The furniture\<close>

text \<open>Position, angles, scale, model and material of each piece: the coffee tables and the sofas of
  one side, and the rest.\<close>

type_synonym piece = "vec3 \<times> vec3 \<times> real \<times> string \<times> string"

definition title_pieces1 :: "urho \<Rightarrow> piece list" where
  "title_pieces1 E =
    [
     (V3 2 0 (flt E (27 / 10)), V3 0 0 0, 25, ''CoffeeTableGlass'', ''CoffeeTableGlass''),
     (V3 2 0 (flt E (27 / 10)), V3 0 0 0, 25, ''CoffeeTableLegs'', ''CoffeeTableLegs''),
     (V3 2 0 (flt E (- 27 / 10)), V3 0 0 0, 25, ''CoffeeTableGlass'', ''CoffeeTableGlass''),
     (V3 2 0 (flt E (- 27 / 10)), V3 0 0 0, 25, ''CoffeeTableLegs'', ''CoffeeTableLegs''),
     (V3 (flt E (23 / 5)) 0 (7 / 2), V3 0 (- 90) 0, 50, ''SofaLength'', ''Sofa''),
     (V3 (flt E (16 / 5)) (flt E (- 1 / 100)) (flt E (23 / 5)), V3 0 180 0, 50, ''SofaLength'', ''Sofa''),
     (V3 (flt E (124 / 25)) 0 2, V3 0 90 0, 50, ''SofaEnd'', ''Sofa''),
     (V3 (flt E (9 / 5)) 0 (flt E (99 / 20)), V3 0 180 0, 50, ''SofaEnd'', ''Sofa'')]"

definition title_pieces2 :: "urho \<Rightarrow> piece list" where
  "title_pieces2 E =
    [
     (V3 (flt E (23 / 5)) 0 (- 7 / 2), V3 0 (- 90) 0, 50, ''SofaLength'', ''Sofa''),
     (V3 (flt E (16 / 5)) (flt E (- 1 / 100)) (flt E (- 23 / 5)), V3 0 0 0, 50, ''SofaLength'', ''Sofa''),
     (V3 (flt E (124 / 25)) 0 (- 2), V3 0 (- 90) 0, 50, ''SofaEnd'', ''Sofa''),
     (V3 (flt E (9 / 5)) 0 (flt E (- 99 / 20)), V3 0 180 0, 50, ''SofaEnd'', ''Sofa''),
     (V3 0 0 (9 / 2), V3 0 0 0, 6, ''CoolerBase'', ''FlatGrey''),
     (V3 0 0 (9 / 2), V3 0 0 0, 6, ''CoolerBottle'', ''CoolerBottle''),
     (V3 (flt E (- 7 / 5)) (flt E (- 1 / 10)) 0, V3 0 95 0, 20, ''Table'', ''FlatGrey''),
     (V3 (flt E (- 7 / 5)) (flt E (4 / 5)) 0, V3 0 75 0, 5, ''Terminal'', ''Terminal'')]"

definition piece_comps :: "resources \<Rightarrow> string \<Rightarrow> string \<Rightarrow> comp list" where
  "piece_comps rs model material =
     (let m = get_resource rs (''Models/'' @ model @ ''.mdl'') in
      [Comp ''StaticModel'' [(''Model'', A_res m), (''Material'', A_res (material_res rs material)),
         (''CastShadows'', A_bool True), (''ViewMask'', A_int 2)],
       Comp ''RigidBody'' [(''Restitution'', A_real (1 / 2))],
       Comp ''CollisionShape'' [(''Box'', A_vec (fst (rs_bounds rs m))), (''Offset'', A_vec (snd (rs_bounds rs m)))],
       Comp ''Navigable'' []])"

fun title_piece :: "urho \<Rightarrow> resources \<Rightarrow> piece \<Rightarrow> snode" where
  "title_piece E rs (p, a, s, model, material) =
     set_scale (V3 s s s) (mk_node [] p (q_euler E (vx a) (vy a) (vz a)) (piece_comps rs model material) [])"

section \<open>The camera and the whole scene\<close>

definition title_camera :: "urho \<Rightarrow> resources \<Rightarrow> snode" where
  "title_camera E rs =
     mk_node ''Camera'' (V3 (- 1 / 2) (3 / 2) (- 9 / 2)) (q_mul E (q_axis E 25 vec_UP) (q_axis E 15 vec_RIGHT))
       [Comp ''Camera'' [(''FarClip'', A_real 200)]] [camera_light E rs]"

definition title_scene :: "urho \<Rightarrow> resources \<Rightarrow> level_scene" where
  "title_scene E rs =
     \<lparr>sc_comps = world_comps E,
       sc_nodes = [mk_node ''TitleContainer'' vec_ZERO q_IDENTITY [] []] @ title_floor E rs @ title_walls E rs @
         map (title_piece E rs) (title_pieces1 E @ title_pieces2 E) @ [title_camera E rs]\<rparr>"

lemma title_container: "get_child ''TitleContainer'' (sc_nodes (title_scene E rs)) \<noteq> None"
  by (simp add: title_scene_def get_child_def)

end
