(* ===== verification/Analytics.thy ===== *)
theory Analytics
  imports Engine
begin

text \<open>
  Analytics (\<open>src/Analytics.cpp\<close>): events sent as HTTP requests that are kept until they are
  finished. A request is a number; \<open>an_refs\<close> is its reference count as far as the game
  changes it. \<open>json\<close> is the text that the engine's \<open>JSONFile\<close> makes of an event and its data,
  \<open>sf\<close> and \<open>sv\<close> are \<open>String(float)\<close> and \<open>Vector3::ToString\<close>.
\<close>

datatype http_state = HTTP_INITIALIZING | HTTP_ERROR | HTTP_OPEN | HTTP_CLOSED

record analytics =
  an_requests :: "nat list"
  an_refs :: "nat \<Rightarrow> int"
  an_sent :: "(nat \<times> string \<times> string) list"
  an_next :: nat

definition API_ENDPOINT :: string where
  "API_ENDPOINT = ''http://traitor.limetech.org/analytics.php''"

definition analytics_new :: analytics where
  "analytics_new = \<lparr>an_requests = [], an_refs = (\<lambda>_. 0), an_sent = [], an_next = 0\<rparr>"

definition release_ref :: "nat \<Rightarrow> (nat \<Rightarrow> int) \<Rightarrow> nat \<Rightarrow> int" where
  "release_ref i r = r(i := r i - 1)"

text \<open>\<open>FlushEvents\<close>, which is all the destructor does.\<close>

definition flush_events :: "analytics \<Rightarrow> analytics" where
  "flush_events s = s\<lparr>an_refs := fold release_ref (an_requests s) (an_refs s)\<rparr>"

text \<open>The loop over the requests, which erases the finished ones and logs the failed ones;
  \<open>err\<close> is \<open>GetError\<close>.\<close>

fun clean_requests :: "(nat \<Rightarrow> http_state) \<Rightarrow> (nat \<Rightarrow> string) \<Rightarrow> nat list \<Rightarrow> nat list \<times> effect list" where
  "clean_requests st err [] = ([], [])"
| "clean_requests st err (i # is) =
     (case clean_requests st err is of (ks, es) \<Rightarrow>
        if st i \<noteq> HTTP_ERROR \<and> st i \<noteq> HTTP_CLOSED then (i # ks, es)
        else (ks, (if st i = HTTP_ERROR then [Log_Error (''HTTP Request Error: '' @ err i)] else []) @ es))"

definition send_game_event ::
  "(string \<Rightarrow> (string \<times> string) list \<Rightarrow> string) \<Rightarrow> (nat \<Rightarrow> http_state) \<Rightarrow> (nat \<Rightarrow> string)
     \<Rightarrow> string \<Rightarrow> (string \<times> string) list \<Rightarrow> analytics \<Rightarrow> analytics \<times> effect list" where
  "send_game_event json st err event dat s =
     (case clean_requests st err (an_requests s) of (kept, es) \<Rightarrow>
        (let i = an_next s in
         (s\<lparr>an_requests := v_push kept i, an_refs := (an_refs s)(i := an_refs s i + 1),
            an_sent := an_sent s @ [(i, API_ENDPOINT, json event dat)], an_next := i + 1\<rparr>, es)))"

text \<open>The build's constants \<open>__DATE__\<close>, \<open>__TIME__\<close>, \<open>CMAKE_SYSTEM_NAME\<close>, \<open>CMAKE_GENERATOR\<close> and
  \<open>CMAKE_CXX_COMPILER_ID\<close>.\<close>

definition launch_event :: "string \<Rightarrow> string \<Rightarrow> string \<Rightarrow> string \<Rightarrow> string \<Rightarrow> string \<times> (string \<times> string) list" where
  "launch_event date time sys generator compiler =
     (''launch'', [(''compile-date'', date), (''compile-time'', time), (''platform'', sys),
        (''generator'', generator), (''compiler'', compiler)])"

definition level_completed_event ::
  "(real \<Rightarrow> string) \<Rightarrow> int \<Rightarrow> real \<Rightarrow> int \<Rightarrow> int \<Rightarrow> int \<Rightarrow> string \<times> (string \<times> string) list" where
  "level_completed_event sf level levelTime guardCount pickupCount score =
     (''level-complete'', [(''level'', show_int level), (''level-time'', sf levelTime),
        (''guard-count'', show_int guardCount), (''pickup-count'', show_int pickupCount),
        (''score'', show_int score)])"

definition level_failed_event ::
  "(real \<Rightarrow> string) \<Rightarrow> (vec3 \<Rightarrow> string) \<Rightarrow> int \<Rightarrow> real \<Rightarrow> int \<Rightarrow> int \<Rightarrow> vec3 \<Rightarrow> string \<times> (string \<times> string) list" where
  "level_failed_event sf sv level levelTime guardCount pickupCount playerPosition =
     (''level-failed'', [(''level'', show_int level), (''level-time'', sf levelTime),
        (''guard-count'', show_int guardCount), (''pickup-count'', show_int pickupCount),
        (''player-position'', sv playerPosition)])"

definition crash_event :: "string \<Rightarrow> string \<times> (string \<times> string) list" where
  "crash_event i = (''crash'', [(''id'', i)])"

section \<open>Crashes\<close>

text \<open>The callbacks of \<open>CrashHandler\<close> (\<open>src/CrashHandler.cpp\<close>), which Breakpad calls when the program has
  crashed: the dump is wanted; an event with its name is sent and the requests are flushed. The result \<open>False\<close> lets the crash go on.\<close>

definition breakpad_filter_callback :: bool where
  "breakpad_filter_callback = True"

definition breakpad_minidump_callback ::
  "(string \<Rightarrow> (string \<times> string) list \<Rightarrow> string) \<Rightarrow> (nat \<Rightarrow> http_state) \<Rightarrow> (nat \<Rightarrow> string) \<Rightarrow> string \<Rightarrow> analytics \<Rightarrow> analytics \<times> bool" where
  "breakpad_minidump_callback json st err minidump_id s =
     (case crash_event minidump_id of (event, dat) \<Rightarrow> (flush_events (fst (send_game_event json st err event dat s)), False))"

text \<open>The handler is installed when the game is built with Breakpad (\<open>breakpad\<close>), else the pointer is
  null; \<open>h\<close> is the new handler of the library. The destructor returns what it deletes.\<close>

record 'h crash_handler =
  ch_handler :: "'h option"

definition crash_handler_new :: "bool \<Rightarrow> 'h \<Rightarrow> 'h crash_handler" where
  "crash_handler_new breakpad h = \<lparr>ch_handler = (if breakpad then Some h else None)\<rparr>"

definition crash_handler_delete :: "bool \<Rightarrow> 'h crash_handler \<Rightarrow> 'h list" where
  "crash_handler_delete breakpad c = (if breakpad then (case ch_handler c of None \<Rightarrow> [] | Some h \<Rightarrow> [h]) else [])"

lemma crash_handler_deleted: "crash_handler_delete b (crash_handler_new b h) = (if b then [h] else [])"
  by (simp add: crash_handler_delete_def crash_handler_new_def)

section \<open>Lemmas\<close>

lemma clean_requests_filter:
  "fst (clean_requests st err is) = filter (\<lambda>i. st i \<notin> {HTTP_ERROR, HTTP_CLOSED}) is"
  by (induction "is") (auto split: prod.split)

lemma fold_release:
  "distinct is \<Longrightarrow> fold release_ref is r i = (if i \<in> set is then r i - 1 else r i)"
  by (induction "is" arbitrary: r) (auto simp: release_ref_def)

text \<open>Any number of events, each with the states its predecessors' requests are in by then.\<close>

fun send_events ::
  "(string \<Rightarrow> (string \<times> string) list \<Rightarrow> string) \<Rightarrow> ((nat \<Rightarrow> http_state) \<times> string \<times> (string \<times> string) list) list
     \<Rightarrow> analytics \<Rightarrow> analytics" where
  "send_events json [] s = s"
| "send_events json ((st, e, d) # xs) s = send_events json xs (fst (send_game_event json st (\<lambda>_. []) e d s))"

definition analytics_inv :: "analytics \<Rightarrow> bool" where
  "analytics_inv s \<longleftrightarrow> distinct (an_requests s) \<and> set (an_requests s) \<subseteq> {..<an_next s} \<and>
     (\<forall>i. an_refs s i = (if i < an_next s then 1 else 0))"

lemma analytics_inv_send: "analytics_inv s \<Longrightarrow> analytics_inv (fst (send_game_event json st err e d s))"
  using clean_requests_filter [of st err "an_requests s"]
  by (auto simp: analytics_inv_def send_game_event_def v_push_def Let_def case_prod_beta)

lemma analytics_inv_sends: "analytics_inv s \<Longrightarrow> analytics_inv (send_events json xs s)"
  by (induction json xs s rule: send_events.induct) (auto intro: analytics_inv_send)

lemma send_events_next: "an_next (send_events json xs s) = an_next s + length xs"
  by (induction json xs s rule: send_events.induct)
    (simp_all add: send_game_event_def Let_def split: prod.split)

section \<open>Properties\<close>

lemma refs_after_flush:
  assumes "analytics_inv s"
  shows "an_refs (flush_events s) i = (if i < an_next s \<and> i \<notin> set (an_requests s) then 1 else 0)"
    "an_refs (flush_events (flush_events s)) i =
      (if i \<in> set (an_requests s) then - 1 else if i < an_next s then 1 else 0)"
  using assms by (auto simp: analytics_inv_def flush_events_def fold_release)

text \<open>C37. What becomes of the requests: after any events and one flush, the game has given up its
  reference to exactly those requests that are still listed; a request that was erased because it
  had finished keeps the reference forever. After a crash, whose callback sends one more event and
  flushes, the destructor's flush releases every listed request once more than it was
  referenced.\<close>

theorem analytics_references:
  "let s = send_events json xs analytics_new; c = fst (breakpad_minidump_callback json st err d s) in
   an_refs (flush_events s) i = (if i < length xs \<and> i \<notin> set (an_requests s) then 1 else 0) \<and>
   an_refs (flush_events c) i = (if i \<in> set (an_requests c) then - 1 else if i \<le> length xs then 1 else 0)"
proof -
  let ?s = "send_events json xs analytics_new"
  let ?t = "fst (send_game_event json st err (fst (crash_event d)) (snd (crash_event d)) ?s)"
  have "analytics_inv analytics_new" by (simp add: analytics_inv_def analytics_new_def)
  then have inv: "analytics_inv ?s" by (rule analytics_inv_sends)
  have n: "an_next ?s = length xs" by (simp add: send_events_next analytics_new_def)
  then have "an_next ?t = Suc (length xs)" by (simp add: send_game_event_def Let_def split: prod.split)
  moreover have "fst (breakpad_minidump_callback json st err d ?s) = flush_events ?t"
    by (simp add: breakpad_minidump_callback_def case_prod_beta)
  moreover have "an_requests (flush_events ?t) = an_requests ?t" by (simp add: flush_events_def)
  ultimately show ?thesis
    using refs_after_flush(1) [OF inv, of i] refs_after_flush(2) [OF analytics_inv_send [OF inv], of json st err "fst (crash_event d)" "snd (crash_event d)" i] n
    by (simp add: Let_def less_Suc_eq_le)
qed

end
