(* ===== verification/Health.thy ===== *)
theory Health
  imports Float32
begin

text \<open>
  Taking damage. The player and Bertha share one contract: \<open>hit d\<close> subtracts damage from a
  health between 0 and 1, health never goes below 0, and the hit that brings it to 0 fires the
  death action, which never fires again. The components interpret the locale on their
  \<open>TakeDamage\<close>; \<open>hit\<close> also says whether the death action fired.
\<close>

text \<open>A run of hits: the state after it and how often the death action fired.\<close>

fun hits :: "(real \<Rightarrow> 's \<Rightarrow> 's \<times> bool) \<Rightarrow> real list \<Rightarrow> 's \<Rightarrow> 's \<times> nat" where
  "hits hit [] s = (s, 0)"
| "hits hit (d # ds) s =
     (case hit d s of (s1, b) \<Rightarrow> case hits hit ds s1 of (s2, n) \<Rightarrow> (s2, (if b then 1 else 0) + n))"

locale damageable = float_unit rnd
  for rnd :: "real \<Rightarrow> real" +
  fixes health :: "'s \<Rightarrow> real"
    and hit :: "real \<Rightarrow> 's \<Rightarrow> 's \<times> bool"
  assumes hit_dead: "health s \<le> 0 \<Longrightarrow> hit d s = (s, False)"
    and hit_alive: "0 < health s \<Longrightarrow>
      health (fst (hit d s)) = (if rnd (health s - d) \<le> 0 then 0 else rnd (health s - d)) \<and>
      snd (hit d s) = (rnd (health s - d) \<le> 0)"
begin

definition healthy :: "'s \<Rightarrow> bool" where
  "healthy s \<longleftrightarrow> 0 \<le> health s \<and> health s \<le> 1 \<and> rnd (health s) = health s"

lemma hit_healthy: "healthy s \<Longrightarrow> 0 \<le> d \<Longrightarrow> healthy (fst (hit d s))"
  using hit_dead [of s d] hit_alive [of s d] sub_le [of "health s" d] rnd_0
  by (cases "health s \<le> 0") (auto simp: healthy_def rnd_idem)

lemma hit_decreases: "healthy s \<Longrightarrow> 0 \<le> d \<Longrightarrow> health (fst (hit d s)) \<le> health s"
  using hit_dead [of s d] hit_alive [of s d] sub_le [of "health s" d]
  by (cases "health s \<le> 0") (auto simp: healthy_def)

lemma hit_fires: "healthy s \<Longrightarrow> snd (hit d s) \<longleftrightarrow> 0 < health s \<and> health (fst (hit d s)) = 0"
  using hit_dead [of s d] hit_alive [of s d] by (cases "health s \<le> 0") (auto simp: healthy_def)

lemma hits_dead: "health s \<le> 0 \<Longrightarrow> hits hit ds s = (s, 0)"
  by (induction ds) (simp_all add: hit_dead)

lemma hits_fire_once:
  "healthy s \<Longrightarrow> list_all (\<lambda>d. 0 \<le> d) ds \<Longrightarrow>
   healthy (fst (hits hit ds s)) \<and> health (fst (hits hit ds s)) \<le> health s \<and>
   snd (hits hit ds s) = (if 0 < health s \<and> health (fst (hits hit ds s)) = 0 then 1 else 0)"
proof (induction ds arbitrary: s)
  case (Cons d ds)
  let ?s = "fst (hit d s)"
  have h: "healthy ?s" "health ?s \<le> health s" "snd (hit d s) \<longleftrightarrow> 0 < health s \<and> health ?s = 0"
    using Cons.prems hit_healthy hit_decreases hit_fires by auto
  have IH: "healthy (fst (hits hit ds ?s)) \<and> health (fst (hits hit ds ?s)) \<le> health ?s \<and>
      snd (hits hit ds ?s) = (if 0 < health ?s \<and> health (fst (hits hit ds ?s)) = 0 then 1 else 0)"
    using Cons h(1) by simp
  have "health ?s = 0 \<Longrightarrow> hits hit ds ?s = (?s, 0)" by (simp add: hits_dead)
  then show ?case using IH h by (auto simp: case_prod_beta healthy_def split: if_splits)
qed simp

text \<open>How many hits of the same damage it takes, with the rounding error of each.\<close>

lemma hits_snoc: "fst (hits hit (ds @ [d]) s) = fst (hit d (fst (hits hit ds s)))"
  by (induction ds arbitrary: s) (simp_all add: case_prod_beta)

definition ulp1 :: real where
  "ulp1 = 1 / 2 ^ 24 + 1 / 2 ^ 150"

lemma sub_err: "\<bar>h - d\<bar> \<le> 1 \<Longrightarrow> \<bar>rnd (h - d) - (h - d)\<bar> \<le> ulp1"
  using rnd_err [of "h - d"] by (simp add: ulp1_def)

lemma replicate_hits:
  assumes "healthy s" "0 \<le> d" "d \<le> 1"
  shows "health (fst (hits hit (replicate n d) s)) \<le> max 0 (health s - of_nat n * (d - ulp1)) \<and>
    (of_nat n * (d + ulp1) < health s \<longrightarrow>
      health s - of_nat n * (d + ulp1) \<le> health (fst (hits hit (replicate n d) s)))"
proof (induction n)
  case 0
  then show ?case using assms(1) by (simp add: healthy_def)
next
  case (Suc n)
  let ?s = "fst (hits hit (replicate n d) s)"
  have h: "healthy ?s" using hits_fire_once [OF assms(1), of "replicate n d"] assms(2) by (simp add: list_all_iff)
  have n: "fst (hits hit (replicate (Suc n) d) s) = fst (hit d ?s)"
    using hits_snoc [of "replicate n d" d s] by (simp add: replicate_append_same)
  have u: "0 \<le> ulp1" by (simp add: ulp1_def)
  show ?case
  proof (cases "0 < health ?s")
    case True
    have "\<bar>health ?s - d\<bar> \<le> 1" using h assms(2,3) by (auto simp: healthy_def abs_le_iff)
    then have e: "\<bar>rnd (health ?s - d) - (health ?s - d)\<bar> \<le> ulp1" by (rule sub_err)
    have new: "health (fst (hit d ?s)) = max 0 (rnd (health ?s - d))"
      using hit_alive [OF True, of d] by (auto simp: max_def)
    have "health (fst (hit d ?s)) \<le> max 0 (health s - of_nat (Suc n) * (d - ulp1))"
      using Suc.IH new e True by (simp add: algebra_simps) linarith
    moreover have "health s - of_nat (Suc n) * (d + ulp1) \<le> health (fst (hit d ?s))"
      if "of_nat (Suc n) * (d + ulp1) < health s"
    proof -
      have "of_nat n * (d + ulp1) \<le> of_nat (Suc n) * (d + ulp1)"
        using assms(2) u by (intro mult_right_mono) auto
      then show ?thesis using that Suc.IH new e by (simp add: algebra_simps) linarith
    qed
    ultimately show ?thesis unfolding n by blast
  next
    case False
    then have z: "fst (hit d ?s) = ?s" using hit_dead by simp
    have "\<not> of_nat n * (d + ulp1) < health s" using Suc.IH False by (auto simp: not_less)
    then have "\<not> of_nat (Suc n) * (d + ulp1) < health s" using assms(2) u by (simp add: algebra_simps)
    then show ?thesis unfolding n z using False h by (auto simp: healthy_def)
  qed
qed

text \<open>Hits of half a percent each.\<close>

lemma half_percent: "1 / 200 - ulp1 \<le> rnd (1 / 200)" "rnd (1 / 200) \<le> 1 / 200 + ulp1"
proof -
  have "\<bar>rnd (1 / 200) - 1 / 200\<bar> \<le> (1 / 200) / 2 ^ 24 + 1 / 2 ^ 150" using rnd_err [of "1 / 200"] by simp
  also have "\<dots> \<le> ulp1" by (simp add: ulp1_def)
  finally show "1 / 200 - ulp1 \<le> rnd (1 / 200)" "rnd (1 / 200) \<le> 1 / 200 + ulp1"
    by (simp_all add: abs_le_iff)
qed

lemma hits_200:
  assumes "health s = 1"
  shows "0 < health (fst (hits hit (replicate 199 (rnd (1 / 200))) s))"
    and "health (fst (hits hit (replicate 201 (rnd (1 / 200))) s)) = 0"
proof -
  let ?d = "rnd (1 / 200)"
  have u: "ulp1 \<le> 1 / 1000000" "0 \<le> ulp1" by (simp_all add: ulp1_def)
  have d: "0 \<le> ?d" "?d \<le> 1" using half_percent u by linarith+
  have h: "healthy s" using assms rnd_1 by (simp add: healthy_def)
  note r = replicate_hits [OF h d]
  show "0 < health (fst (hits hit (replicate 199 ?d) s))"
    using r [of 199] half_percent u assms by simp
  have "0 \<le> health (fst (hits hit (replicate 201 ?d) s))"
    using hits_fire_once [OF h, of "replicate 201 ?d"] d(1) by (simp add: list_all_iff healthy_def)
  then show "health (fst (hits hit (replicate 201 ?d) s)) = 0"
    using r [of 201] half_percent u assms by simp
qed

end

end
