(* ===== verification/Person.thy ===== *)
theory Person
  imports Engine Health
begin

text \<open>
  The player (\<open>src/Person.cpp\<close>): health, the path being walked, facing, and the frame
  update that turns input into a path, a velocity and a material. The input the update reads
  is the record \<open>person_in\<close>; the properties of engine objects the component writes (the
  body's velocity, the models' materials, the search light) are fields of the state.
\<close>

section \<open>State\<close>

datatype health_label = Health_Unknown | Health_Percent int

record person =
  p_path :: "vec3 list"
  p_direction :: vec3
  p_health :: real
  p_showHealth :: bool
  p_healthBar :: "health_label option"
  p_velocity :: vec3
  p_rot :: quat
  p_material :: string
  p_shadow :: string
  p_lightOn :: bool
  p_lightRot :: quat

text \<open>\<open>joyAxes\<close>: axes 0 and 1 of the current joystick, if the engine has one with that index.
  \<open>touchFree\<close>: \<open>Some b\<close> when a finger is down, \<open>b\<close> when it is on no UI element. \<open>mousePick\<close>
  and \<open>touchPick\<close>: where the ray through the cursor or the finger meets the level. \<open>roomDark\<close>:
  the \<open>dark\<close> variable of a room's node, if the scene has that node.\<close>

record person_in =
  mouseVisible :: bool
  joyIndex :: int
  joyAxes :: "(real \<times> real) option"
  touchFree :: "bool option"
  mousePick :: "vec3 option"
  touchPick :: "vec3 option"
  mouseDown :: bool
  mousePress :: bool
  cameraYaw :: real
  lightWorldRot :: quat
  roomDark :: "int \<times> int \<Rightarrow> bool option"

definition P_MOVE_SPEED :: real where
  "P_MOVE_SPEED = 2"

text \<open>The constructor sets the health and the bar; the other fields start as the engine and
  the allocator leave them.\<close>

definition person_new :: "person \<Rightarrow> person" where
  "person_new p = p\<lparr>p_path := [], p_health := 1, p_showHealth := False, p_healthBar := None\<rparr>"

definition person_set_path :: "vec3 list \<Rightarrow> person \<Rightarrow> person" where
  "person_set_path path p = p\<lparr>p_path := [] @ path\<rparr>"

definition person_show_health :: "person \<Rightarrow> person" where
  "person_show_health p = p\<lparr>p_showHealth := True\<rparr>"

definition person_take_damage :: "urho \<Rightarrow> real \<Rightarrow> person \<Rightarrow> person \<times> effect list" where
  "person_take_damage E damage p =
     (if p_health p \<le> 0 then (p, [])
      else (let p1 = p\<lparr>p_health := fsub E (p_health p) damage\<rparr>
            in if p_health p1 \<le> 0 then (p1\<lparr>p_health := 0\<rparr>, [End_Level True False])
               else (p1, [])))"

section \<open>Update\<close>

text \<open>The health bar at the top of the screen.\<close>

definition person_health_bar :: "urho \<Rightarrow> person \<Rightarrow> person" where
  "person_health_bar E p =
     (let p1 = (if p_showHealth p \<and> p_healthBar p = None then p\<lparr>p_healthBar := Some Health_Unknown\<rparr>
                else if p_healthBar p \<noteq> None \<and> \<not> p_showHealth p then p\<lparr>p_healthBar := None\<rparr>
                else p)
      in if p_healthBar p1 \<noteq> None
         then p1\<lparr>p_healthBar := Some (Health_Percent (c_round (fmul E (p_health p1) 100)))\<rparr>
         else p1)"

text \<open>The search light is on in dark rooms and turns towards the direction of travel. A room
  without a node is a null pointer.\<close>

definition person_light :: "urho \<Rightarrow> scene \<Rightarrow> real \<Rightarrow> person_in \<Rightarrow> person \<Rightarrow> person option" where
  "person_light E sc dt inp p =
     (let room = room_of E (person_pos sc) in
      case roomDark inp (fst room + 1, snd room + 1) of
        None \<Rightarrow> None
      | Some dark \<Rightarrow>
          (let r = q_between E vec_FORWARD (p_direction p);
               r = q_norm E (q_mul E r (q_axis E 30 vec_RIGHT));
               r = q_slerp E (lightWorldRot inp) r (fmul E 5 dt)
           in Some (p\<lparr>p_lightOn := dark, p_lightRot := r, p_rot := q_axis E (cameraYaw inp) vec_UP\<rparr>)))"

text \<open>The stick: the target and whether it is out of the dead zone.\<close>

definition person_stick :: "urho \<Rightarrow> vec3 \<Rightarrow> person_in \<Rightarrow> person \<Rightarrow> vec3 \<Rightarrow> bool \<times> vec3" where
  "person_stick E pos inp p target =
     (case joyAxes inp of
        None \<Rightarrow> (False, target)
      | Some (x, y) \<Rightarrow>
          (let offset = V3 (- x) 0 (- y);
               len = vec_len E offset;
               offset = vec_scale E (q_rot E (q_between E offset (node_dir E (p_rot p))) vec_FORWARD) (min len 1)
           in if 1 / 4 < len then (True, vec_add E pos (vec_scale E offset (1 / 4)))
              else (False, target)))"

definition person_aim :: "urho \<Rightarrow> scene \<Rightarrow> person_in \<Rightarrow> person \<Rightarrow> vec3" where
  "person_aim E sc inp p =
     (let target = vec_add E (person_pos sc) (p_direction p) in
      if joyIndex inp = - 1
      then (case (if mouseVisible inp then mousePick inp else touchPick inp) of
              None \<Rightarrow> target
            | Some hit \<Rightarrow> hit\<lparr>vy := 0\<rparr>)
      else target)"

definition person_steer :: "urho \<Rightarrow> scene \<Rightarrow> person_in \<Rightarrow> person \<Rightarrow> person \<times> effect list" where
  "person_steer E sc inp p =
     (if mouseVisible inp \<or> joyIndex inp \<noteq> - 1 \<or> touchFree inp = Some True
      then (let position = person_pos sc;
                (hasJoyMove, target) = person_stick E position inp p (person_aim E sc inp p);
                (p1, es) =
                  (if hasJoyMove \<or> (joyIndex inp = - 1 \<and> \<not> mouseVisible inp) \<or> mouseDown inp \<or> mousePress inp
                   then (let meshTarget = find_nearest sc target (V3 1 (flt E (1 / 100)) 1)
                         in (p\<lparr>p_path := v_erase 0 (find_path sc position meshTarget)\<rparr>,
                             if mousePress inp then [Create_Node ''ClickMarker'' meshTarget] else []))
                   else (p, []));
                d = vec_sub E (case p_path p1 of [] \<Rightarrow> target | q # _ \<Rightarrow> q) position
            in (p1\<lparr>p_direction := vec_norm E (d\<lparr>vy := 0\<rparr>)\<rparr>, es))
      else (p, []))"

text \<open>Facing: which of the four sides is shown for the yaw between the camera and the
  direction, animated while there is a path to walk.\<close>

datatype facing = Face_Front | Face_Left | Face_Right | Face_Back

definition facing_of :: "real \<Rightarrow> facing" where
  "facing_of angle =
     (if angle < - 120 \<or> 120 < angle then Face_Front
      else if angle < - 60 then Face_Left
      else if 60 < angle then Face_Right
      else Face_Back)"

fun person_material :: "facing \<Rightarrow> bool \<Rightarrow> string" where
  "person_material Face_Front still = (if still then ''MaverickForward'' else ''MaverickForwardAnimated'')"
| "person_material Face_Left still = (if still then ''MaverickLeft'' else ''MaverickLeftAnimated'')"
| "person_material Face_Right still = (if still then ''MaverickRight'' else ''MaverickRightAnimated'')"
| "person_material Face_Back still = (if still then ''MaverickBack'' else ''MaverickBackAnimated'')"

definition person_shadow_material :: "facing \<Rightarrow> string" where
  "person_shadow_material f =
     (if f = Face_Left \<or> f = Face_Right then ''MaverickForwardShadow'' else ''MaverickLeftShadow'')"

definition person_face :: "urho \<Rightarrow> person \<Rightarrow> person" where
  "person_face E p =
     (let f = facing_of (q_yaw E (q_between E (node_dir E (p_rot p)) (p_direction p)))
      in p\<lparr>p_material := person_material f (p_path p = []), p_shadow := person_shadow_material f\<rparr>)"

definition person_walk :: "urho \<Rightarrow> scene \<Rightarrow> real \<Rightarrow> person \<Rightarrow> person" where
  "person_walk E sc dt p =
     (case p_path p of
        [] \<Rightarrow> p\<lparr>p_velocity := vec_ZERO\<rparr>
      | next # _ \<Rightarrow>
          (let offset = (vec_sub E next (person_pos sc))\<lparr>vy := 0\<rparr>;
               distance = vec_len2 E offset;
               p1 = (if distance < 1 / 16 \<or>
                        distance < fmul E (fmul E (P_MOVE_SPEED * P_MOVE_SPEED) dt) dt
                     then p\<lparr>p_path := v_erase 0 (p_path p)\<rparr> else p)
           in p1\<lparr>p_velocity := vec_scale E (vec_norm E offset) P_MOVE_SPEED\<rparr>))"

definition person_update ::
  "urho \<Rightarrow> scene \<Rightarrow> real \<Rightarrow> person_in \<Rightarrow> person \<Rightarrow> (person \<times> effect list) option" where
  "person_update E sc dt inp p =
     (case person_light E sc dt inp (person_health_bar E p) of
        None \<Rightarrow> None
      | Some p1 \<Rightarrow>
          (case person_steer E sc inp p1 of
             (p2, es) \<Rightarrow> Some (person_walk E sc dt (person_face E p2), es)))"

section \<open>Interfaces\<close>

text \<open>Whoever walks a path drops at most its first point in a step.\<close>

locale path_walker =
  fixes path :: "'s \<Rightarrow> vec3 list"
    and walk :: "'i \<Rightarrow> 's \<Rightarrow> 's"
  assumes walk_path: "path (walk i s) = path s \<or> path (walk i s) = tl (path s)"
begin

lemma walks_suffix: "\<exists>k. k \<le> length is \<and> path (foldl (\<lambda>s i. walk i s) s is) = drop k (path s)"
proof (induction "is" arbitrary: s)
  case (Cons i "is")
  then obtain k where k: "k \<le> length is" "path (foldl (\<lambda>s i. walk i s) (walk i s) is) = drop k (path (walk i s))"
    by blast
  show ?case
  proof (cases "path (walk i s) = path s")
    case True
    then show ?thesis using k by (intro exI [of _ k]) simp
  next
    case False
    then have "path (walk i s) = tl (path s)" using walk_path by blast
    then show ?thesis using k by (intro exI [of _ "Suc k"]) (simp add: drop_Suc)
  qed
qed simp

end

interpretation walker: path_walker p_path "\<lambda>(sc, dt). person_walk E sc dt" for E
  by unfold_locales (auto simp: person_walk_def Let_def split: list.split)

definition person_hit :: "urho \<Rightarrow> real \<Rightarrow> person \<Rightarrow> person \<times> bool" where
  "person_hit E d p = (case person_take_damage E d p of (p1, es) \<Rightarrow> (p1, es = [End_Level True False]))"

lemma person_damageable: "float_unit (flt E) \<Longrightarrow> damageable (flt E) p_health (person_hit E)"
  by (intro damageable.intro damageable_axioms.intro)
    (auto simp: person_hit_def person_take_damage_def Let_def)

interpretation player: damageable fl32 p_health "person_hit engine32"
  using person_damageable [of engine32] binary32.float_unit_axioms by simp

section \<open>Properties\<close>

lemma person_health_bar_frame [frame_simps]:
  "p_path (person_health_bar E p) = p_path p" "p_direction (person_health_bar E p) = p_direction p"
  "p_health (person_health_bar E p) = p_health p" "p_showHealth (person_health_bar E p) = p_showHealth p"
  by (simp_all add: person_health_bar_def Let_def)

lemma person_face_frame [frame_simps]:
  "p_path (person_face E p) = p_path p" "p_direction (person_face E p) = p_direction p"
  "p_health (person_face E p) = p_health p" "p_healthBar (person_face E p) = p_healthBar p"
  "p_velocity (person_face E p) = p_velocity p"
  by (simp_all add: person_face_def Let_def)

lemma person_walk_frame [frame_simps]:
  "p_direction (person_walk E sc dt p) = p_direction p" "p_health (person_walk E sc dt p) = p_health p"
  "p_healthBar (person_walk E sc dt p) = p_healthBar p" "p_material (person_walk E sc dt p) = p_material p"
  by (simp_all add: person_walk_def Let_def split: list.split)

lemma person_light_frame [frame_simps]:
  "person_light E sc dt inp p = Some p' \<Longrightarrow>
     p_path p' = p_path p \<and> p_direction p' = p_direction p \<and> p_health p' = p_health p \<and>
     p_healthBar p' = p_healthBar p"
  by (auto simp: person_light_def Let_def split: option.splits)

lemma person_steer_frame [frame_simps]:
  "p_health (fst (person_steer E sc inp p)) = p_health p"
  "p_healthBar (fst (person_steer E sc inp p)) = p_healthBar p"
  by (auto simp: person_steer_def Let_def split: prod.splits)

text \<open>C14. However often the player is hit and however hard, health stays between 0 and 1, and
  the level ends as lost exactly once, on the hit that brings health to 0; later hits do
  nothing. This holds for \<open>float\<close> arithmetic, whatever it rounds.\<close>

theorem person_dies_once:
  assumes "float_unit (flt E)" "0 \<le> p_health p" "p_health p \<le> 1" "flt E (p_health p) = p_health p"
    and "list_all (\<lambda>d. 0 \<le> d) ds"
  shows "case hits (person_hit E) ds p of (p', deaths) \<Rightarrow>
     0 \<le> p_health p' \<and> p_health p' \<le> p_health p \<and>
     deaths = (if 0 < p_health p \<and> p_health p' = 0 then 1 else 0)"
  using damageable.hits_fire_once [OF person_damageable [OF assms(1)], of p ds] assms
  by (simp add: damageable.healthy_def [OF person_damageable [OF assms(1)]] case_prod_beta)

text \<open>A frame of the player is defined exactly when the scene has a node for the room the
  player is in; there is no other null pointer or empty vector in it.\<close>

theorem person_update_defined:
  "person_update E sc dt inp p = None \<longleftrightarrow>
   roomDark inp (fst (room_of E (person_pos sc)) + 1, snd (room_of E (person_pos sc)) + 1) = None"
  by (auto simp: person_update_def person_light_def Let_def split: option.splits prod.splits)

text \<open>Without input a frame only walks: the direction and the health are kept, no marker
  is placed, the first point of the path is dropped at most, the body stands still exactly
  when there was no path, otherwise it moves with the walking speed along the horizontal offset
  to the first point.\<close>

theorem person_walks_without_input:
  assumes "\<not> mouseVisible inp" "joyIndex inp = - 1" "touchFree inp \<noteq> Some True"
    and "person_update E sc dt inp p = Some (p', es)"
  shows "es = [] \<and> p_direction p' = p_direction p \<and> p_health p' = p_health p \<and>
     p_path p' \<in> {p_path p, tl (p_path p)} \<and>
     p_velocity p' = (case p_path p of [] \<Rightarrow> vec_ZERO
        | next # _ \<Rightarrow> vec_scale E (vec_norm E ((vec_sub E next (person_pos sc))\<lparr>vy := 0\<rparr>)) 2)"
proof -
  obtain p1 where l: "person_light E sc dt inp (person_health_bar E p) = Some p1"
    using assms(4) by (auto simp: person_update_def split: option.splits)
  have st: "person_steer E sc inp p1 = (p1, [])" using assms(1-3) by (simp add: person_steer_def)
  then have p': "p' = person_walk E sc dt (person_face E p1)" "es = []"
    using assms(4) l by (simp_all add: person_update_def)
  have f: "p_path p1 = p_path p" "p_direction p1 = p_direction p" "p_health p1 = p_health p"
    using person_light_frame [OF l] by (simp_all add: frame_simps)
  have "p_path p' \<in> {p_path p, tl (p_path p)}"
    using walker.walk_path [where E = E and i = "(sc, dt)" and s = "person_face E p1"]
    by (simp add: p' f frame_simps)
  moreover have "p_velocity p' = (case p_path p of [] \<Rightarrow> vec_ZERO
        | next # _ \<Rightarrow> vec_scale E (vec_norm E ((vec_sub E next (person_pos sc))\<lparr>vy := 0\<rparr>)) 2)"
    by (simp add: p' person_walk_def Let_def frame_simps f P_MOVE_SPEED_def split: list.split)
  ultimately show ?thesis by (simp add: p' f frame_simps)
qed

text \<open>A click on the level places one marker, on the navigation mesh next to the point under
  the cursor, and the path the player then walks leads from its position to that same point.\<close>

theorem person_click:
  assumes "mouseVisible inp" "mousePress inp" "joyIndex inp = - 1" "joyAxes inp = None"
    and "mousePick inp = Some hit"
    and "person_update E sc dt inp p = Some (p', es)"
  shows "\<exists>t. t = find_nearest sc (hit\<lparr>vy := 0\<rparr>) (V3 1 (flt E (1 / 100)) 1) \<and>
     es = [Create_Node ''ClickMarker'' t] \<and>
     p_path p' \<in> {tl (find_path sc (person_pos sc) t), tl (tl (find_path sc (person_pos sc) t))}"
proof -
  obtain p1 where l: "person_light E sc dt inp (person_health_bar E p) = Some p1"
    using assms(6) by (auto simp: person_update_def split: option.splits)
  let ?t = "find_nearest sc (hit\<lparr>vy := 0\<rparr>) (V3 1 (flt E (1 / 100)) 1)"
  obtain p2 where st: "person_steer E sc inp p1 = (p2, [Create_Node ''ClickMarker'' ?t])"
    "p_path p2 = tl (find_path sc (person_pos sc) ?t)"
    using assms(1-5) by (simp add: person_steer_def person_stick_def person_aim_def Let_def)
  have p': "p' = person_walk E sc dt (person_face E p2)" "es = [Create_Node ''ClickMarker'' ?t]"
    using assms(6) l st(1) by (simp_all add: person_update_def)
  then show ?thesis
    using walker.walk_path [where E = E and i = "(sc, dt)" and s = "person_face E p2"] st(2)
    by (auto simp: frame_simps)
qed

text \<open>Values for the witnesses.\<close>

definition person0 :: person where
  "person0 = \<lparr>p_path = [V3 5 0 0, V3 6 0 0], p_direction = vec_FORWARD, p_health = 1, p_showHealth = False,
     p_healthBar = None, p_velocity = vec_ZERO, p_rot = quat0, p_material = [], p_shadow = [],
     p_lightOn = False, p_lightRot = quat0\<rparr>"

definition person_in0 :: person_in where
  "person_in0 = \<lparr>mouseVisible = False, joyIndex = - 1, joyAxes = None, touchFree = None,
     mousePick = Some (V3 4 0 4), touchPick = None, mouseDown = False, mousePress = False,
     cameraYaw = 0, lightWorldRot = quat0, roomDark = (\<lambda>_. Some False)\<rparr>"

lemma person0_sel [simp]:
  "p_health person0 = 1" "p_path person0 = [V3 5 0 0, V3 6 0 0]" "p_direction person0 = vec_FORWARD"
  by (simp_all add: person0_def)

lemma person_in0_sel [simp]:
  "mouseVisible person_in0 = False" "joyIndex person_in0 = - 1" "touchFree person_in0 = None"
  "roomDark person_in0 r = Some False" "joyAxes person_in0 = None"
  by (simp_all add: person_in0_def)

theorem person_dies_once_witness:
  "case hits (person_hit engine32) [1/4, 3/4, 1] person0 of (p', deaths) \<Rightarrow>
     0 \<le> p_health p' \<and> p_health p' \<le> 1 \<and> deaths = (if p_health p' = 0 then 1 else 0)"
  using person_dies_once [of engine32 person0 "[1/4, 3/4, 1]"] binary32.float_unit_axioms
  by (simp add: binary32.rnd_1 del: hits.simps)

theorem person_walks_without_input_witness:
  "\<exists>p'. person_update engine32 scene0 (1 / 64) person_in0 person0 = Some (p', []) \<and>
     p_velocity p' = vec_scale engine32 (vec_norm engine32 ((vec_sub engine32 (V3 5 0 0) vec_ZERO)\<lparr>vy := 0\<rparr>)) 2"
proof -
  have "person_update engine32 scene0 (1 / 64) person_in0 person0 \<noteq> None"
    by (simp add: person_update_defined)
  then obtain p' es where u: "person_update engine32 scene0 (1 / 64) person_in0 person0 = Some (p', es)"
    by auto
  have "\<not> mouseVisible person_in0" "joyIndex person_in0 = - 1" "touchFree person_in0 \<noteq> Some True"
    by simp_all
  from person_walks_without_input [OF this u] u show ?thesis by simp
qed

theorem person_click_witness:
  "\<exists>p'. person_update engine32 scene0 (1 / 64)
      (person_in0\<lparr>mouseVisible := True, mousePress := True\<rparr>) person0 =
     Some (p', [Create_Node ''ClickMarker'' (V3 4 0 4)])"
proof -
  let ?inp = "person_in0\<lparr>mouseVisible := True, mousePress := True\<rparr>"
  have "person_update engine32 scene0 (1 / 64) ?inp person0 \<noteq> None"
    by (simp add: person_update_defined)
  then obtain p' es where u: "person_update engine32 scene0 (1 / 64) ?inp person0 = Some (p', es)"
    by auto
  have "mousePick ?inp = Some (V3 4 0 4)" by (simp add: person_in0_def)
  from person_click [OF _ _ _ _ this u] u show ?thesis by simp
qed

end
