(* ===== verification/Guard.thy ===== *)
theory Guard
  imports Person
begin

text \<open>
  The guards (\<open>src/Guard.cpp\<close>): each walks its waypoints, notices the player in its field
  of view, walks towards sounds, and ends the level when it touches the player. \<open>self\<close> is
  the guard's node. The pointer accesses \<open>waypoints_[0]\<close> and \<open>path_.Front()\<close> are
  undefined when the vector is empty, so the update returns an \<open>option\<close>.
\<close>

section \<open>State\<close>

record guard =
  g_path :: "vec3 list"
  g_waypoints :: "vec3 list"
  g_hasSeenPlayer :: bool
  g_wasFollowingPlayer :: bool
  g_willHearSound :: bool
  g_soundPosition :: vec3
  g_velocity :: vec3
  g_rot :: quat
  g_material :: string
  g_lightRot :: quat
  g_lightColor :: color

definition G_MOVE_SPEED :: real where "G_MOVE_SPEED = 1"

definition G_VIEW_DISTANCE :: real where "G_VIEW_DISTANCE = 5"

definition G_VIEW_ANGLE :: real where "G_VIEW_ANGLE = 75"

definition G_DETECT_MOVE_SPEED :: "urho \<Rightarrow> real" where "G_DETECT_MOVE_SPEED E = flt E (12 / 10)"

definition guard_new :: "guard \<Rightarrow> guard" where
  "guard_new g = g\<lparr>g_path := [], g_waypoints := [], g_hasSeenPlayer := False,
     g_wasFollowingPlayer := False, g_willHearSound := False\<rparr>"

definition guard_set_waypoints :: "vec3 list \<Rightarrow> guard \<Rightarrow> guard" where
  "guard_set_waypoints ws g = g\<lparr>g_waypoints := ws, g_path := ws\<rparr>"

definition guard_has_seen_player :: "guard \<Rightarrow> bool" where
  "guard_has_seen_player g = g_hasSeenPlayer g"

definition guard_heard_sound :: "vec3 \<Rightarrow> guard \<Rightarrow> guard" where
  "guard_heard_sound pos g = g\<lparr>g_willHearSound := True, g_soundPosition := pos\<rparr>"

definition guard_set_path :: "vec3 list \<Rightarrow> guard \<Rightarrow> guard" where
  "guard_set_path path g = g\<lparr>g_path := [] @ path\<rparr>"

section \<open>Sight\<close>

definition guard_detect_player :: "urho \<Rightarrow> scene \<Rightarrow> node \<Rightarrow> guard \<Rightarrow> bool" where
  "guard_detect_player E sc self g =
     (let guardPosition = world_pos sc self;
          difference = vec_sub E (person_pos sc) guardPosition;
          len = vec_len E difference
      in if G_VIEW_DISTANCE < len then False
         else (let forward = vec_norm E (g_velocity g);
                   difference = vec_norm E difference
               in if vec_dot E forward difference < u_cos E (fdiv E G_VIEW_ANGLE 2) then False
                  else (let origin = vec_add E (vec_add E guardPosition (V3 0 (flt E (16 / 10)) 0))
                                       (vec_scale E forward (1 / 4))
                        in case raycast sc origin difference G_VIEW_DISTANCE of
                             None \<Rightarrow> True
                           | Some body \<Rightarrow> body = person_node sc)))"

section \<open>Walking\<close>

definition guard_follow_player :: "urho \<Rightarrow> scene \<Rightarrow> real \<Rightarrow> node \<Rightarrow> guard \<Rightarrow> guard" where
  "guard_follow_player E sc dt self g =
     (let guardPosition = world_pos sc self;
          g1 = g\<lparr>g_wasFollowingPlayer := True,
                 g_path := v_erase 0 (find_path sc guardPosition (person_pos sc))\<rparr>
      in case g_path g1 of
           [] \<Rightarrow> g1\<lparr>g_velocity := vec_ZERO\<rparr>
         | next # _ \<Rightarrow>
             (let offset = (vec_sub E next guardPosition)\<lparr>vy := 0\<rparr>;
                  speed = G_DETECT_MOVE_SPEED E;
                  g2 = (if vec_len2 E offset < fmul E (fmul E (fmul E speed speed) dt) dt
                        then g1\<lparr>g_path := v_erase 0 (g_path g1)\<rparr> else g1)
              in g2\<lparr>g_velocity := vec_scale E (vec_norm E offset) speed\<rparr>))"

definition guard_follow_waypoints :: "urho \<Rightarrow> scene \<Rightarrow> real \<Rightarrow> node \<Rightarrow> guard \<Rightarrow> guard option" where
  "guard_follow_waypoints E sc dt self g =
     (let position = world_pos sc self in
      case (if g_wasFollowingPlayer g \<and> g_path g = []
            then (case v_front (g_waypoints g) of
                    None \<Rightarrow> None
                  | Some w \<Rightarrow> Some (g\<lparr>g_path := v_erase 0 (find_path sc position w),
                                   g_wasFollowingPlayer := False\<rparr>))
            else Some g) of
        None \<Rightarrow> None
      | Some g1 \<Rightarrow>
          (let g2 = (if g_path g1 = [] then g1\<lparr>g_path := g_waypoints g1\<rparr> else g1) in
           case v_front (g_path g2) of
             None \<Rightarrow> None
           | Some next \<Rightarrow>
               (let offset = (vec_sub E next position)\<lparr>vy := 0\<rparr>;
                    g3 = (if (g_wasFollowingPlayer g2 \<and> length (g_path g2) = 1 \<and>
                              vec_len2 E offset < fmul E (fmul E (1 * 1) dt) dt) \<or>
                             vec_len2 E offset < fmul E (fmul E (G_MOVE_SPEED * G_MOVE_SPEED) dt) dt
                          then g2\<lparr>g_path := v_erase 0 (g_path g2)\<rparr> else g2)
                in Some (g3\<lparr>g_velocity := vec_scale E (vec_norm E offset) G_MOVE_SPEED\<rparr>))))"

section \<open>Update\<close>

definition guard_investigate :: "urho \<Rightarrow> scene \<Rightarrow> node \<Rightarrow> guard \<Rightarrow> guard" where
  "guard_investigate E sc self g =
     (let target = find_nearest sc ((g_soundPosition g)\<lparr>vy := 0\<rparr>) (V3 1 (flt E (1 / 100)) 1)
      in g\<lparr>g_wasFollowingPlayer := True,
           g_path := v_erase 0 (find_path sc (world_pos sc self) target),
           g_willHearSound := False\<rparr>)"

text \<open>A guard that stands still neither hears nor sees.\<close>

definition guard_sense :: "urho \<Rightarrow> scene \<Rightarrow> node \<Rightarrow> guard \<Rightarrow> guard \<times> bool" where
  "guard_sense E sc self g =
     (if 0 < vec_len2 E (g_velocity g)
      then (if g_willHearSound g then (guard_investigate E sc self g, False)
            else (g, guard_detect_player E sc self g))
      else (g, False))"

fun guard_material :: "facing \<Rightarrow> bool \<Rightarrow> string" where
  "guard_material Face_Front moving = (if moving then ''GuardForwardAnimated'' else ''GuardForward'')"
| "guard_material Face_Left moving = (if moving then ''GuardLeftAnimated'' else ''GuardLeft'')"
| "guard_material Face_Right moving = (if moving then ''GuardRightAnimated'' else ''GuardRight'')"
| "guard_material Face_Back moving = (if moving then ''GuardBackAnimated'' else ''GuardBack'')"

definition guard_show :: "urho \<Rightarrow> real \<Rightarrow> quat \<Rightarrow> bool \<Rightarrow> guard \<Rightarrow> guard" where
  "guard_show E dt lightWorld playerDetected g =
     (let velocity = g_velocity g;
          guardMoving = (0 < vec_len2 E velocity);
          angle = q_yaw E (q_between E (node_dir E (g_rot g)) velocity);
          g1 = g\<lparr>g_material := guard_material (facing_of angle) guardMoving\<rparr>
      in if \<not> guardMoving then g1
         else (let r = q_between E vec_FORWARD velocity;
                   r = q_norm E (q_mul E r (q_axis E 30 vec_RIGHT));
                   r = q_slerp E lightWorld r (fmul E 5 dt)
               in g1\<lparr>g_lightRot := r,
                     g_lightColor := (if guardMoving then (if playerDetected then RED else WHITE) else BLACK)\<rparr>))"

definition guard_update ::
  "urho \<Rightarrow> scene \<Rightarrow> real \<Rightarrow> real \<Rightarrow> quat \<Rightarrow> node \<Rightarrow> guard \<Rightarrow> guard option" where
  "guard_update E sc dt camYaw lightWorld self g =
     (case guard_sense E sc self (g\<lparr>g_rot := q_axis E camYaw vec_UP\<rparr>) of
        (g1, playerDetected) \<Rightarrow>
          map_option (guard_show E dt lightWorld playerDetected)
            (if playerDetected
             then Some (guard_follow_player E sc dt self (g1\<lparr>g_hasSeenPlayer := True\<rparr>))
             else guard_follow_waypoints E sc dt self g1))"

definition guard_collision :: "scene \<Rightarrow> node \<Rightarrow> effect list" where
  "guard_collision sc other = (if other \<noteq> person_node sc then [] else [End_Level True False])"

section \<open>Alarms\<close>

text \<open>The loop with which \<open>Laser::HandleNodeCollision\<close> and \<open>SecurityCamera::AlertGuards\<close>
  send the guards of a room, each by its own path, to where the player is.\<close>

definition send_guards :: "scene \<Rightarrow> (node \<times> guard) list \<Rightarrow> (node \<times> guard) list" where
  "send_guards sc gs =
     map (\<lambda>(n, g). (n, guard_set_path (find_path sc (world_pos sc n) (person_pos sc)) g)) gs"

section \<open>Lemmas\<close>

lemma guard_show_frame [frame_simps, simp]:
  "g_path (guard_show E dt r b g) = g_path g" "g_waypoints (guard_show E dt r b g) = g_waypoints g"
  "g_hasSeenPlayer (guard_show E dt r b g) = g_hasSeenPlayer g"
  "g_wasFollowingPlayer (guard_show E dt r b g) = g_wasFollowingPlayer g"
  "g_willHearSound (guard_show E dt r b g) = g_willHearSound g"
  "g_velocity (guard_show E dt r b g) = g_velocity g"
  by (simp_all add: guard_show_def Let_def)

lemma guard_follow_player_frame [frame_simps, simp]:
  "g_waypoints (guard_follow_player E sc dt self g) = g_waypoints g"
  "g_hasSeenPlayer (guard_follow_player E sc dt self g) = g_hasSeenPlayer g"
  "g_wasFollowingPlayer (guard_follow_player E sc dt self g)"
  by (simp_all add: guard_follow_player_def Let_def split: list.split)

lemma guard_follow_waypoints_None:
  "guard_follow_waypoints E sc dt self g = None \<longleftrightarrow> g_path g = [] \<and> g_waypoints g = []"
  by (auto simp: guard_follow_waypoints_def Let_def split: option.split)

lemma guard_follow_waypoints_frame [frame_simps]:
  "guard_follow_waypoints E sc dt self g = Some g' \<Longrightarrow>
     g_waypoints g' = g_waypoints g \<and> g_hasSeenPlayer g' = g_hasSeenPlayer g"
  by (auto simp: guard_follow_waypoints_def Let_def split: option.splits if_splits)

lemma guard_sense_frame [frame_simps]:
  "guard_sense E sc self g = (g', b) \<Longrightarrow>
     g_waypoints g' = g_waypoints g \<and> g_hasSeenPlayer g' = g_hasSeenPlayer g \<and>
     (b \<longrightarrow> g' = g \<and> guard_detect_player E sc self g)"
  by (auto simp: guard_sense_def guard_investigate_def Let_def split: if_splits)

lemma guard_update_frame:
  assumes "guard_update E sc dt yaw lr self g = Some g'"
  shows "g_waypoints g' = g_waypoints g \<and> (g_hasSeenPlayer g \<longrightarrow> g_hasSeenPlayer g')"
proof -
  obtain g1 b where s: "guard_sense E sc self (g\<lparr>g_rot := q_axis E yaw vec_UP\<rparr>) = (g1, b)"
    by (cases "guard_sense E sc self (g\<lparr>g_rot := q_axis E yaw vec_UP\<rparr>)") auto
  show ?thesis
    using assms guard_sense_frame [OF s] s
    by (auto simp: guard_update_def dest: guard_follow_waypoints_frame split: if_splits)
qed

lemma guard_update_defined:
  assumes "g_waypoints g \<noteq> []"
  shows "guard_update E sc dt yaw lr self g \<noteq> None"
proof -
  obtain g1 b where s: "guard_sense E sc self (g\<lparr>g_rot := q_axis E yaw vec_UP\<rparr>) = (g1, b)"
    by (cases "guard_sense E sc self (g\<lparr>g_rot := q_axis E yaw vec_UP\<rparr>)") auto
  then have "g_waypoints g1 \<noteq> []" using assms guard_sense_frame [OF s] by simp
  then show ?thesis using s guard_follow_waypoints_None [of E sc dt self g1]
    by (auto simp: guard_update_def)
qed

section \<open>Everything that happens to a guard\<close>

text \<open>After \<open>SetWaypoints\<close>, a guard is updated, hears thrown objects and is sent on paths
  by lasers and cameras, in any order; the scene may be another one in every frame.\<close>

datatype guard_event =
    G_Update scene real real quat
  | G_Sound vec3
  | G_Path "vec3 list"

fun guard_step :: "urho \<Rightarrow> node \<Rightarrow> guard_event \<Rightarrow> guard \<Rightarrow> guard option" where
  "guard_step E self (G_Update sc dt yaw lr) g = guard_update E sc dt yaw lr self g"
| "guard_step E self (G_Sound pos) g = Some (guard_heard_sound pos g)"
| "guard_step E self (G_Path path) g = Some (guard_set_path path g)"

fun guard_run :: "urho \<Rightarrow> node \<Rightarrow> guard_event list \<Rightarrow> guard \<Rightarrow> guard option" where
  "guard_run E self [] g = Some g"
| "guard_run E self (e # es) g =
     (case guard_step E self e g of None \<Rightarrow> None | Some g1 \<Rightarrow> guard_run E self es g1)"

lemma guard_step_keeps:
  assumes "g_waypoints g \<noteq> []"
  shows "\<exists>g'. guard_step E self e g = Some g' \<and> g_waypoints g' = g_waypoints g \<and>
    (g_hasSeenPlayer g \<longrightarrow> g_hasSeenPlayer g')"
proof (cases e)
  case (G_Update sc dt yaw lr)
  then obtain g' where "guard_update E sc dt yaw lr self g = Some g'"
    using guard_update_defined [OF assms] by blast
  then show ?thesis using G_Update guard_update_frame by auto
qed (simp_all add: guard_heard_sound_def guard_set_path_def)

lemma guard_run_keeps:
  "g_waypoints g \<noteq> [] \<Longrightarrow> \<exists>g'. guard_run E self es g = Some g' \<and> g_waypoints g' = g_waypoints g \<and>
    (g_hasSeenPlayer g \<longrightarrow> g_hasSeenPlayer g')"
proof (induction es arbitrary: g)
  case (Cons e es)
  obtain g1 where g1: "guard_step E self e g = Some g1" "g_waypoints g1 = g_waypoints g"
    "g_hasSeenPlayer g \<longrightarrow> g_hasSeenPlayer g1"
    using guard_step_keeps [OF Cons.prems] by blast
  then show ?case using Cons.IH [of g1] Cons.prems by auto
qed simp

section \<open>Properties\<close>

text \<open>C15. A guard that was given at least one waypoint never reads an empty vector, whatever
  happens to it: every sequence of frames, sounds and alarms is defined, its waypoints stay what
  they were, and once it has seen the player it has seen the player for the rest of the
  level.\<close>

theorem guard_never_stuck:
  assumes "ws \<noteq> []"
  shows "\<exists>g'. guard_run E self es (guard_set_waypoints ws g) = Some g' \<and> g_waypoints g' = ws \<and>
    (g_hasSeenPlayer g \<longrightarrow> g_hasSeenPlayer g')"
  using guard_run_keeps [of "guard_set_waypoints ws g" E self es] assms by (simp add: guard_set_waypoints_def)

text \<open>A frame of a guard reads an empty vector in one case only: it has no waypoints, does
  not see the player, and the path it follows, after hearing what it hears, is empty.\<close>

theorem guard_update_undefined:
  "guard_update E sc dt yaw lr self g = None \<longleftrightarrow>
   g_waypoints g = [] \<and>
   (case guard_sense E sc self (g\<lparr>g_rot := q_axis E yaw vec_UP\<rparr>) of
      (g1, seen) \<Rightarrow> \<not> seen \<and> g_path g1 = [])"
proof -
  obtain g1 b where s: "guard_sense E sc self (g\<lparr>g_rot := q_axis E yaw vec_UP\<rparr>) = (g1, b)"
    by (cases "guard_sense E sc self (g\<lparr>g_rot := q_axis E yaw vec_UP\<rparr>)") auto
  then show ?thesis using guard_sense_frame [OF s] guard_follow_waypoints_None [of E sc dt self g1]
    by (auto simp: guard_update_def)
qed

text \<open>A guard sees the player only when the player is no further than the view distance
  away, inside the field of view around the guard's direction of travel, and no body but the
  player's is on the ray from the guard's eyes.\<close>

theorem guard_detect_player_iff:
  "guard_detect_player E sc self g \<longleftrightarrow>
     vec_len E (vec_sub E (person_pos sc) (world_pos sc self)) \<le> 5 \<and>
     u_cos E (flt E (75 / 2)) \<le> vec_dot E (vec_norm E (g_velocity g))
        (vec_norm E (vec_sub E (person_pos sc) (world_pos sc self))) \<and>
     raycast sc
       (vec_add E (vec_add E (world_pos sc self) (V3 0 (flt E (16 / 10)) 0))
          (vec_scale E (vec_norm E (g_velocity g)) (1 / 4)))
       (vec_norm E (vec_sub E (person_pos sc) (world_pos sc self))) 5 \<in> {None, Some (person_node sc)}"
  by (auto simp: guard_detect_player_def Let_def G_VIEW_DISTANCE_def G_VIEW_ANGLE_def
      split: option.split)

section \<open>Patrol\<close>

text \<open>What a frame of \<open>FollowWaypoints\<close> does, as a reference: one arrival test.\<close>

definition guard_patrol_ref :: "urho \<Rightarrow> scene \<Rightarrow> real \<Rightarrow> node \<Rightarrow> guard \<Rightarrow> guard option" where
  "guard_patrol_ref E sc dt self g =
     (let back = (g_wasFollowingPlayer g \<and> g_path g = []);
          home = (if back then tl (find_path sc (world_pos sc self) (hd (g_waypoints g))) else g_path g);
          path = (if home = [] then g_waypoints g else home);
          offset = (vec_sub E (hd path) (world_pos sc self))\<lparr>vy := 0\<rparr>
      in if g_path g = [] \<and> g_waypoints g = [] then None
         else Some (g\<lparr>g_path := if vec_len2 E offset < fmul E (flt E dt) dt then tl path else path,
                      g_wasFollowingPlayer := g_wasFollowingPlayer g \<and> \<not> back,
                      g_velocity := vec_scale E (vec_norm E offset) 1\<rparr>))"

text \<open>The first of the two arrival tests in \<open>FollowWaypoints\<close> (for the last point of
  a path towards a sound) has the same threshold as the second, because the walking speed
  is 1: the routine behaves as one that drops the first point whenever it is closer than the
  step.\<close>

theorem guard_follow_waypoints_ref:
  "guard_follow_waypoints E sc dt self g = guard_patrol_ref E sc dt self g"
proof (cases "g_path g")
  case Nil
  then show ?thesis
    by (cases "g_waypoints g"; cases "find_path sc (world_pos sc self) (hd (g_waypoints g))";
        cases "tl (find_path sc (world_pos sc self) (hd (g_waypoints g)))")
      (auto simp: guard_follow_waypoints_def guard_patrol_ref_def G_MOVE_SPEED_def Let_def)
next
  case (Cons a r)
  then show ?thesis
    by (auto simp: guard_follow_waypoints_def guard_patrol_ref_def G_MOVE_SPEED_def Let_def)
qed

text \<open>One undisturbed frame on patrol: the place in the cycle of waypoints moves on by one at
  most, and starts over after the last.\<close>

lemma guard_patrol_step:
  assumes "g_waypoints g = ws" "ws \<noteq> []" "\<not> g_wasFollowingPlayer g" "g_path g = drop k ws" "k \<le> length ws"
  shows "\<exists>g' k'. guard_follow_waypoints E sc dt self g = Some g' \<and> g_waypoints g' = ws \<and>
    \<not> g_wasFollowingPlayer g' \<and> g_path g' = drop k' ws \<and> k' \<le> length ws \<and>
    k' \<in> {k mod length ws, Suc (k mod length ws)}"
proof -
  have p: "(if drop k ws = [] then ws else drop k ws) = drop (k mod length ws) ws"
    using assms(2,5) by (cases "k = length ws") auto
  then have p': "k < length ws \<Longrightarrow> drop k ws = drop (k mod length ws) ws" by simp
  have l: "k mod length ws < length ws" using assms(2) by simp
  let ?k = "\<lambda>b. if b then Suc (k mod length ws) else k mod length ws"
  have "\<exists>b. \<exists>g'. guard_follow_waypoints E sc dt self g = Some g' \<and> g_waypoints g' = ws \<and>
    \<not> g_wasFollowingPlayer g' \<and> g_path g' = drop (?k b) ws"
    unfolding guard_follow_waypoints_ref guard_patrol_ref_def Let_def
    using assms p by (auto simp: drop_Suc tl_drop)
  then obtain b g' where "guard_follow_waypoints E sc dt self g = Some g'" "g_waypoints g' = ws"
    "\<not> g_wasFollowingPlayer g'" "g_path g' = drop (?k b) ws" by blast
  moreover have "?k b \<le> length ws" "?k b \<in> {k mod length ws, Suc (k mod length ws)}" using l by auto
  ultimately show ?thesis by blast
qed

fun guard_patrol :: "urho \<Rightarrow> node \<Rightarrow> (scene \<times> real) list \<Rightarrow> guard \<Rightarrow> guard option" where
  "guard_patrol E self [] g = Some g"
| "guard_patrol E self ((sc, dt) # fs) g =
     (case guard_follow_waypoints E sc dt self g of None \<Rightarrow> None | Some g1 \<Rightarrow> guard_patrol E self fs g1)"


section \<open>Witnesses\<close>

definition guard0 :: guard where
  "guard0 = \<lparr>g_path = [], g_waypoints = [], g_hasSeenPlayer = False, g_wasFollowingPlayer = False,
     g_willHearSound = False, g_soundPosition = vec_ZERO, g_velocity = vec_ZERO, g_rot = quat0,
     g_material = [], g_lightRot = quat0, g_lightColor = WHITE\<rparr>"

theorem guard_never_stuck_witness:
  "\<exists>g'. guard_run engine32 7 [G_Update scene0 (1 / 64) 0 quat0, G_Sound vec_ZERO,
       G_Update scene0 (1 / 64) 0 quat0, G_Path [], G_Update scene0 (1 / 64) 0 quat0]
     (guard_set_waypoints [V3 1 0 0] guard0) = Some g' \<and> g_waypoints g' = [V3 1 0 0]"
  using guard_never_stuck [of "[V3 1 0 0]" engine32 7 "[G_Update scene0 (1 / 64) 0 quat0, G_Sound vec_ZERO,
       G_Update scene0 (1 / 64) 0 quat0, G_Path [], G_Update scene0 (1 / 64) 0 quat0]" guard0]
  by (auto simp del: guard_run.simps)


end
