(* ===== verification/Inventory.thy ===== *)
theory Inventory
  imports Engine "HOL-Library.Multiset"
begin

text \<open>
  The player's inventory (\<open>src/Inventory.cpp\<close>) and the objects that fill it
  (\<open>src/Pickup.cpp\<close>). The locale \<open>item_store\<close> is what the other components rely on:
  \<open>Pickup\<close> adds items, \<open>Padlock\<close> looks one up, \<open>Thrower\<close> takes one out,
  \<open>Game::EndLevel\<close> counts them.
\<close>

section \<open>Items and the inventory\<close>

text \<open>A \<open>SharedPtr<Pickup>\<close> is its node, the identity \<open>Vector::Remove\<close> compares,
  with the type and the name the pickup was loaded with.\<close>

record item =
  i_node :: node
  i_type :: string
  i_name :: string

record ui_cell =
  cell_x :: int
  cell_y :: int
  cell_w :: int
  cell_label :: string

text \<open>The inventory panel is drawn by the component: its children are the cells, its parent's
  visibility is \<open>inv_visible\<close>. The constructor initialises neither \<open>dirty_\<close> nor
  \<open>panel_\<close>, so the initial \<open>dirty_\<close> is an argument.\<close>

record inventory =
  inv_dirty :: bool
  inv_items :: "item list"
  inv_cells :: "ui_cell list"
  inv_visible :: bool
  inv_panel_w :: int

definition PADDING :: int where
  "PADDING = 20"

definition inv_new :: "bool \<Rightarrow> inventory" where
  "inv_new d = \<lparr>inv_dirty = d, inv_items = [], inv_cells = [], inv_visible = False, inv_panel_w = 0\<rparr>"

definition inv_delayed_start :: "int \<Rightarrow> inventory \<Rightarrow> inventory" where
  "inv_delayed_start pw s = s\<lparr>inv_cells := [], inv_visible := False, inv_panel_w := pw\<rparr>"

definition add_item :: "item \<Rightarrow> inventory \<Rightarrow> inventory" where
  "add_item i s = s\<lparr>inv_items := v_push (inv_items s) i, inv_dirty := True\<rparr>"

definition get_item_count :: "inventory \<Rightarrow> int" where
  "get_item_count s = int (length (inv_items s))"

fun remove_ptr :: "node \<Rightarrow> item list \<Rightarrow> item list" where
  "remove_ptr n [] = []"
| "remove_ptr n (i # is) = (if i_node i = n then is else i # remove_ptr n is)"

definition get_item_of_type :: "urho \<Rightarrow> string \<Rightarrow> bool \<Rightarrow> inventory \<Rightarrow> item option \<times> inventory" where
  "get_item_of_type E ty rm s =
     (let ret = find (\<lambda>i. str_ieq E (i_type i) ty) (inv_items s) in
      case ret of
        None \<Rightarrow> (None, s)
      | Some i \<Rightarrow> (Some i, if rm then s\<lparr>inv_items := remove_ptr (i_node i) (inv_items s)\<rparr> else s))"

section \<open>Drawing\<close>

text \<open>\<open>Update\<close> lays the items out in rows, left to right. \<open>PADDING * pixelRatio\<close> is a
  \<open>float\<close>; \<open>x\<close>, \<open>y\<close> and \<open>w\<close> are \<open>int\<close>, so every assignment truncates.\<close>

definition pad :: "urho \<Rightarrow> real \<Rightarrow> real" where
  "pad E pr = fmul E (of_int PADDING) pr"

definition cell_width :: "urho \<Rightarrow> real \<Rightarrow> int \<Rightarrow> int" where
  "cell_width E pr W =
     c_trunc (fdiv E (fsub E (flt E (of_int W)) (fmul E (of_int (PADDING * 6)) pr)) 5)"

definition cell_advance :: "urho \<Rightarrow> real \<Rightarrow> int \<Rightarrow> int \<Rightarrow> int" where
  "cell_advance E pr w p = c_trunc (fadd E (flt E (of_int p)) (fadd E (flt E (of_int w)) (pad E pr)))"

fun layout :: "urho \<Rightarrow> real \<Rightarrow> int \<Rightarrow> int \<Rightarrow> int \<Rightarrow> int \<Rightarrow> item list \<Rightarrow> ui_cell list" where
  "layout E pr W w x y [] = []"
| "layout E pr W w x y (i # is) =
     \<lparr>cell_x = x, cell_y = y, cell_w = w, cell_label = i_name i\<rparr> #
     (let x' = cell_advance E pr w x in
      if fsub E (flt E (of_int W)) (pad E pr) \<le> flt E (of_int x')
      then layout E pr W w (c_trunc (pad E pr)) (cell_advance E pr w y) is
      else layout E pr W w x' y is)"

definition inventory_cells :: "urho \<Rightarrow> real \<Rightarrow> int \<Rightarrow> item list \<Rightarrow> ui_cell list" where
  "inventory_cells E pr W is =
     layout E pr W (cell_width E pr W) (c_trunc (pad E pr)) (c_trunc (pad E pr)) is"

text \<open>\<open>joyTab\<close> is the joystick's button 3 where a joystick is there (\<open>GetJoystick\<close> of the
  current index is not null), \<open>keyTab\<close> the tab key.\<close>

definition inventory_update :: "urho \<Rightarrow> real \<Rightarrow> bool option \<Rightarrow> bool \<Rightarrow> inventory \<Rightarrow> inventory" where
  "inventory_update E pr joyTab keyTab s =
     (let tabDown = ((case joyTab of None \<Rightarrow> False | Some b \<Rightarrow> b) \<or> keyTab) in
      if \<not> tabDown then s\<lparr>inv_visible := False\<rparr>
      else (let s1 = (if inv_dirty s
                      then s\<lparr>inv_cells := inventory_cells E pr (inv_panel_w s) (inv_items s)\<rparr>
                      else s)
            in s1\<lparr>inv_visible := True\<rparr>))"

section \<open>Pickups\<close>

record pickup =
  pk_item :: item
  pk_height :: real
  pk_rot :: quat
  pk_pos :: vec3
  pk_enabled :: bool
  pk_component_on :: bool
  pk_trigger :: bool
  pk_keys :: "(real \<times> real) list"

definition pickup_load :: "xml \<Rightarrow> pickup \<Rightarrow> pickup" where
  "pickup_load x p =
     (let ty = (if has_attr x ''type'' then get_attr x ''type'' else get_attr x ''model'');
          nm = (if has_attr x ''name'' then get_attr x ''name'' else ty)
      in p\<lparr>pk_item := (pk_item p)\<lparr>i_type := ty, i_name := nm\<rparr>\<rparr>)"

definition pickup_delayed_start :: "urho \<Rightarrow> pickup \<Rightarrow> pickup" where
  "pickup_delayed_start E p =
     p\<lparr>pk_trigger := True,
       pk_keys := [(0, flt E (1 / 5)), (1, flt E (2 / 5)), (2, flt E (1 / 5))]\<rparr>"

text \<open>\<open>colliders\<close> are the nodes of the bodies that touch the pickup's; \<open>toWorld\<close> is the
  transform of the node's parent. The pickup is drawn at its animated height; when the first
  body that touches it is the person's, it goes into the inventory and its node is disabled.\<close>

definition pickup_update ::
  "urho \<Rightarrow> scene \<Rightarrow> real \<Rightarrow> node list \<Rightarrow> (vec3 \<Rightarrow> vec3) \<Rightarrow> pickup \<Rightarrow> inventory
     \<Rightarrow> pickup \<times> inventory \<times> effect list" where
  "pickup_update E sc dt colliders toWorld p iv =
     (let p1 = p\<lparr>pk_rot := n_rotate E (pk_rot p) (q_axis E (fmul E 30 dt) vec_UP),
                 pk_pos := (pk_pos p)\<lparr>vy := pk_height p\<rparr>\<rparr>
      in if colliders \<noteq> [] \<and> v_front colliders = Some (person_node sc)
         then (p1\<lparr>pk_enabled := False\<rparr>, add_item (pk_item p1) iv,
               [Create_Node ''SoundEffect'' (toWorld (pk_pos p1)), Play_Sound ''Audio/Pickup.wav''])
         else (p1, iv, []))"

section \<open>The store as an interface\<close>

locale item_store =
  fixes add :: "item \<Rightarrow> 's \<Rightarrow> 's"
    and count :: "'s \<Rightarrow> int"
    and look :: "string \<Rightarrow> 's \<Rightarrow> item option"
    and take_out :: "string \<Rightarrow> 's \<Rightarrow> item option \<times> 's"
    and content :: "'s \<Rightarrow> item list"
    and same_type :: "string \<Rightarrow> string \<Rightarrow> bool"
  assumes content_add: "content (add i s) = content s @ [i]"
    and count_content: "count s = int (length (content s))"
    and look_find: "look t s = find (\<lambda>i. same_type (i_type i) t) (content s)"
    and take_fst: "fst (take_out t s) = look t s"
    and take_none: "look t s = None \<Longrightarrow> snd (take_out t s) = s"
    and take_some: "look t s = Some i \<Longrightarrow> inj_on i_node (set (content s)) \<Longrightarrow>
      content (snd (take_out t s)) = remove1 i (content s)"
begin

lemma look_sound: "look t s = Some i \<Longrightarrow> i \<in> set (content s) \<and> same_type (i_type i) t"
  by (auto simp: look_find find_Some_iff)

lemma look_None: "look t s = None \<longleftrightarrow> (\<forall>i\<in>set (content s). \<not> same_type (i_type i) t)"
  by (auto simp: look_find find_None_iff)

lemma look_add: "look t (add i s) =
    (case look t s of Some j \<Rightarrow> Some j | None \<Rightarrow> if same_type (i_type i) t then Some i else None)"
proof -
  have "find P (xs @ [i]) = (case find P xs of Some j \<Rightarrow> Some j | None \<Rightarrow> if P i then Some i else None)"
    for P and xs :: "item list"
    by (induction xs) auto
  then show ?thesis by (simp add: look_find content_add)
qed

lemma take_mset:
  assumes "look t s = Some i" "inj_on i_node (set (content s))"
  shows "mset (content s) = add_mset i (mset (content (snd (take_out t s))))"
  using take_some [OF assms] look_sound [OF assms(1)] by simp

lemma take_count:
  assumes "look t s = Some i" "inj_on i_node (set (content s))"
  shows "count (snd (take_out t s)) = count s - 1"
  using take_mset [OF assms] by (simp add: count_content flip: size_mset)

lemma take_inj:
  assumes "inj_on i_node (set (content s))"
  shows "inj_on i_node (set (content (snd (take_out t s))))"
proof (cases "look t s")
  case None
  then show ?thesis using assms by (simp add: take_none)
next
  case (Some i)
  then have "set (content (snd (take_out t s))) \<subseteq> set (content s)"
    using take_some [OF Some assms] set_remove1_subset by simp
  then show ?thesis using assms inj_on_subset by blast
qed

text \<open>Taking items of a type uses them up: as many times as there are items of the type
  there is one, and then there is none.\<close>

definition matching :: "string \<Rightarrow> 's \<Rightarrow> nat" where
  "matching t s = length (filter (\<lambda>i. same_type (i_type i) t) (content s))"

lemma matching_0: "look t s = None \<longleftrightarrow> matching t s = 0"
  by (simp add: look_None matching_def filter_empty_conv)

lemma matching_take:
  assumes "look t s = Some i" "inj_on i_node (set (content s))"
  shows "matching t s = Suc (matching t (snd (take_out t s)))"
proof -
  have "size (filter_mset (\<lambda>i. same_type (i_type i) t) (mset (content s))) =
      Suc (size (filter_mset (\<lambda>i. same_type (i_type i) t) (mset (content (snd (take_out t s))))))"
    using take_mset [OF assms] look_sound [OF assms(1)] by simp
  then show ?thesis by (simp add: matching_def flip: mset_filter)
qed

lemma drain:
  "inj_on i_node (set (content s)) \<Longrightarrow>
   matching t (((\<lambda>s. snd (take_out t s)) ^^ n) s) = matching t s - n"
proof (induction n arbitrary: s)
  case (Suc n)
  have "matching t (((\<lambda>s. snd (take_out t s)) ^^ n) (snd (take_out t s))) =
      matching t (snd (take_out t s)) - n"
    by (rule Suc.IH) (rule take_inj [OF Suc.prems])
  also have "\<dots> = matching t s - Suc n"
    by (cases "look t s") (use matching_take Suc.prems in \<open>force simp: take_none matching_0\<close>)+
  finally show ?case by (simp add: funpow_Suc_right del: funpow.simps)
qed simp

end

lemma remove_ptr_remove1:
  "i \<in> set is \<Longrightarrow> inj_on i_node (set is) \<Longrightarrow> remove_ptr (i_node i) is = remove1 i is"
proof (induction "is")
  case (Cons a r)
  then show ?case by (cases "a = i") (auto dest: inj_onD)
qed simp

lemma get_item_look:
  "fst (get_item_of_type E t rm s) = find (\<lambda>i. str_ieq E (i_type i) t) (inv_items s)"
  by (simp add: get_item_of_type_def Let_def split: option.split)

lemma get_item_keep [simp, frame_simps]: "snd (get_item_of_type E t False s) = s"
  by (simp add: get_item_of_type_def Let_def split: option.split)

interpretation store: item_store add_item get_item_count
  "\<lambda>t s. fst (get_item_of_type E t False s)" "\<lambda>t s. get_item_of_type E t True s" inv_items "str_ieq E"
  for E
proof unfold_locales
  fix t s i
  assume l: "fst (get_item_of_type E t False s) = Some i" and inj: "inj_on i_node (set (inv_items s))"
  then have f: "find (\<lambda>i. str_ieq E (i_type i) t) (inv_items s) = Some i"
    by (simp add: get_item_look)
  then have "i \<in> set (inv_items s)" by (auto simp: find_Some_iff)
  then show "inv_items (snd (get_item_of_type E t True s)) = remove1 i (inv_items s)"
    using inj by (simp add: get_item_of_type_def f remove_ptr_remove1)
qed (auto simp: add_item_def v_push_def get_item_count_def get_item_look,
     auto simp: get_item_of_type_def Let_def split: option.splits)

text \<open>The engine calls \<open>Update\<close> only for an enabled component of an enabled node: the
  frames a pickup lives through, each with its time step and the bodies it touches.\<close>

fun pickup_frames :: "urho \<Rightarrow> scene \<Rightarrow> (vec3 \<Rightarrow> vec3) \<Rightarrow> (real \<times> node list) list
    \<Rightarrow> pickup \<times> inventory \<Rightarrow> pickup \<times> inventory" where
  "pickup_frames E sc tw [] (p, iv) = (p, iv)"
| "pickup_frames E sc tw ((dt, cs) # fs) (p, iv) =
     (if pk_enabled p \<and> pk_component_on p
      then (case pickup_update E sc dt cs tw p iv of (p', iv', _) \<Rightarrow> pickup_frames E sc tw fs (p', iv'))
      else pickup_frames E sc tw fs (p, iv))"

lemma pickup_frames_off [simp]: "\<not> pk_enabled p \<Longrightarrow> pickup_frames E sc tw fs (p, iv) = (p, iv)"
  by (induction fs) auto

lemma pickup_update_frame [frame_simps]:
  "pickup_update E sc dt cs tw p iv = (p', iv', es) \<Longrightarrow>
   pk_item p' = pk_item p \<and> pk_component_on p' = pk_component_on p"
  by (auto simp: pickup_update_def Let_def split: if_splits)

section \<open>What the panel shows\<close>

datatype inv_op = Add_Item item | Get_Item string bool | Draw "bool option" bool

fun inv_step :: "urho \<Rightarrow> real \<Rightarrow> inventory \<Rightarrow> inv_op \<Rightarrow> inventory" where
  "inv_step E pr s (Add_Item i) = add_item i s"
| "inv_step E pr s (Get_Item t rm) = snd (get_item_of_type E t rm s)"
| "inv_step E pr s (Draw j k) = inventory_update E pr j k s"

definition inv_run :: "urho \<Rightarrow> real \<Rightarrow> inventory \<Rightarrow> inv_op list \<Rightarrow> inventory" where
  "inv_run E pr = foldl (inv_step E pr)"

text \<open>\<open>dirty_\<close> is set by \<open>AddItem\<close> and never cleared: what was drawn is out of date
  only in an inventory that would be redrawn.\<close>

definition panel_inv :: "inventory \<Rightarrow> bool" where
  "panel_inv s \<longleftrightarrow> inv_dirty s \<or> inv_items s = [] \<and> inv_cells s = []"

lemma labels_layout: "map cell_label (layout E pr W w x y is) = map i_name is"
  by (induction "is" arbitrary: x y) (simp_all add: Let_def)

lemma panel_inv_step: "panel_inv s \<Longrightarrow> panel_inv (inv_step E pr s oper)"
  by (cases oper)
    (auto simp: panel_inv_def add_item_def inventory_update_def get_item_of_type_def Let_def
      split: option.splits)

lemma panel_inv_run: "panel_inv s \<Longrightarrow> panel_inv (inv_run E pr s ops)"
  by (induction ops arbitrary: s) (simp_all add: inv_run_def panel_inv_step)

lemma panel_drawn:
  "panel_inv s \<Longrightarrow> map cell_label (inv_cells (inventory_update E pr j True s)) = map i_name (inv_items s)"
  by (auto simp: panel_inv_def inventory_update_def inventory_cells_def labels_layout)

lemma panel_visible: "inv_visible (inventory_update E pr j True s)"
  by (simp add: inventory_update_def Let_def)

section \<open>The grid\<close>

context float_unit
begin

lemma trunc_fifth:
  assumes "0 \<le> n" "n \<le> 2 ^ 20"
  shows "c_trunc (rnd (of_int n / 5)) = n div 5"
proof -
  let ?x = "of_int n / 5 :: real"
  have n: "n = 5 * (n div 5) + n mod 5" "0 \<le> n mod 5" "n mod 5 < 5" by simp_all
  have x: "?x = of_int (n div 5) + of_int (n mod 5) / 5"
    using n(1) by (metis (no_types, lifting) add_divide_distrib of_int_add of_int_mult of_int_numeral
        nonzero_mult_div_cancel_left zero_neq_numeral)
  have "of_int (n div 5) \<le> ?x" unfolding x using n(2) by simp
  moreover have d: "rnd (of_int (n div 5)) = of_int (n div 5)"
    by (rule rnd_int) (use assms in auto)
  ultimately have lo: "of_int (n div 5) \<le> rnd ?x" by (rule float_le_rnd [rotated])
  have "?x \<le> of_int (n div 5) + 4 / 5" unfolding x using n(3) by simp
  moreover have "\<bar>rnd ?x - ?x\<bar> \<le> ?x / 2 ^ 24 + 1 / 2 ^ 150"
    using rnd_err [of ?x] assms by simp
  moreover have "?x / 2 ^ 24 \<le> 1 / 16" using assms by simp
  moreover have "1 / 2 ^ 150 < (1 / 16 :: real)" by simp
  ultimately have "rnd ?x < of_int (n div 5) + 1" by linarith
  then show ?thesis using lo assms by (simp add: c_trunc_def floor_eq_iff) linarith
qed

end

text \<open>With a pixel ratio of 1 and a panel between 125 and 65536 pixels wide, the arithmetic
  of the layout is exact.\<close>

lemma grid_pad: "float_unit (flt E) \<Longrightarrow> pad E 1 = 20"
  using float_unit.rnd_int [of "flt E" 20] by (simp add: pad_def PADDING_def)

lemma grid_w:
  assumes "float_unit (flt E)" "125 \<le> W" "W \<le> 2 ^ 16"
  shows "cell_width E 1 W = (W - 120) div 5"
proof -
  note ri = float_unit.rnd_int [OF assms(1)]
  have "flt E (of_int W) = of_int W" "flt E 120 = 120" "flt E (of_int (W - 120)) = of_int (W - 120)"
    using ri [of W] ri [of 120] ri [of "W - 120"] assms(2,3) by simp_all
  then show ?thesis
    using float_unit.trunc_fifth [OF assms(1), of "W - 120"] assms(2,3)
    by (simp add: cell_width_def PADDING_def)
qed

lemma grid_adv:
  assumes "float_unit (flt E)" "0 \<le> w" "w \<le> 2 ^ 16" "0 \<le> p" "p \<le> 2 ^ 22"
  shows "cell_advance E 1 w p = p + w + 20"
proof -
  note ri = float_unit.rnd_int [OF assms(1)]
  have "\<bar>w\<bar> \<le> 2 ^ 24" "\<bar>p\<bar> \<le> 2 ^ 24" "\<bar>w + 20\<bar> \<le> 2 ^ 24" "\<bar>p + w + 20\<bar> \<le> 2 ^ 24"
    using assms(2-5) by simp_all
  note ri [OF this(1)] ri [OF this(2)] ri [OF this(3)] ri [OF this(4)]
  then show ?thesis
    using c_trunc_of_int [of "p + w + 20"]
    by (simp add: cell_advance_def grid_pad [OF assms(1)] add.assoc del: c_trunc_of_int)
qed

lemma grid_wrap:
  assumes E: "float_unit (flt E)" and W: "125 \<le> W" "W \<le> 2 ^ 16" and w: "w = (W - 120) div 5" and c: "c < 5"
  shows "fsub E (flt E (of_int W)) (pad E 1) \<le> flt E (of_int (cell_advance E 1 w (20 + int c * (w + 20)))) \<longleftrightarrow> c = 4"
proof -
  let ?x = "20 + int c * (w + 20)"
  have w5: "0 < w" "w \<le> 2 ^ 14" "5 * w \<le> W - 120" "W - 120 \<le> 5 * w + 4" using W w by auto
  have "int c * (w + 20) \<le> 4 * (w + 20)" using c w5 by (intro mult_right_mono) auto
  then have x: "0 \<le> ?x" "?x \<le> 2 ^ 22" "?x + w + 20 \<le> 2 ^ 24" using w5 by auto
  have adv: "cell_advance E 1 w ?x = ?x + w + 20" using grid_adv [OF E] w5 x by auto
  have sub: "fsub E (flt E (of_int W)) (pad E 1) = of_int (W - 20)"
    using float_unit.rnd_int [OF E, of W] float_unit.rnd_int [OF E, of "W - 20"] W
    by (simp add: grid_pad [OF E])
  have xf: "flt E (of_int (?x + w + 20)) = of_int (?x + w + 20)"
    by (rule float_unit.rnd_int [OF E]) (use x w5 in simp)
  have "W - 20 \<le> ?x + w + 20 \<longleftrightarrow> c = 4"
  proof (cases "c = 4")
    case False
    then have "int c * (w + 20) \<le> 3 * (w + 20)" using c w5 by (intro mult_right_mono) auto
    then show ?thesis using False w5 by simp
  qed (use w5 in simp)
  then show ?thesis unfolding adv sub xf of_int_le_iff .
qed

lemma layout_nth:
  assumes E: "float_unit (flt E)" and W: "125 \<le> W" "W \<le> 2 ^ 16" and w: "w = (W - 120) div 5"
  shows "\<lbrakk> c < 5; r + length is \<le> 100; k < length is;
      x = 20 + int c * (w + 20); y = 20 + int r * (w + 20) \<rbrakk> \<Longrightarrow>
    layout E 1 W w x y is ! k =
      \<lparr>cell_x = 20 + int ((c + k) mod 5) * (w + 20), cell_y = 20 + int (r + (c + k) div 5) * (w + 20),
       cell_w = w, cell_label = i_name (is ! k)\<rparr>"
proof (induction "is" arbitrary: c r k x y)
  case (Cons i "is")
  have w5: "0 < w" "w \<le> 2 ^ 14" "5 * w \<le> W - 120" "W - 120 \<le> 5 * w + 4" using W w by auto
  have "int c * (w + 20) \<le> 4 * (w + 20)" using Cons.prems w5 by (intro mult_right_mono) auto
  then have x: "0 \<le> x" "x \<le> 2 ^ 22" "20 + 4 * (w + 20) \<le> 2 ^ 17" using Cons.prems w5 by auto
  have "int r * (w + 20) \<le> 100 * (w + 20)" using Cons.prems w5 by (intro mult_right_mono) auto
  then have y: "0 \<le> y" "y \<le> 2 ^ 22" using Cons.prems w5 by auto
  have adv: "cell_advance E 1 w x = x + w + 20" "cell_advance E 1 w y = y + w + 20"
    using grid_adv [OF E] w5 x y by auto
  have wrap: "fsub E (flt E (of_int W)) (pad E 1) \<le> flt E (of_int (cell_advance E 1 w x)) \<longleftrightarrow> c = 4"
    using grid_wrap [OF E W w Cons.prems(1)] Cons.prems(4) by simp
  have pt: "c_trunc (pad E 1) = 20" using c_trunc_of_int [of 20] by (simp add: grid_pad [OF E])
  show ?case
  proof (cases k)
    case 0
    then show ?thesis using Cons.prems by simp
  next
    case (Suc j)
    show ?thesis
    proof (cases "c = 4")
      case True
      have "layout E 1 W w 20 (y + w + 20) is ! j =
          \<lparr>cell_x = 20 + int ((0 + j) mod 5) * (w + 20), cell_y = 20 + int (Suc r + (0 + j) div 5) * (w + 20),
           cell_w = w, cell_label = i_name (is ! j)\<rparr>"
        by (rule Cons.IH) (use Cons.prems Suc in \<open>auto simp: algebra_simps\<close>)
      then show ?thesis using Suc True wrap by (simp add: Let_def pt adv)
    next
      case False
      have "layout E 1 W w (x + w + 20) y is ! j =
          \<lparr>cell_x = 20 + int ((Suc c + j) mod 5) * (w + 20), cell_y = 20 + int (r + (Suc c + j) div 5) * (w + 20),
           cell_w = w, cell_label = i_name (is ! j)\<rparr>"
        by (rule Cons.IH) (use Cons.prems Suc False in \<open>auto simp: algebra_simps\<close>)
      then show ?thesis using Suc False wrap by (simp add: Let_def adv)
    qed
  qed
qed simp

section \<open>Properties\<close>

text \<open>C24. \<open>GetItemOfType\<close> returns the first item whose type matches without regard to
  case, or null when there is none; with \<open>remove\<close> exactly that item leaves the inventory,
  without it the inventory is unchanged; nothing else of the inventory changes.\<close>

theorem get_item_of_type_first:
  assumes "inj_on i_node (set (inv_items s))"
  shows "case get_item_of_type E t rm s of
      (None, s') \<Rightarrow> s' = s \<and> (\<nexists>i. i \<in> set (inv_items s) \<and> str_ieq E (i_type i) t)
    | (Some i, s') \<Rightarrow> \<exists>xs ys. inv_items s = xs @ i # ys \<and> str_ieq E (i_type i) t
        \<and> (\<nexists>j. j \<in> set xs \<and> str_ieq E (i_type j) t)
        \<and> s' = s\<lparr>inv_items := if rm then xs @ ys else inv_items s\<rparr>"
proof (cases "find (\<lambda>i. str_ieq E (i_type i) t) (inv_items s)")
  case None
  then have "get_item_of_type E t rm s = (None, s)" by (simp add: get_item_of_type_def)
  then show ?thesis using None by (auto simp: find_None_iff)
next
  case (Some i)
  then obtain k where k: "k < length (inv_items s)" "str_ieq E (i_type i) t" "i = inv_items s ! k"
    "\<forall>j<k. \<not> str_ieq E (i_type (inv_items s ! j)) t"
    by (auto simp: find_Some_iff)
  define xs ys where "xs = take k (inv_items s)" and "ys = drop (Suc k) (inv_items s)"
  have split: "inv_items s = xs @ i # ys" using k by (simp add: xs_def ys_def id_take_nth_drop)
  have before: "\<nexists>j. j \<in> set xs \<and> str_ieq E (i_type j) t"
    using k by (auto simp: xs_def in_set_conv_nth)
  then have "i \<notin> set xs" using k(2) by blast
  then have "remove1 i (inv_items s) = xs @ ys" using split by (simp add: remove1_append)
  then have "remove_ptr (i_node i) (inv_items s) = xs @ ys"
    using remove_ptr_remove1 [OF _ assms] split by (metis in_set_conv_decomp)
  then have "get_item_of_type E t rm s = (Some i, s\<lparr>inv_items := if rm then xs @ ys else inv_items s\<rparr>)"
    using Some by (simp add: get_item_of_type_def)
  then show ?thesis using split before k(2) by auto
qed

theorem get_item_of_type_first_witness:
  "get_item_of_type engine32 ''Throwable'' True
     ((inv_new False)\<lparr>inv_items := [\<lparr>i_node = 1, i_type = ''Key'', i_name = ''Key''\<rparr>,
        \<lparr>i_node = 2, i_type = ''Throwable'', i_name = ''Can''\<rparr>]\<rparr>) =
   (Some \<lparr>i_node = 2, i_type = ''Throwable'', i_name = ''Can''\<rparr>,
     (inv_new False)\<lparr>inv_items := [\<lparr>i_node = 1, i_type = ''Key'', i_name = ''Key''\<rparr>]\<rparr>)"
  (is "get_item_of_type _ _ _ ?s = _")
proof -
  have "inj_on i_node (set (inv_items ?s))" by (simp add: inv_new_def inj_on_def)
  from get_item_of_type_first [OF this, of engine32 "''Throwable''" True]
  show ?thesis by (simp add: get_item_of_type_def inv_new_def)
qed

text \<open>C25. Whatever was added, taken and drawn before, and whatever value the uninitialised
  \<open>dirty_\<close> had, a frame with the inventory button down shows the panel with one cell per item
  of the inventory, in the order of the items and with their names.\<close>

theorem inventory_panel_shows_items:
  "inv_visible (inventory_update E pr j True (inv_run E pr (inv_delayed_start pw (inv_new d)) ops)) \<and>
   map cell_label (inv_cells (inventory_update E pr j True (inv_run E pr (inv_delayed_start pw (inv_new d)) ops)))
     = map i_name (inv_items (inv_run E pr (inv_delayed_start pw (inv_new d)) ops))"
proof -
  have "panel_inv (inv_delayed_start pw (inv_new d))"
    by (simp add: panel_inv_def inv_delayed_start_def inv_new_def)
  then show ?thesis
    using panel_drawn panel_inv_run panel_visible by blast
qed

text \<open>The inventory is a grid of five columns: at a pixel ratio of 1, in a panel \<open>W\<close>
  pixels wide, the k-th item is in column \<open>k mod 5\<close> and row \<open>k div 5\<close>, cells are squares of
  \<open>(W - 120) div 5\<close> pixels and 20 pixels apart, and none reaches past the panel's edge.\<close>

theorem inventory_grid:
  assumes "float_unit (flt E)" "125 \<le> W" "W \<le> 2 ^ 16" "length is \<le> 100" "k < length is"
  defines "w \<equiv> (W - 120) div 5"
  shows "inventory_cells E 1 W is ! k =
      \<lparr>cell_x = 20 + int (k mod 5) * (w + 20), cell_y = 20 + int (k div 5) * (w + 20),
       cell_w = w, cell_label = i_name (is ! k)\<rparr>
    \<and> 0 < w \<and> 20 + int (k mod 5) * (w + 20) + w \<le> W"
proof (intro conjI)
  have pt: "c_trunc (pad E 1) = 20"
    using c_trunc_of_int [of 20] by (simp add: grid_pad [OF assms(1)])
  show "inventory_cells E 1 W is ! k = \<lparr>cell_x = 20 + int (k mod 5) * (w + 20),
      cell_y = 20 + int (k div 5) * (w + 20), cell_w = w, cell_label = i_name (is ! k)\<rparr>"
    using layout_nth [OF assms(1-3) refl, of 0 0 "is" k 20 20] assms(4,5)
    by (simp add: inventory_cells_def pt grid_w [OF assms(1-3)] w_def)
  show "0 < w" using assms(2) by (simp add: w_def)
  then have "int (k mod 5) * (w + 20) \<le> 4 * (w + 20)" by (intro mult_right_mono) auto
  then show "20 + int (k mod 5) * (w + 20) + w \<le> W" using assms(2) by (simp add: w_def)
qed

theorem inventory_grid_witness:
  "inventory_cells engine32 1 620 (replicate 7 \<lparr>i_node = 1, i_type = ''Key'', i_name = ''Key''\<rparr>) ! 6 =
     \<lparr>cell_x = 140, cell_y = 140, cell_w = 100, cell_label = ''Key''\<rparr>"
proof -
  have "float_unit (flt engine32)" using binary32.float_unit_axioms by simp
  from inventory_grid [OF this, of 620 "replicate 7 \<lparr>i_node = 1, i_type = ''Key'', i_name = ''Key''\<rparr>" 6]
  show ?thesis by simp
qed

text \<open>A pickup is collected exactly once: over any sequence of frames, one copy of it is
  added to the inventory if in some frame the first body it touches is the person's, and
  nothing is added otherwise; once collected its node is disabled.\<close>

theorem pickup_collected_once:
  assumes "pk_enabled p" "pk_component_on p"
  shows "case pickup_frames E sc tw fs (p, iv) of (p', iv') \<Rightarrow>
     inv_items iv' = inv_items iv @
       (if list_ex (\<lambda>f. v_front (snd f) = Some (person_node sc)) fs then [pk_item p] else [])
     \<and> pk_enabled p' = (\<not> list_ex (\<lambda>f. v_front (snd f) = Some (person_node sc)) fs)"
  using assms
proof (induction fs arbitrary: p)
  case (Cons f fs)
  obtain dt cs where f: "f = (dt, cs)" by (cases f)
  obtain p' iv' es where u: "pickup_update E sc dt cs tw p iv = (p', iv', es)"
    by (metis prod_cases3)
  show ?case
  proof (cases "v_front cs = Some (person_node sc)")
    case True
    then have "\<not> pk_enabled p'" "inv_items iv' = inv_items iv @ [pk_item p]"
      using u True by (cases cs; auto simp: pickup_update_def Let_def add_item_def v_push_def)+
    then show ?thesis using Cons.prems u f True by auto
  next
    case False
    then have "pk_enabled p' = pk_enabled p" "iv' = iv"
      using u False by (auto simp: pickup_update_def Let_def)
    then show ?thesis
      using Cons.IH [of p'] Cons.prems u f False pickup_update_frame [OF u] by auto
  qed
qed simp

theorem pickup_collected_once_witness:
  "inv_items (snd (pickup_frames engine32
      scene0 id
      [(1, []), (1, [3]), (1, [3])]
      (\<lparr>pk_item = \<lparr>i_node = 7, i_type = ''Key'', i_name = ''Key''\<rparr>, pk_height = 0,
        pk_rot = quat0, pk_pos = vec_ZERO, pk_enabled = True,
        pk_component_on = True, pk_trigger = True, pk_keys = []\<rparr>, inv_new False)))
   = [\<lparr>i_node = 7, i_type = ''Key'', i_name = ''Key''\<rparr>]"
  (is "inv_items (snd (pickup_frames _ _ _ ?fs (?p, _))) = _")
proof -
  have "pk_enabled ?p" "pk_component_on ?p" by simp_all
  from pickup_collected_once [OF this, where E = engine32 and sc = scene0 and tw = id
      and fs = ?fs and iv = "inv_new False"]
  show ?thesis by (simp add: inv_new_def case_prod_beta del: pickup_frames.simps)
qed

end
