(* ===== verification/Game.thy ===== *)
theory Game
  imports TitleScene Analytics Guard Inventory "HOL-Library.Monad_Syntax"
begin

text \<open>
  The game itself (\<open>src/Game.cpp\<close>): its state, starting it, loading and ending a level, the
  controllers. What happens in a frame is in \<open>Frame\<close>. The screen is a list of widgets, those
  that \<open>Game\<close> puts under the root of the user interface; what is told to the engine and not read
  back is a list of calls. The static variables of \<open>Game::HandleUpdate\<close> are fields of the state.
\<close>

section \<open>State\<close>

datatype game_state = GS_MENU | GS_INTRO | GS_PLAYING | GS_DEAD | GS_STAIRS | GS_CREDITS | GS_FINISHED

datatype key =
    KEY_0 | KEY_1 | KEY_2 | KEY_3 | KEY_4 | KEY_5 | KEY_6 | KEY_7 | KEY_8 | KEY_9
  | KEY_A | KEY_B | KEY_C | KEY_D | KEY_N | KEY_R | KEY_U
  | KEY_UP | KEY_DOWN | KEY_LEFT | KEY_RIGHT | KEY_ESC | KEY_SPACE | KEY_BACKQUOTE

datatype widget =
  Widget (w_type: string) (w_name: string) (w_attrs: "(string \<times> attr) list") (w_children: "widget list")

datatype call =
    Call string "attr list"
  | Send_Event "string \<times> (string \<times> string) list"
  | Effect effect

text \<open>An entry of the table \<open>animated\<close>.\<close>

record anim_entry =
  an_material :: string
  an_path :: string
  an_frame :: int
  an_count :: int
  an_timer :: real
  an_rate :: real

record game =
  gm_screen :: int
  gm_joystick :: int
  gm_level :: int
  gm_levelTime :: real
  gm_state :: game_state
  gm_totalTime :: real
  gm_totalScore :: int
  gm_exitTimer :: int
  gm_unce :: bool
  gm_cheat :: "key list"
  gm_developer :: bool
  gm_geometry :: bool
  gm_physics :: bool
  gm_navigation :: bool
  gm_depthTest :: bool
  gm_hud :: bool
  gm_stats :: "(string \<times> attr) list"
  gm_scene :: level_scene
  gm_ui :: "widget list"
  gm_titleFrame :: int
  gm_titleTimer :: real
  gm_introFrame :: int
  gm_introTimer :: real
  gm_animated :: "anim_entry list"
  gm_creditsFrame :: int
  gm_creditsTimer :: real
  gm_colorTimer :: real
  gm_calls :: "call list"

text \<open>What surrounds the game: the engine, the resources, the size of the screen, the index
  \<open>AddScreenJoystick\<close> returns after a given one was removed, the text of floats and vectors,
  \<open>Color::FromHSV\<close>.\<close>

record game_env =
  ge_urho :: urho
  ge_res :: resources
  ge_width :: nat
  ge_height :: nat
  ge_newJoystick :: "int \<Rightarrow> int"
  ge_float :: "real \<Rightarrow> string"
  ge_vec :: "vec3 \<Rightarrow> string"
  ge_hsv :: "real \<Rightarrow> real \<Rightarrow> real \<Rightarrow> color"

text \<open>What the components of the running level are asked: the guards, the player's inventory and
  position.\<close>

record level_status =
  ls_guards :: "guard list"
  ls_inventory :: inventory
  ls_personPos :: vec3

section \<open>Starting\<close>

definition M_MAX_INT :: int where
  "M_MAX_INT = 2147483647"

definition animated_table :: "anim_entry list" where
  "animated_table =
     map (\<lambda>(m, p, r). \<lparr>an_material = m, an_path = p, an_frame = 1, an_count = M_MAX_INT, an_timer = 0, an_rate = r\<rparr>)
       [(''Materials/MaverickForwardAnimated.xml'', ''Textures/maverick/forward/'', 10),
        (''Materials/MaverickBackAnimated.xml'', ''Textures/maverick/back/'', 10),
        (''Materials/MaverickLeftAnimated.xml'', ''Textures/maverick/left/'', 9),
        (''Materials/MaverickRightAnimated.xml'', ''Textures/maverick/right/'', 9),
        (''Materials/GuardForwardAnimated.xml'', ''Textures/guard/forward/'', 10),
        (''Materials/GuardBackAnimated.xml'', ''Textures/guard/back/'', 10),
        (''Materials/GuardLeftAnimated.xml'', ''Textures/guard/left/'', 9),
        (''Materials/GuardRightAnimated.xml'', ''Textures/guard/right/'', 9)]"

definition empty_scene :: level_scene where
  "empty_scene = \<lparr>sc_comps = [], sc_nodes = []\<rparr>"

definition game_new :: game where
  "game_new = \<lparr>gm_screen = 0, gm_joystick = - 1, gm_level = 0, gm_levelTime = 0, gm_state = GS_MENU,
     gm_totalTime = 0, gm_totalScore = 0, gm_exitTimer = 0, gm_unce = False,
     gm_cheat = [KEY_A, KEY_B, KEY_RIGHT, KEY_LEFT, KEY_RIGHT, KEY_LEFT, KEY_DOWN, KEY_DOWN, KEY_UP, KEY_UP],
     gm_developer = False, gm_geometry = False, gm_physics = False, gm_navigation = False, gm_depthTest = True,
     gm_hud = False, gm_stats = [], gm_scene = empty_scene, gm_ui = [],
     gm_titleFrame = 0, gm_titleTimer = 0, gm_introFrame = 0, gm_introTimer = 0, gm_animated = animated_table,
     gm_creditsFrame = 0, gm_creditsTimer = 0, gm_colorTimer = 0, gm_calls = []\<rparr>"

definition call :: "call \<Rightarrow> game \<Rightarrow> game" where
  "call c g = g\<lparr>gm_calls := gm_calls g @ [c]\<rparr>"

text \<open>\<open>Setup\<close>: the engine's parameters, for the desktop or not.\<close>

definition engine_parameters :: "bool \<Rightarrow> (string \<times> attr) list" where
  "engine_parameters desktop =
     [(''WindowTitle'', A_str ''The Traitor''), (''VSync'', A_bool True),
      (''TextureFilterMode'', A_str ''FILTER_ANISOTROPIC''), (''TextureAnisotropy'', A_int 16)] @
     (if desktop then [(''Multisample'', A_int 8)] else [(''FullScreen'', A_bool True), (''Multisample'', A_int 4)]) @
     [(''ResourcePaths'', A_str ''data''), (''AutoloadPaths'', A_str [])]"

text \<open>The events and who handles them.\<close>

datatype handler = Controller_Start | Controller_End | Handle_Update | Handle_Post_Render

definition subscriptions :: "(string \<times> handler) list" where
  "subscriptions =
     [(''MouseButtonDown'', Controller_End), (''MouseButtonUp'', Controller_End), (''MouseMove'', Controller_End),
      (''MouseWheel'', Controller_End), (''KeyDown'', Controller_End), (''KeyUp'', Controller_End),
      (''JoystickConnected'', Controller_Start), (''JoystickDisconnected'', Controller_End),
      (''JoystickButtonDown'', Controller_Start), (''JoystickButtonUp'', Controller_Start),
      (''JoystickAxisMove'', Controller_Start), (''JoystickHatMove'', Controller_Start),
      (''Update'', Handle_Update), (''PostRenderUpdate'', Handle_Post_Render)]"

definition game_setup :: "bool \<Rightarrow> game_env \<Rightarrow> game \<Rightarrow> game" where
  "game_setup desktop W g =
     (let rs = ge_res W; E = ge_urho W in
      if desktop
      then g\<lparr>gm_calls := gm_calls g @
          [Call ''AppendRenderPath'' [A_res (get_resource rs ''PostProcess/FXAA3.xml'')],
           Call ''AppendRenderPath'' [A_res (get_resource rs ''PostProcess/BloomHDR.xml'')],
           Call ''SetShaderParameter'' [A_str ''BloomHDRMix'', A_real 1, A_real 1],
           Call ''SetShadowMapSize'' [A_int 2048], Call ''SetShadowQuality'' [A_str ''QUALITY_MAX''],
           Call ''SetHDRRendering'' [A_bool True],
           Call ''SetMouseVisible'' [A_bool True], Call ''SetMouseMode'' [A_str ''MM_ABSOLUTE'']]\<rparr>
      else g\<lparr>gm_screen := ge_newJoystick W 0, gm_calls := gm_calls g @
          [Call ''SetMobileShadowBiasAdd'' [A_real (flt E (2 / 1000))], Call ''SetMobileShadowBiasMul'' [A_real 2],
           Call ''SetHDRRendering'' [A_bool True], Call ''AddScreenJoystick'' []]\<rparr>)"

text \<open>\<open>Start\<close>; without the music, on which \<open>SetLooped\<close> is called, it fails. \<open>launch\<close> are the
  build's constants.\<close>

definition game_start ::
  "bool \<Rightarrow> int \<Rightarrow> string \<times> (string \<times> string) list \<Rightarrow> game_env \<Rightarrow> game \<Rightarrow> game option" where
  "game_start desktop seed launch W g =
     (let rs = ge_res W; E = ge_urho W;
          g1 = g\<lparr>gm_scene := empty_scene, gm_calls := gm_calls g @
                 [Call ''SetRandomSeed'' [A_int seed],
                  Call ''SetMasterGain'' [A_str ''SOUND_EFFECT'', A_real (flt E (4 / 10))],
                  Call ''SetMasterGain'' [A_str ''SOUND_VOICE'', A_real (flt E (6 / 10))],
                  Call ''SetMasterGain'' [A_str ''SOUND_MUSIC'', A_real (flt E (2 / 10))],
                  Call ''CreateDebugHud'' []]\<rparr>
      in if \<not> rs_loaded rs ''Audio/MainTheme.ogg'' then None
         else (let g2 = game_setup desktop W (call (Call ''SetViewport'' []) (call (Call ''PlayMusic'' [A_str ''Audio/MainTheme.ogg'']) g1))
               in Some (call (Send_Event launch) g2)))"

text \<open>\<open>Stop\<close>.\<close>

definition game_stop :: "game \<Rightarrow> game" where
  "game_stop g = call (Call ''DumpResources'' [A_bool True]) g"

section \<open>The screen\<close>

definition nl :: string where
  "nl = [CHR 0x0A]"

text \<open>\<open>snprintf\<close> into a buffer of 512 characters.\<close>

definition snprintf512 :: "string list \<Rightarrow> string" where
  "snprintf512 ss = take 511 (concat ss)"

definition find_widget :: "string \<Rightarrow> widget list \<Rightarrow> widget option" where
  "find_widget n ws = find (\<lambda>w. w_name w = n) ws"

definition add_widget :: "widget \<Rightarrow> game \<Rightarrow> game" where
  "add_widget w g = g\<lparr>gm_ui := gm_ui g @ [w]\<rparr>"

text \<open>\<open>SetTexture\<close> on the sprite with the given name; a null pointer if there is none.\<close>

primrec set_texture :: "string \<Rightarrow> string \<Rightarrow> widget list \<Rightarrow> widget list option" where
  "set_texture n t [] = None"
| "set_texture n t (w # ws) =
     (if w_name w = n
      then Some (Widget (w_type w) n ((''Texture'', A_str t) # filter (\<lambda>a. fst a \<noteq> ''Texture'') (w_attrs w)) (w_children w) # ws)
      else map_option (\<lambda>ws'. w # ws') (set_texture n t ws))"

text \<open>Clearing the user interface, around which the on-screen joystick is removed and added again;
  \<open>scene_->Clear()\<close> comes with it except for the title and the final text.\<close>

definition clear_screen :: "game_env \<Rightarrow> bool \<Rightarrow> game \<Rightarrow> game" where
  "clear_screen W clearScene g =
     (let g1 = (if 0 < gm_screen g then call (Call ''RemoveScreenJoystick'' [A_int (gm_screen g)]) g else g);
          g2 = g1\<lparr>gm_ui := []\<rparr>;
          g3 = (if clearScene then g2\<lparr>gm_scene := empty_scene\<rparr> else g2)
      in if 0 < gm_screen g3
         then (let i = ge_newJoystick W (gm_screen g3)
               in call (Call ''SetScreenJoystickVisible'' [A_int i, A_bool True]) (g3\<lparr>gm_screen := i\<rparr>))
         else g3)"

definition movie_sprite :: "game_env \<Rightarrow> widget" where
  "movie_sprite W =
     Widget ''Sprite'' ''Movie''
       [(''Width'', A_int (int (ge_width W))), (''Height'', A_int (int (ge_width W))),
        (''HotSpotX'', A_int (int (ge_width W div 2))), (''HotSpotY'', A_int (int (ge_width W div 2))),
        (''Alignment'', A_str ''HA_CENTER, VA_CENTER'')] []"

definition play_source :: "game_env \<Rightarrow> string \<Rightarrow> game \<Rightarrow> game" where
  "play_source W n g =
     g\<lparr>gm_scene := (gm_scene g)\<lparr>sc_comps := sc_comps (gm_scene g) @
         [Comp ''SoundSource'' [(''Sound'', A_res (get_resource (ge_res W) n))]]\<rparr>\<rparr>"

section \<open>Loading a level\<close>

definition load_level :: "game_env \<Rightarrow> game \<Rightarrow> game option" where
  "load_level W g =
     (let g1 = g\<lparr>gm_level := (if gm_state g = GS_STAIRS then gm_level g + 1 else gm_level g),
                 gm_state := GS_PLAYING, gm_levelTime := 0\<rparr>;
          g2 = clear_screen W True g1
      in case rs_image (ge_res W) (''Levels/'' @ show_int (gm_level g2 + 1) @ ''.png'') of
           None \<Rightarrow>
             Some (play_source W ''Audio/Credits.wav''
                     (add_widget (movie_sprite W) (g2\<lparr>gm_level := 0, gm_state := GS_CREDITS\<rparr>)))
         | Some levelImage \<Rightarrow>
             (case build_level (ge_urho W) (ge_res W) (gm_developer g2) (gm_level g2) levelImage of
                None \<Rightarrow> None
              | Some (sc, msgs) \<Rightarrow>
                  Some (g2\<lparr>gm_scene := sc, gm_calls := gm_calls g2 @ map Effect msgs @
                      [Call ''BuildNavigationMesh'' [], Call ''SetListener'' [A_str ''Person''],
                       Call ''SetCamera'' [A_str ''Camera'']]\<rparr>)))"

section \<open>Ending a level\<close>

definition guard_count :: "level_status \<Rightarrow> int" where
  "guard_count st = int (length (filter guard_has_seen_player (ls_guards st)))"

definition level_score :: "urho \<Rightarrow> real \<Rightarrow> int \<Rightarrow> int \<Rightarrow> int" where
  "level_score E levelTime guardCount pickupCount =
     c_trunc (fmul E (fadd E (fadd E (fsub E 300 levelTime) (fmul E (flt E (of_int guardCount)) (- 100)))
                             (fmul E (flt E (of_int pickupCount)) 50)) 5)"

text \<open>Minutes, seconds and what the code calls \<open>ms\<close>, of the level's time and of the total time.\<close>

definition clock_fields :: "urho \<Rightarrow> real \<Rightarrow> int \<times> int \<times> int" where
  "clock_fields E t =
     (let m = c_trunc (fdiv E t 60); s = c_trunc t - m * 60; ms = c_trunc (fmul E t 100) - s * 100
      in (m, s, ms))"

definition clock_text :: "int \<times> int \<times> int \<Rightarrow> string" where
  "clock_text f = (case f of (m, s, ms) \<Rightarrow> show_pad 2 m @ '':'' @ show_pad 2 s @ ''.'' @ show_pad 3 ms)"

definition failed_text :: "game \<Rightarrow> string" where
  "failed_text g =
     snprintf512
       [''You've been brutally murdered for your crimes against the company.'', nl, nl,
        ''Press '', (if gm_joystick g = - 1 then ''[space]'' else ''(A)''), '' to try your hand again.'']"

definition completed_text :: "urho \<Rightarrow> game \<Rightarrow> int \<Rightarrow> int \<Rightarrow> int \<Rightarrow> string" where
  "completed_text E g guardCount pickupCount score =
     snprintf512
       [''Against all odds, you made it past security and on to the next floor.'', nl, nl,
        ''Press '', (if gm_joystick g = - 1 then ''[space]'' else ''(A)''), '' to continue the adventure.'', nl, nl, nl,
        ''           Completion Time: '', clock_text (clock_fields E (gm_levelTime g)), nl,
        ''            Seen By Guards: '', show_int guardCount, '' time'', (if guardCount \<noteq> 1 then ''s'' else []), nl,
        ''         Pickups Collected: '', show_int pickupCount, nl,
        ''      ---------------------------------'', nl,
        ''                     Score: '', show_int score]"

text \<open>Every component but the models is disabled on every node with a model.\<close>

definition disable_comp :: "comp \<Rightarrow> comp" where
  "disable_comp c = (if cp_type c = ''StaticModel'' then c else Comp (cp_type c) ((''Enabled'', A_bool False) # cp_attrs c))"

primrec freeze :: "snode \<Rightarrow> snode" where
  "freeze (SNode n p r s e vs cs ch) =
     SNode n p r s e vs (if list_ex (\<lambda>c. cp_type c = ''StaticModel'') cs then map disable_comp cs else cs) (map freeze ch)"

definition has_person :: "level_scene \<Rightarrow> bool" where
  "has_person sc = list_ex (\<lambda>n. sn_name n = ''Person'') (concat (map all_nodes (sc_nodes sc)))"

definition end_panel :: "game_env \<Rightarrow> string \<Rightarrow> widget" where
  "end_panel W t =
     (let size = [(''Width'', A_int (int (ge_width W))), (''Height'', A_int (int (ge_height W)))] in
      Widget ''UIElement'' [] (size @ [(''Alignment'', A_str ''HA_CENTER, VA_CENTER'')])
        [Widget ''Sprite'' [] (size @ [(''Color'', A_color BLACK), (''Opacity'', A_real (flt (ge_urho W) (6 / 10)))]) [],
         Widget ''Text'' [] [(''Font'', A_str ''Fonts/Anonymous Pro.ttf''), (''Color'', A_color WHITE),
           (''Alignment'', A_str ''HA_CENTER, VA_CENTER''), (''Text'', A_str t)] []])"

definition end_level :: "game_env \<Rightarrow> level_status \<Rightarrow> bool \<Rightarrow> bool \<Rightarrow> game \<Rightarrow> game option" where
  "end_level W st died suppressScore g =
     (let E = ge_urho W; guardCount = guard_count st; pickupCount = get_item_count (ls_inventory st);
          score = level_score E (gm_levelTime g) guardCount pickupCount;
          g1 = g\<lparr>gm_totalTime := fadd E (gm_totalTime g) (gm_levelTime g), gm_totalScore := gm_totalScore g + score\<rparr>
      in if \<not> has_person (gm_scene g) then None
         else if suppressScore then load_level W (g1\<lparr>gm_state := GS_STAIRS\<rparr>)
         else (let g2 = g1\<lparr>gm_scene := (gm_scene g1)\<lparr>sc_nodes := map freeze (sc_nodes (gm_scene g1))\<rparr>\<rparr>;
                   event = (if died
                            then level_failed_event (ge_float W) (ge_vec W) (gm_level g) (gm_levelTime g) guardCount pickupCount
                                   (ls_personPos st)
                            else level_completed_event (ge_float W) (gm_level g) (gm_levelTime g) guardCount pickupCount score);
                   t = (if died then failed_text g else completed_text E g guardCount pickupCount score)
               in Some (call (Send_Event event)
                    (add_widget (end_panel W t) (g2\<lparr>gm_state := (if died then GS_DEAD else GS_STAIRS)\<rparr>)))))"

section \<open>Controllers\<close>

definition controller_start :: "int \<Rightarrow> game \<Rightarrow> game" where
  "controller_start joystickId g = call (Call ''SetMouseVisible'' [A_bool False, A_bool True]) (g\<lparr>gm_joystick := joystickId\<rparr>)"

definition controller_end :: "game \<Rightarrow> game" where
  "controller_end g = call (Call ''SetMouseVisible'' [A_bool True, A_bool True]) (g\<lparr>gm_joystick := - 1\<rparr>)"

text \<open>An input event, with the joystick it carries, reaches its handler through the table.\<close>

definition input_event :: "string \<Rightarrow> int \<Rightarrow> game \<Rightarrow> game" where
  "input_event ev joystickId g =
     (case map_of subscriptions ev of
        Some Controller_Start \<Rightarrow> controller_start joystickId g
      | Some Controller_End \<Rightarrow> controller_end g
      | _ \<Rightarrow> g)"

section \<open>What the loading and the ending change\<close>

lemma call_sel [simp]:
  "gm_state (call c g) = gm_state g" "gm_level (call c g) = gm_level g" "gm_ui (call c g) = gm_ui g"
  "gm_scene (call c g) = gm_scene g" "gm_unce (call c g) = gm_unce g" "gm_cheat (call c g) = gm_cheat g"
  "gm_totalTime (call c g) = gm_totalTime g" "gm_totalScore (call c g) = gm_totalScore g"
  "gm_levelTime (call c g) = gm_levelTime g" "gm_developer (call c g) = gm_developer g"
  "gm_titleTimer (call c g) = gm_titleTimer g" "gm_introTimer (call c g) = gm_introTimer g"
  "gm_creditsTimer (call c g) = gm_creditsTimer g" "gm_animated (call c g) = gm_animated g"
  "gm_titleFrame (call c g) = gm_titleFrame g" "gm_introFrame (call c g) = gm_introFrame g"
  "gm_creditsFrame (call c g) = gm_creditsFrame g" "gm_exitTimer (call c g) = gm_exitTimer g"
  "gm_physics (call c g) = gm_physics g" "gm_navigation (call c g) = gm_navigation g"
  "gm_joystick (call c g) = gm_joystick g" "gm_screen (call c g) = gm_screen g"
  by (simp_all add: call_def)

text \<open>What \<open>LoadLevel\<close> and \<open>EndLevel\<close> leave alone.\<close>

definition core_of :: "game \<Rightarrow> bool \<times> key list \<times> bool \<times> real \<times> real \<times> real \<times> anim_entry list \<times> int \<times> int \<times> int" where
  "core_of g = (gm_unce g, gm_cheat g, gm_developer g, gm_titleTimer g, gm_introTimer g, gm_creditsTimer g,
     gm_animated g, gm_titleFrame g, gm_introFrame g, gm_creditsFrame g)"

lemma clear_screen_sel [simp]:
  "gm_state (clear_screen W b g) = gm_state g" "gm_level (clear_screen W b g) = gm_level g"
  "gm_ui (clear_screen W b g) = []" "gm_scene (clear_screen W b g) = (if b then empty_scene else gm_scene g)"
  "gm_totalTime (clear_screen W b g) = gm_totalTime g" "gm_totalScore (clear_screen W b g) = gm_totalScore g"
  "gm_levelTime (clear_screen W b g) = gm_levelTime g" "core_of (clear_screen W b g) = core_of g"
  "gm_developer (clear_screen W b g) = gm_developer g" "gm_exitTimer (clear_screen W b g) = gm_exitTimer g"
  "gm_joystick (clear_screen W b g) = gm_joystick g"
  by (simp_all add: clear_screen_def Let_def core_of_def)

end
