(* ===== verification/Frame.thy ===== *)
theory Frame
  imports Game
begin

text \<open>
  A frame (\<open>Game::HandleUpdate\<close>, \<open>Game::HandlePostRenderUpdate\<close> in \<open>src/Game.cpp\<close>): leaving the
  game, the joystick's statistics, skipping, the title screen, the intro, the animated materials,
  the credits, the developer's keys and the cheat code, in the order of the code, each as a
  function of the state; \<open>None\<close> is a crash or a loop that does not end.
\<close>

section \<open>Input\<close>

record joystick_state =
  js_axes :: "real list"
  js_buttons :: "bool list"
  js_press0 :: bool
  js_hats :: "int list"

record frame_in =
  fi_dt :: real
  fi_down :: "key \<Rightarrow> bool"
  fi_press :: "key \<Rightarrow> bool"
  fi_joystick :: "int \<Rightarrow> joystick_state option"
  fi_status :: level_status
  fi_hue :: "nat \<Rightarrow> real"
  fi_rand :: "nat \<Rightarrow> int"

section \<open>Leaving, statistics, skipping\<close>

definition exit_step :: "frame_in \<Rightarrow> game \<Rightarrow> game" where
  "exit_step inp g =
     (if fi_down inp KEY_ESC
      then (let g1 = g\<lparr>gm_exitTimer := gm_exitTimer g + 1\<rparr>
            in if 30 < gm_exitTimer g1 then (call (Effect Exit_Engine) g1)\<lparr>gm_exitTimer := 0\<rparr> else g1)
      else g\<lparr>gm_exitTimer := 0\<rparr>)"

definition stats_step :: "frame_in \<Rightarrow> game \<Rightarrow> game" where
  "stats_step inp g =
     g\<lparr>gm_stats := (''Active Joystick'', A_int (gm_joystick g)) #
        (case fi_joystick inp (gm_joystick g) of
           None \<Rightarrow> []
         | Some js \<Rightarrow>
             map (\<lambda>i. (''Axis '' @ show_nat i, A_real (js_axes js ! i))) [0..<length (js_axes js)] @
             map (\<lambda>i. (''Button '' @ show_nat i, A_bool (js_buttons js ! i))) [0..<length (js_buttons js)] @
             map (\<lambda>i. (''Hat '' @ show_nat i, A_int (js_hats js ! i))) [0..<length (js_hats js)])\<rparr>"

definition space_pressed :: "frame_in \<Rightarrow> game \<Rightarrow> bool" where
  "space_pressed inp g \<longleftrightarrow>
     (case fi_joystick inp (gm_joystick g) of None \<Rightarrow> False | Some js \<Rightarrow> js_press0 js) \<or> fi_press inp KEY_SPACE"

text \<open>The state and \<open>spacePressed\<close> after it.\<close>

definition skip_step :: "game_env \<Rightarrow> bool \<Rightarrow> game \<Rightarrow> (game \<times> bool) option" where
  "skip_step W space g =
     (if gm_state g \<noteq> GS_MENU \<and> gm_state g \<noteq> GS_PLAYING \<and> space
      then (if gm_state g \<noteq> GS_CREDITS then map_option (\<lambda>g'. (g', False)) (load_level W g)
            else Some (g\<lparr>gm_state := GS_MENU\<rparr>, False))
      else Some (g, space))"

section \<open>Clocks of the animations\<close>

text \<open>The loops \<open>while (frameTimer >= frameRate)\<close> of the title, the intro and the credits.\<close>

partial_function (option) run_frames :: "urho \<Rightarrow> real \<Rightarrow> real \<Rightarrow> int \<Rightarrow> (real \<times> int) option" where
  "run_frames E rate timer frame =
     (if rate \<le> timer then run_frames E rate (fsub E timer rate) (frame + 1) else Some (timer, frame))"

definition movie_rate :: "urho \<Rightarrow> real" where
  "movie_rate E = fdiv E 1 (flt E (2398 / 100))"

definition title_rate :: "urho \<Rightarrow> real" where
  "title_rate E = fmul E (movie_rate E) (3 / 2)"

section \<open>The title screen\<close>

definition title_sprite :: "game_env \<Rightarrow> widget" where
  "title_sprite W =
     Widget ''Sprite'' ''Title''
       [(''PositionX'', A_real 0), (''PositionY'', A_real (flt (ge_urho W) (- of_nat (ge_height W) / (29 / 10)))),
        (''Width'', A_int 1024), (''Height'', A_int 512), (''HotSpotX'', A_int 512), (''HotSpotY'', A_int 256),
        (''Alignment'', A_str ''HA_CENTER, VA_CENTER'')] []"

definition title_text :: string where
  "title_text = concat [''Press [space] or (A)'', nl, ''to begin the adventure.'', nl, nl,
     ''Alternatively, skip to a'', nl, ''specific level with [1] to [9]'']"

definition title_container_widget :: widget where
  "title_container_widget =
     Widget ''UIElement'' [] [(''Width'', A_int 850), (''Height'', A_int 400), (''Alignment'', A_str ''HA_CENTER, VA_CENTER'')]
       [Widget ''Text'' ''TitleText'' [(''Font'', A_str ''Fonts/Anonymous Pro.ttf''), (''FontSize'', A_int 24),
          (''Color'', A_color BLACK), (''Alignment'', A_str ''HA_LEFT, VA_BOTTOM''), (''TextAlignment'', A_str ''HA_LEFT''),
          (''Text'', A_str title_text)] []]"

definition menu_show :: "game_env \<Rightarrow> game \<Rightarrow> game" where
  "menu_show W g =
     (let g1 = (if get_child ''TitleContainer'' (sc_nodes (gm_scene g)) = None
                then call (Call ''SetCamera'' [A_str ''Camera''])
                       (call (Call ''BuildNavigationMesh'' []) (g\<lparr>gm_scene := title_scene (ge_urho W) (ge_res W)\<rparr>))
                else g)
      in if find_widget ''Title'' (gm_ui g1) = None
         then add_widget title_container_widget (add_widget (title_sprite W) (clear_screen W False g1))
         else g1)"

definition menu_anim :: "game_env \<Rightarrow> real \<Rightarrow> game \<Rightarrow> game option" where
  "menu_anim W dt g =
     (let E = ge_urho W in
      if 0 \<le> gm_titleFrame g
      then (let t = fadd E (gm_titleTimer g) dt in
            if title_rate E \<le> t
            then do {
                (timer, frame) \<leftarrow> run_frames E (title_rate E) t (gm_titleFrame g);
                (case get_resource (ge_res W) (''Textures/logo_anim/'' @ show_int frame @ ''.png'') of
                   Some tex \<Rightarrow> do {
                       ui \<leftarrow> set_texture ''Title'' tex (gm_ui g);
                       Some (g\<lparr>gm_titleTimer := timer, gm_titleFrame := frame, gm_ui := ui\<rparr>)
                     }
                 | None \<Rightarrow> Some (g\<lparr>gm_titleTimer := 0, gm_titleFrame := - 1\<rparr>))
              }
            else Some (g\<lparr>gm_titleTimer := t\<rparr>))
      else Some g)"

text \<open>The keys for the levels; \<open>- 1\<close> for none.\<close>

definition target_level :: "frame_in \<Rightarrow> int" where
  "target_level inp =
     (if fi_press inp KEY_1 then 0 else if fi_press inp KEY_2 then 1 else if fi_press inp KEY_3 then 2
      else if fi_press inp KEY_4 then 3 else if fi_press inp KEY_5 then 4 else if fi_press inp KEY_6 then 5
      else if fi_press inp KEY_7 then 6 else if fi_press inp KEY_8 then 7 else if fi_press inp KEY_9 then 8
      else if fi_press inp KEY_0 then 9 else - 1)"

definition menu_choice :: "game_env \<Rightarrow> frame_in \<Rightarrow> bool \<Rightarrow> game \<Rightarrow> game option" where
  "menu_choice W inp space g =
     (let targetLevel = target_level inp in
      if space \<or> targetLevel \<noteq> - 1
      then (let g1 = clear_screen W True g in
            if space \<or> targetLevel = 9
            then (let g2 = add_widget (movie_sprite W) g1 in
                  if space then Some ((play_source W ''Audio/Intro.ogg'' g2)\<lparr>gm_state := GS_INTRO\<rparr>)
                  else Some (g2\<lparr>gm_state := GS_CREDITS\<rparr>))
            else load_level W (g1\<lparr>gm_level := targetLevel\<rparr>))
      else Some g)"

definition menu_step :: "game_env \<Rightarrow> frame_in \<Rightarrow> bool \<Rightarrow> game \<Rightarrow> game option" where
  "menu_step W inp space g =
     (if gm_state g = GS_MENU
      then Option.bind (menu_anim W (fi_dt inp) (menu_show W g)) (menu_choice W inp space)
      else Some g)"

section \<open>Intro, animated materials, credits\<close>

definition intro_step :: "game_env \<Rightarrow> real \<Rightarrow> game \<Rightarrow> game option" where
  "intro_step W dt g =
     (let E = ge_urho W; t = fadd E (gm_introTimer g) dt in
      if movie_rate E \<le> t
      then do {
          (timer, frame) \<leftarrow> run_frames E (movie_rate E) t (gm_introFrame g);
          (case get_resource (ge_res W) (''Textures/intro/'' @ show_int frame @ ''.jpeg'') of
             Some tex \<Rightarrow> do {
                 ui \<leftarrow> set_texture ''Movie'' tex (gm_ui g);
                 Some (g\<lparr>gm_introTimer := timer, gm_introFrame := frame, gm_ui := ui\<rparr>)
               }
           | None \<Rightarrow> load_level W (g\<lparr>gm_introTimer := 0, gm_introFrame := 0\<rparr>))
        }
      else Some (g\<lparr>gm_introTimer := t\<rparr>))"

text \<open>One entry of the table: the entry and the texture that is set, if a frame is due. The number
  of frames is found out when the first file is missing. The texture may be null, the material
  may not.\<close>

definition anim_step :: "game_env \<Rightarrow> real \<Rightarrow> anim_entry \<Rightarrow> (anim_entry \<times> (string \<times> string option) option) option" where
  "anim_step W dt a =
     (let E = ge_urho W; rs = ge_res W; frameRate = fdiv E 1 (an_rate a); t = fadd E (an_timer a) dt in
      if t < frameRate then Some (a\<lparr>an_timer := t\<rparr>, None)
      else (let a1 = a\<lparr>an_timer := fsub E t frameRate, an_frame := an_frame a + 1\<rparr>;
                texture = (if an_count a1 \<le> an_frame a1 then None
                           else get_resource rs (an_path a1 @ show_int (an_frame a1) @ ''.png''));
                (a2, texture2) = (if texture = None
                   then (a1\<lparr>an_count := an_frame a1, an_frame := 1\<rparr>, get_resource rs (an_path a1 @ ''1.png''))
                   else (a1, texture))
            in if \<not> rs_loaded rs (an_material a2) then None
               else Some (a2, Some (an_material a2, texture2))))"

primrec animate :: "game_env \<Rightarrow> real \<Rightarrow> anim_entry list \<Rightarrow> (anim_entry list \<times> (string \<times> string option) list) option" where
  "animate W dt [] = Some ([], [])"
| "animate W dt (a # as) =
     Option.bind (anim_step W dt a) (\<lambda>(a', s).
       map_option (\<lambda>(as', ss). (a' # as', (case s of None \<Rightarrow> ss | Some x \<Rightarrow> x # ss))) (animate W dt as))"

definition play_step :: "game_env \<Rightarrow> real \<Rightarrow> game \<Rightarrow> game option" where
  "play_step W dt g =
     (let g1 = (if gm_state g = GS_PLAYING then g\<lparr>gm_levelTime := fadd (ge_urho W) (gm_levelTime g) dt\<rparr> else g) in
      map_option
        (\<lambda>(as, sets). g1\<lparr>gm_animated := as, gm_calls := gm_calls g1 @
            map (\<lambda>(m, t). Call ''SetTexture'' [A_str m, A_str ''TU_DIFFUSE'', A_res t]) sets\<rparr>)
        (animate W dt (gm_animated g1)))"

definition final_text :: "urho \<Rightarrow> game \<Rightarrow> string" where
  "final_text E g =
     snprintf512
       ['' Completion Time: '', clock_text (clock_fields E (gm_totalTime g)), nl,
        ''     Total Score: '', show_int (gm_totalScore g), nl, nl, nl, nl,
        ''Can you do better next time?'', nl, nl,
        ''           '', (if gm_joystick g = - 1 then ''[space]'' else ''  (A)  '')]"

definition credits_step :: "game_env \<Rightarrow> real \<Rightarrow> game \<Rightarrow> game option" where
  "credits_step W dt g =
     (let E = ge_urho W; t = fadd E (gm_creditsTimer g) dt in
      if movie_rate E \<le> t
      then do {
          (timer, frame) \<leftarrow> run_frames E (movie_rate E) t (gm_creditsFrame g);
          (case get_resource (ge_res W) (''Textures/credits/'' @ show_int frame @ ''.jpeg'') of
             Some tex \<Rightarrow> do {
                 ui \<leftarrow> set_texture ''Movie'' tex (gm_ui g);
                 Some (g\<lparr>gm_creditsTimer := timer, gm_creditsFrame := frame, gm_ui := ui\<rparr>)
               }
           | None \<Rightarrow>
               Some (add_widget
                 (Widget ''Text'' [] [(''Font'', A_str ''Fonts/Anonymous Pro.ttf''), (''Color'', A_color WHITE),
                    (''Alignment'', A_str ''HA_CENTER, VA_CENTER''), (''Text'', A_str (final_text E g))] [])
                 (clear_screen W False (g\<lparr>gm_state := GS_FINISHED, gm_creditsTimer := 0, gm_creditsFrame := 0\<rparr>))))
        }
      else Some (g\<lparr>gm_creditsTimer := t\<rparr>))"

definition state_step :: "game_env \<Rightarrow> real \<Rightarrow> game \<Rightarrow> game option" where
  "state_step W dt g =
     (if gm_state g = GS_INTRO then intro_step W dt g
      else if gm_state g = GS_MENU \<or> gm_state g = GS_PLAYING then play_step W dt g
      else if gm_state g = GS_CREDITS then credits_step W dt g
      else Some g)"

section \<open>The developer's keys\<close>

text \<open>Every node with a padlock is removed.\<close>

primrec prune :: "string \<Rightarrow> snode \<Rightarrow> snode list" where
  "prune c (SNode n p r s e vs cs ch) =
     (if list_ex (\<lambda>k. cp_type k = c) cs then [] else [SNode n p r s e vs cs (concat (map (prune c) ch))])"

definition developer_toggles :: "frame_in \<Rightarrow> game \<Rightarrow> game" where
  "developer_toggles inp g =
     (let g1 = (if fi_press inp KEY_0 then g\<lparr>gm_depthTest := \<not> gm_depthTest g\<rparr> else g);
          g2 = (if fi_press inp KEY_1 then g1\<lparr>gm_geometry := \<not> gm_geometry g1\<rparr> else g1);
          g3 = (if fi_press inp KEY_2 then g2\<lparr>gm_physics := \<not> gm_physics g2\<rparr> else g2);
          g4 = (if fi_press inp KEY_3 then g3\<lparr>gm_navigation := \<not> gm_navigation g3\<rparr> else g3)
      in if fi_press inp KEY_D then g4\<lparr>gm_hud := \<not> gm_hud g4\<rparr> else g4)"

definition developer_reload :: "game_env \<Rightarrow> frame_in \<Rightarrow> game \<Rightarrow> game option" where
  "developer_reload W inp g =
     (if gm_state g = GS_PLAYING \<and> fi_press inp KEY_R
      then load_level W (call (Call ''ReleaseAllResources'' [A_bool True]) g) else Some g)"

definition developer_win :: "game_env \<Rightarrow> frame_in \<Rightarrow> game \<Rightarrow> game option" where
  "developer_win W inp g =
     (if gm_state g = GS_PLAYING \<and> fi_press inp KEY_N then end_level W (fi_status inp) False False g else Some g)"

definition developer_unlock :: "frame_in \<Rightarrow> game \<Rightarrow> game" where
  "developer_unlock inp g =
     (if fi_press inp KEY_U
      then g\<lparr>gm_scene := (gm_scene g)\<lparr>sc_nodes := concat (map (prune ''Padlock'') (sc_nodes (gm_scene g)))\<rparr>\<rparr>
      else g)"

definition developer_keys :: "game_env \<Rightarrow> frame_in \<Rightarrow> game \<Rightarrow> game option" where
  "developer_keys W inp g = do {
     g1 \<leftarrow> developer_reload W inp g;
     g2 \<leftarrow> developer_win W inp g1;
     g3 \<leftarrow> (if fi_press inp KEY_C then None else Some (developer_unlock inp g2));
     Some (let debugRendering = gm_geometry g3 \<or> gm_physics g3 \<or> gm_navigation g3 in
           g3\<lparr>gm_calls := gm_calls g3 @ [Call ''SetEnabled'' [A_str ''FXAA3'', A_bool (\<not> debugRendering)],
              Call ''SetEnabled'' [A_str ''BloomHDR'', A_bool (\<not> debugRendering)]]\<rparr>)
   }"

definition developer_step :: "game_env \<Rightarrow> frame_in \<Rightarrow> game \<Rightarrow> game option" where
  "developer_step W inp g =
     (if gm_developer g then developer_keys W inp (developer_toggles inp g)
      else if fi_press inp KEY_BACKQUOTE then Some (g\<lparr>gm_developer := True\<rparr>) else Some g)"

section \<open>The cheat code\<close>

text \<open>Every point light of the scene gets a random colour, in the order of
  \<open>GetChildrenWithComponent\<close>, and one light in three casts shadows: \<open>n\<close> counts the pairs of random numbers
  that have been drawn.\<close>

definition set_attr :: "string \<Rightarrow> attr \<Rightarrow> (string \<times> attr) list \<Rightarrow> (string \<times> attr) list" where
  "set_attr k v as = (k, v) # filter (\<lambda>a. fst a \<noteq> k) as"

definition is_point_light :: "comp \<Rightarrow> bool" where
  "is_point_light c \<longleftrightarrow> map_of (cp_attrs c) ''LightType'' = Some (A_str ''LIGHT_POINT'')"

definition recolor_light :: "game_env \<Rightarrow> frame_in \<Rightarrow> nat \<Rightarrow> comp \<Rightarrow> comp" where
  "recolor_light W inp n c =
     Comp (cp_type c) (set_attr ''CastShadows'' (A_bool (fi_rand inp n mod 3 = 0))
       (set_attr ''Color'' (A_color (ge_hsv W (fi_hue inp n) 1 1)) (cp_attrs c)))"

fun recolor_comps :: "game_env \<Rightarrow> frame_in \<Rightarrow> nat \<Rightarrow> comp list \<Rightarrow> comp list \<times> nat" where
  "recolor_comps W inp n [] = ([], n)"
| "recolor_comps W inp n (c # cs) =
     (if cp_type c = ''Light''
      then (if is_point_light c then (recolor_light W inp n c # cs, Suc n) else (c # cs, n))
      else (case recolor_comps W inp n cs of (cs', m) \<Rightarrow> (c # cs', m)))"

fun recolor :: "game_env \<Rightarrow> frame_in \<Rightarrow> nat \<Rightarrow> snode \<Rightarrow> snode \<times> nat"
  and recolor_list :: "game_env \<Rightarrow> frame_in \<Rightarrow> nat \<Rightarrow> snode list \<Rightarrow> snode list \<times> nat" where
  "recolor W inp k (SNode n p r s e vs cs ch) =
     (case recolor_comps W inp k cs of (cs', k1) \<Rightarrow>
        case recolor_list W inp k1 ch of (ch', k2) \<Rightarrow> (SNode n p r s e vs cs' ch', k2))"
| "recolor_list W inp k [] = ([], k)"
| "recolor_list W inp k (x # xs) =
     (case recolor W inp k x of (x', k1) \<Rightarrow> case recolor_list W inp k1 xs of (xs', k2) \<Rightarrow> (x' # xs', k2))"

text \<open>The code is popped from its back; \<open>Back()\<close> of an empty vector is undefined.\<close>

definition disco_step :: "game_env \<Rightarrow> frame_in \<Rightarrow> game \<Rightarrow> game option" where
  "disco_step W inp g =
     (if gm_unce g
      then (let g1 = (if flt (ge_urho W) (2 / 10) \<le> gm_colorTimer g
                      then g\<lparr>gm_colorTimer := 0, gm_scene := (gm_scene g)\<lparr>sc_nodes := fst (recolor_list W inp 0 (sc_nodes (gm_scene g)))\<rparr>\<rparr>
                      else g)
            in Some (g1\<lparr>gm_colorTimer := fadd (ge_urho W) (gm_colorTimer g1) (fi_dt inp)\<rparr>))
      else (case v_back (gm_cheat g) of
              None \<Rightarrow> None
            | Some k \<Rightarrow>
                if fi_down inp k
                then (let g1 = g\<lparr>gm_cheat := v_pop (gm_cheat g)\<rparr>
                      in Some (if gm_cheat g1 = [] then g1\<lparr>gm_unce := True\<rparr> else g1))
                else Some g))"

section \<open>The frame\<close>

definition handle_update :: "game_env \<Rightarrow> frame_in \<Rightarrow> game \<Rightarrow> game option" where
  "handle_update W inp g = do {
     g1 \<leftarrow> Some (stats_step inp (exit_step inp g));
     (g2, space) \<leftarrow> skip_step W (space_pressed inp g1) g1;
     g3 \<leftarrow> menu_step W inp space g2;
     g4 \<leftarrow> state_step W (fi_dt inp) g3;
     g5 \<leftarrow> developer_step W inp g4;
     disco_step W inp g5
   }"

text \<open>\<open>HandlePostRenderUpdate\<close>: the debug geometry; the physics world and the navigation mesh are
  null pointers if the scene does not have them.\<close>

definition scene_has :: "string \<Rightarrow> level_scene \<Rightarrow> bool" where
  "scene_has c sc = list_ex (\<lambda>k. cp_type k = c) (sc_comps sc)"

definition handle_post_render :: "game \<Rightarrow> game option" where
  "handle_post_render g =
     (if gm_physics g \<and> \<not> scene_has ''PhysicsWorld'' (gm_scene g) then None
      else if gm_navigation g \<and> \<not> scene_has ''NavigationMesh'' (gm_scene g) then None
      else Some (g\<lparr>gm_calls := gm_calls g @
        (if gm_geometry g then [Call ''DrawDebugGeometry'' [A_str ''Renderer'', A_bool (gm_depthTest g)]] else []) @
        (if gm_physics g then [Call ''DrawDebugGeometry'' [A_str ''PhysicsWorld'', A_bool (gm_depthTest g)]] else []) @
        (if gm_navigation g then [Call ''DrawDebugGeometry'' [A_str ''NavigationMesh'', A_bool (gm_depthTest g)]] else [])\<rparr>))"

end
