(* ===== verification/GameRun.thy ===== *)
theory GameRun
  imports Frame
begin

text \<open>
  The game as it runs: the clocks of its animations end, the states it can reach, an invariant of
  them, and that no frame of a reachable state fails.
\<close>

section \<open>The clocks\<close>

text \<open>The loop over the frames that are due ends, for a time step of up to a million frames.\<close>

lemma run_frames_returns:
  assumes fu: "float_unit (flt E)" and r: "2 powi (- 146) \<le> r"
  shows "0 \<le> t \<Longrightarrow> t \<le> 2 ^ 20 * r \<Longrightarrow> 2 * t < of_nat n * r \<Longrightarrow>
    \<exists>t' f'. run_frames E r t f = Some (t', f') \<and> 0 \<le> t' \<and> t' < r \<and> f \<le> f' \<and> f' \<le> f + int n"
proof (induction n arbitrary: t f)
  case 0
  then show ?case by simp
next
  case (Suc n)
  have r0: "0 < r" using r powi_pos by (meson less_le_trans)
  have small: "1 / 2 ^ 150 \<le> r / 16" using r by (simp add: power_int_def field_simps)
  show ?case
  proof (cases "r \<le> t")
    case False
    then show ?thesis using Suc.prems by (subst run_frames.simps) auto
  next
    case True
    let ?u = "fsub E t r"
    have "\<bar>t - r\<bar> / 2 ^ 24 \<le> r / 16" using True Suc.prems(2) r0 by simp
    then have "?u \<le> t - r + r / 8"
      using float_unit.rnd_err [OF fu, of "t - r"] small by linarith
    moreover have "0 \<le> ?u" using float_unit.sub_nonneg [OF fu] True by simp
    moreover have "2 * (t - r + r / 8) < of_nat n * r" using Suc.prems(3) r0 by (simp add: algebra_simps)
    moreover have "t - r + r / 8 \<le> t" using r0 by simp
    ultimately obtain t' f' where
      "run_frames E r ?u (f + 1) = Some (t', f')" "0 \<le> t'" "t' < r" "f + 1 \<le> f'" "f' \<le> f + 1 + int n"
      using Suc.IH [of ?u "f + 1"] Suc.prems(2) by fastforce
    then show ?thesis using True by (subst run_frames.simps) auto
  qed
qed

lemma movie_rate_bounds:
  assumes fu: "float_unit (flt E)"
  shows "1 / 32 \<le> movie_rate E" "movie_rate E \<le> 1 / 16"
proof -
  have n: "flt E 23 = 23" "flt E 25 = 25" using float_unit.rnd_numeral [OF fu] by simp_all
  have a: "23 \<le> flt E (2398 / 100)" "flt E (2398 / 100) \<le> 25"
    using float_unit.float_le_rnd [OF fu n(1)] float_unit.rnd_le_float [OF fu n(2)] by simp_all
  have "flt E (of_int 1 / 2 ^ 5) = of_int 1 / 2 ^ 5" "flt E (of_int 1 / 2 ^ 4) = of_int 1 / 2 ^ 4"
    by (rule float_unit.rnd_dyadic [OF fu]; simp)+
  then have d: "flt E (1 / 32) = 1 / 32" "flt E (1 / 16) = 1 / 16" by simp_all
  have "1 / 32 \<le> 1 / flt E (2398 / 100)" "1 / flt E (2398 / 100) \<le> 1 / 16"
    using a by (simp_all add: field_simps)
  then show "1 / 32 \<le> movie_rate E" "movie_rate E \<le> 1 / 16"
    unfolding movie_rate_def
    using float_unit.float_le_rnd [OF fu d(1)] float_unit.rnd_le_float [OF fu d(2)] by blast+
qed

lemma title_rate_bounds:
  assumes fu: "float_unit (flt E)"
  shows "1 / 32 \<le> title_rate E" "title_rate E \<le> 1 / 8"
proof -
  have "flt E (of_int 1 / 2 ^ 5) = of_int 1 / 2 ^ 5" "flt E (of_int 1 / 2 ^ 3) = of_int 1 / 2 ^ 3"
    by (rule float_unit.rnd_dyadic [OF fu]; simp)+
  then have d: "flt E (1 / 32) = 1 / 32" "flt E (1 / 8) = 1 / 8" by simp_all
  have "1 / 32 \<le> movie_rate E * (3 / 2)" "movie_rate E * (3 / 2) \<le> 1 / 8"
    using movie_rate_bounds [OF fu] by simp_all
  then show "1 / 32 \<le> title_rate E" "title_rate E \<le> 1 / 8"
    unfolding title_rate_def
    using float_unit.float_le_rnd [OF fu d(1)] float_unit.rnd_le_float [OF fu d(2)] by blast+
qed

text \<open>A frame of at most a thousand seconds, on a clock that has been run before.\<close>

lemma clock_returns:
  assumes fu: "float_unit (flt E)" and r: "1 / 32 \<le> r" "r \<le> 1 / 8" and t: "0 \<le> t" "t < r" and dt: "0 \<le> dt" "dt \<le> 1000"
  shows "\<exists>t' f'. run_frames E r (fadd E t dt) f = Some (t', f') \<and> 0 \<le> t' \<and> t' < r \<and> f \<le> f' \<and> f' \<le> f + 65600"
proof -
  have n: "flt E 1001 = 1001" using float_unit.rnd_numeral [OF fu] by simp
  have b: "0 \<le> fadd E t dt" "fadd E t dt \<le> 1001"
    using float_unit.rnd_nonneg [OF fu, of "t + dt"] float_unit.rnd_le_float [OF fu n, of "t + dt"] t dt r by auto
  have "(2::real) powi (- 146) \<le> 1 / 32" by (simp add: power_int_def field_simps)
  then have "2 powi (- 146) \<le> r" using r by linarith
  moreover have "fadd E t dt \<le> 2 ^ 20 * r" "2 * fadd E t dt < of_nat 65600 * r" using b(2) r by simp_all
  ultimately show ?thesis using run_frames_returns [OF fu _ b(1), of r 65600 f] by auto
qed

section \<open>The invariant\<close>

text \<open>The scene of each state: nothing but a sound while a movie runs, the world and the player in a
  level.\<close>

definition player_in :: "level_scene \<Rightarrow> bool" where
  "player_in sc = list_ex (\<lambda>n. sn_name n = ''Person'' \<and> \<not> has_comp ''Padlock'' n) (sc_nodes sc)"

definition world_in :: "level_scene \<Rightarrow> bool" where
  "world_in sc \<longleftrightarrow> scene_has ''PhysicsWorld'' sc \<and> scene_has ''NavigationMesh'' sc"

definition scene_inv :: "game_state \<Rightarrow> level_scene \<Rightarrow> bool" where
  "scene_inv st sc =
     (if st = GS_MENU then sc_nodes sc = [] \<or> world_in sc
      else if st \<in> {GS_PLAYING, GS_DEAD, GS_STAIRS} then world_in sc \<and> player_in sc
      else sc_nodes sc = [] \<and> \<not> scene_has ''PhysicsWorld'' sc \<and> \<not> scene_has ''NavigationMesh'' sc)"

definition clock_inv :: "urho \<Rightarrow> game \<Rightarrow> bool" where
  "clock_inv E g \<longleftrightarrow>
     0 \<le> gm_titleTimer g \<and> gm_titleTimer g < title_rate E \<and>
     0 \<le> gm_introTimer g \<and> gm_introTimer g < movie_rate E \<and>
     0 \<le> gm_creditsTimer g \<and> gm_creditsTimer g < movie_rate E \<and>
     map an_material (gm_animated g) = map an_material animated_table \<and>
     (gm_unce g \<or> gm_cheat g \<noteq> [])"

definition game_inv :: "urho \<Rightarrow> game \<Rightarrow> bool" where
  "game_inv E g \<longleftrightarrow> clock_inv E g \<and> scene_inv (gm_state g) (gm_scene g) \<and>
     (gm_state g \<in> {GS_INTRO, GS_CREDITS} \<longrightarrow> find_widget ''Movie'' (gm_ui g) \<noteq> None) \<and>
     (gm_state g \<notin> {GS_PLAYING, GS_DEAD, GS_STAIRS} \<longrightarrow> gm_level g = 0)"

text \<open>The resources a run relies on: the eight animated materials, and levels whose guards have
  waypoints (and footsteps).\<close>

definition env_ok :: "game_env \<Rightarrow> bool" where
  "env_ok W \<longleftrightarrow> list_all (\<lambda>a. rs_loaded (ge_res W) (an_material a)) animated_table \<and>
     (\<forall>level im. rs_image (ge_res W) (''Levels/'' @ show_int (level + 1) @ ''.png'') = Some im \<longrightarrow>
        \<not> list_ex (bad_guards (ge_res W) level) (floor_grid im))"

lemma clock_inv_core: "core_of g = core_of g' \<Longrightarrow> clock_inv E g = clock_inv E g'"
  by (simp add: core_of_def clock_inv_def)

lemma clear_screen_clock [simp]: "clock_inv E (clear_screen W b g) = clock_inv E g"
  using clock_inv_core [OF clear_screen_sel(8)] .

lemma clock_inv_upd [simp]:
  "clock_inv E (g\<lparr>gm_state := a\<rparr>) = clock_inv E g" "clock_inv E (g\<lparr>gm_level := b\<rparr>) = clock_inv E g"
  "clock_inv E (g\<lparr>gm_ui := c\<rparr>) = clock_inv E g" "clock_inv E (g\<lparr>gm_scene := d\<rparr>) = clock_inv E g"
  "clock_inv E (g\<lparr>gm_calls := e\<rparr>) = clock_inv E g" "clock_inv E (g\<lparr>gm_levelTime := f\<rparr>) = clock_inv E g"
  "clock_inv E (g\<lparr>gm_totalTime := h\<rparr>) = clock_inv E g" "clock_inv E (g\<lparr>gm_totalScore := i\<rparr>) = clock_inv E g"
  "clock_inv E (g\<lparr>gm_exitTimer := j\<rparr>) = clock_inv E g" "clock_inv E (g\<lparr>gm_stats := k\<rparr>) = clock_inv E g"
  "clock_inv E (g\<lparr>gm_titleFrame := l\<rparr>) = clock_inv E g" "clock_inv E (g\<lparr>gm_introFrame := m\<rparr>) = clock_inv E g"
  "clock_inv E (g\<lparr>gm_creditsFrame := n\<rparr>) = clock_inv E g" "clock_inv E (g\<lparr>gm_developer := p\<rparr>) = clock_inv E g"
  "clock_inv E (g\<lparr>gm_colorTimer := x\<rparr>) = clock_inv E g" "clock_inv E (g\<lparr>gm_joystick := y\<rparr>) = clock_inv E g"
  "clock_inv E (call cl g) = clock_inv E g"
  by (simp_all add: clock_inv_def)

lemma core_of_upd [simp]:
  "core_of (g\<lparr>gm_state := a\<rparr>) = core_of g" "core_of (g\<lparr>gm_level := b\<rparr>) = core_of g"
  "core_of (g\<lparr>gm_ui := c\<rparr>) = core_of g" "core_of (g\<lparr>gm_scene := d\<rparr>) = core_of g"
  "core_of (g\<lparr>gm_calls := e\<rparr>) = core_of g" "core_of (g\<lparr>gm_levelTime := f\<rparr>) = core_of g"
  "core_of (g\<lparr>gm_totalTime := h\<rparr>) = core_of g" "core_of (g\<lparr>gm_totalScore := i\<rparr>) = core_of g"
  "core_of (g\<lparr>gm_exitTimer := j\<rparr>) = core_of g" "core_of (g\<lparr>gm_stats := k\<rparr>) = core_of g"
  "core_of (call cl g) = core_of g"
  by (simp_all add: core_of_def)

lemma play_source_sel [simp]:
  "gm_state (play_source W n g) = gm_state g" "gm_level (play_source W n g) = gm_level g"
  "gm_ui (play_source W n g) = gm_ui g" "clock_inv E (play_source W n g) = clock_inv E g"
  "gm_totalTime (play_source W n g) = gm_totalTime g" "gm_totalScore (play_source W n g) = gm_totalScore g"
  "sc_nodes (gm_scene (play_source W n g)) = sc_nodes (gm_scene g)"
  "c \<noteq> ''SoundSource'' \<Longrightarrow> scene_has c (gm_scene (play_source W n g)) = scene_has c (gm_scene g)"
  "core_of (play_source W n g) = core_of g" "gm_levelTime (play_source W n g) = gm_levelTime g"
  by (simp_all add: play_source_def clock_inv_def scene_has_def core_of_def)

lemma add_widget_sel [simp]:
  "gm_state (add_widget w g) = gm_state g" "gm_level (add_widget w g) = gm_level g"
  "gm_scene (add_widget w g) = gm_scene g" "clock_inv E (add_widget w g) = clock_inv E g"
  "gm_ui (add_widget w g) = gm_ui g @ [w]" "core_of (add_widget w g) = core_of g"
  "gm_totalTime (add_widget w g) = gm_totalTime g" "gm_totalScore (add_widget w g) = gm_totalScore g"
  "gm_levelTime (add_widget w g) = gm_levelTime g"
  by (simp_all add: add_widget_def clock_inv_def core_of_def)

lemma empty_scene_has [simp]: "\<not> scene_has c empty_scene" "sc_nodes empty_scene = []"
  by (simp_all add: empty_scene_def scene_has_def)

lemma world_comps_in [simp]: "sc_comps sc = world_comps E \<Longrightarrow> world_in sc"
  by (simp add: world_in_def scene_has_def world_comps_def)

lemma find_movie [simp]: "find_widget ''Movie'' (ws @ [movie_sprite W]) \<noteq> None"
  by (auto simp: find_widget_def find_None_iff movie_sprite_def)

section \<open>Loading and ending keep it\<close>

lemma build_level_scene:
  assumes "build_level E rs dev level im = Some (sc, msgs)"
  shows "world_in sc \<and> player_in sc"
proof -
  have "sc_comps sc = world_comps E" "person_tree E rs (person_start E im) \<in> set (sc_nodes sc)"
    using assms by (auto simp: build_level_def Let_def)
  moreover have "sn_name (person_tree E rs p) = ''Person'' \<and> \<not> has_comp ''Padlock'' (person_tree E rs p)" for p
    by (simp add: person_tree_def has_comp_def person_plane_def person_body_def)
  ultimately show ?thesis by (auto simp: player_in_def list_ex_iff)
qed

text \<open>What \<open>LoadLevel\<close> does, in its two cases.\<close>

lemma load_level_cases:
  assumes "load_level W g = Some g'"
  shows "core_of g' = core_of g \<and> gm_totalTime g' = gm_totalTime g \<and> gm_totalScore g' = gm_totalScore g \<and>
    gm_levelTime g' = 0 \<and> scene_inv (gm_state g') (gm_scene g') \<and>
    (gm_state g' = GS_CREDITS \<and> gm_level g' = 0 \<and> gm_ui g' = [movie_sprite W] \<or> gm_state g' = GS_PLAYING) \<and>
    (let l = (if gm_state g = GS_STAIRS then gm_level g + 1 else gm_level g) in
     if rs_image (ge_res W) (''Levels/'' @ show_int (l + 1) @ ''.png'') = None
     then gm_state g' = GS_CREDITS \<and> gm_level g' = 0 \<and> gm_ui g' = [movie_sprite W]
     else gm_state g' = GS_PLAYING \<and> gm_level g' = l \<and> gm_ui g' = [])"
proof -
  define l where "l = (if gm_state g = GS_STAIRS then gm_level g + 1 else gm_level g)"
  let ?g = "clear_screen W True (g\<lparr>gm_level := l, gm_state := GS_PLAYING, gm_levelTime := 0\<rparr>)"
  show ?thesis
  proof (cases "rs_image (ge_res W) (''Levels/'' @ show_int (l + 1) @ ''.png'')")
    case None
    then have "g' = play_source W ''Audio/Credits.wav'' (add_widget (movie_sprite W) (?g\<lparr>gm_level := 0, gm_state := GS_CREDITS\<rparr>))"
      using assms by (simp add: load_level_def Let_def l_def)
    then show ?thesis using None by (simp add: l_def [symmetric] scene_inv_def)
  next
    case (Some im)
    obtain sc msgs where b: "build_level (ge_urho W) (ge_res W) (gm_developer ?g) l im = Some (sc, msgs)"
      using assms Some by (auto simp: load_level_def Let_def l_def split: option.splits)
    then have "\<exists>cs. g' = ?g\<lparr>gm_scene := sc, gm_calls := cs\<rparr>"
      using assms Some by (auto simp: load_level_def Let_def l_def)
    then show ?thesis using Some build_level_scene [OF b] by (auto simp: l_def [symmetric] scene_inv_def)
  qed
qed

lemma load_level_Some: "env_ok W \<Longrightarrow> load_level W g \<noteq> None"
  by (auto simp: load_level_def Let_def env_ok_def build_level_def load_rooms_None split: option.splits)

lemma load_level_inv:
  assumes "clock_inv E g" "load_level W g = Some g'"
  shows "game_inv E g'" "gm_state g' \<noteq> GS_MENU"
proof -
  note l = load_level_cases [OF assms(2)]
  have c: "clock_inv E g'" using clock_inv_core [OF l [THEN conjunct1], of E] assms(1) by simp
  have "gm_state g' = GS_CREDITS \<and> gm_level g' = 0 \<and> gm_ui g' = [movie_sprite W] \<or> gm_state g' = GS_PLAYING"
    using l by blast
  moreover have "scene_inv (gm_state g') (gm_scene g')" using l by blast
  ultimately show "game_inv E g'" "gm_state g' \<noteq> GS_MENU"
    using c find_movie [of "[]" W] by (auto simp: game_inv_def)
qed

lemma disable_comp_type [simp]: "cp_type (disable_comp c) = cp_type c"
  by (simp add: disable_comp_def)

lemma freeze_sel [simp]: "sn_name (freeze n) = sn_name n" "has_comp c (freeze n) = has_comp c n"
  by (cases n; simp add: has_comp_def list.pred_map list_ex_iff)+

lemma player_has_person: "player_in sc \<Longrightarrow> has_person sc"
proof -
  have "x \<in> set (all_nodes x)" for x by (cases x) simp
  then show "player_in sc \<Longrightarrow> has_person sc" by (auto simp: player_in_def has_person_def list_ex_iff)
qed

lemma end_level_inv:
  assumes "env_ok W" "clock_inv E g" "world_in (gm_scene g)" "player_in (gm_scene g)"
  shows "\<exists>g'. end_level W st died suppress g = Some g' \<and> game_inv E g' \<and> gm_state g' \<noteq> GS_MENU"
proof -
  let ?g1 = "g\<lparr>gm_totalTime := fadd (ge_urho W) (gm_totalTime g) (gm_levelTime g),
      gm_totalScore := gm_totalScore g +
        level_score (ge_urho W) (gm_levelTime g) (guard_count st) (get_item_count (ls_inventory st)), gm_state := GS_STAIRS\<rparr>"
  show ?thesis
  proof (cases suppress)
    case True
    have "load_level W ?g1 \<noteq> None" by (rule load_level_Some) (rule assms(1))
    then obtain g' where g': "load_level W ?g1 = Some g'" by blast
    moreover have "clock_inv E ?g1" using assms(2) by simp
    ultimately show ?thesis
      using True player_has_person [OF assms(4)] load_level_inv [OF _ g', of E]
      by (simp add: end_level_def Let_def)
  next
    case False
    have "world_in (sc\<lparr>sc_nodes := map freeze (sc_nodes sc)\<rparr>) = world_in sc"
      "player_in (sc\<lparr>sc_nodes := map freeze (sc_nodes sc)\<rparr>) = player_in sc" for sc
      by (simp_all add: world_in_def scene_has_def player_in_def list_ex_iff)
    then show ?thesis
      using False player_has_person [OF assms(4)] assms
      by (simp add: end_level_def Let_def game_inv_def scene_inv_def)
  qed
qed

section \<open>A frame keeps it\<close>

lemma exit_stats_inv: "game_inv E (stats_step inp (exit_step inp g)) = game_inv E g"
  by (simp add: stats_step_def exit_step_def game_inv_def Let_def)

lemma skip_step_inv:
  assumes "env_ok W" "game_inv E g"
  shows "\<exists>g' space'. skip_step W space g = Some (g', space') \<and> game_inv E g'"
proof (cases "gm_state g \<noteq> GS_MENU \<and> gm_state g \<noteq> GS_PLAYING \<and> space \<and> gm_state g \<noteq> GS_CREDITS")
  case True
  obtain g' where "load_level W g = Some g'" using load_level_Some [OF assms(1), of g] by blast
  moreover have "game_inv E g'" using load_level_inv(1) calculation assms(2) unfolding game_inv_def by blast
  ultimately show ?thesis using True by (auto simp: skip_step_def)
next
  case False
  then show ?thesis using assms(2) by (auto simp: skip_step_def game_inv_def scene_inv_def)
qed

lemma menu_show_inv:
  assumes "game_inv E g" "gm_state g = GS_MENU"
  shows "game_inv E (menu_show W g)" "gm_state (menu_show W g) = GS_MENU" "world_in (gm_scene (menu_show W g))"
    "find_widget ''Title'' (gm_ui (menu_show W g)) \<noteq> None"
proof -
  define g1 where "g1 = (if get_child ''TitleContainer'' (sc_nodes (gm_scene g)) = None
                then call (Call ''SetCamera'' [A_str ''Camera''])
                       (call (Call ''BuildNavigationMesh'' []) (g\<lparr>gm_scene := title_scene (ge_urho W) (ge_res W)\<rparr>))
                else g)"
  have w: "world_in (gm_scene g1)"
    using assms by (auto simp: g1_def game_inv_def scene_inv_def get_child_def title_scene_def)
  then have i: "game_inv E g1" "gm_state g1 = GS_MENU"
    using assms by (auto simp: g1_def game_inv_def scene_inv_def)
  have m: "menu_show W g = (if find_widget ''Title'' (gm_ui g1) = None
         then add_widget title_container_widget (add_widget (title_sprite W) (clear_screen W False g1)) else g1)"
    by (simp add: menu_show_def g1_def Let_def)
  show "game_inv E (menu_show W g)" "gm_state (menu_show W g) = GS_MENU" "world_in (gm_scene (menu_show W g))"
    "find_widget ''Title'' (gm_ui (menu_show W g)) \<noteq> None"
    unfolding m using w i by (auto simp: game_inv_def scene_inv_def find_widget_def title_sprite_def)
qed

lemma set_texture_Some: "find_widget n ws \<noteq> None \<Longrightarrow> \<exists>ws'. set_texture n t ws = Some ws' \<and> find_widget n ws' \<noteq> None"
  by (induction ws) (auto simp: find_widget_def)

lemma menu_anim_inv:
  assumes fu: "float_unit (flt (ge_urho W))" and dt: "0 \<le> dt" "dt \<le> 1000"
    and g: "game_inv (ge_urho W) g" "gm_state g = GS_MENU" "world_in (gm_scene g)" "find_widget ''Title'' (gm_ui g) \<noteq> None"
  shows "\<exists>g'. menu_anim W dt g = Some g' \<and> game_inv (ge_urho W) g' \<and> gm_state g' = GS_MENU \<and> world_in (gm_scene g')"
proof -
  let ?E = "ge_urho W" and ?t = "fadd (ge_urho W) (gm_titleTimer g) dt"
  have t: "0 \<le> gm_titleTimer g" "gm_titleTimer g < title_rate ?E" using g(1) by (auto simp: game_inv_def clock_inv_def)
  obtain t' f' where r: "run_frames ?E (title_rate ?E) ?t (gm_titleFrame g) = Some (t', f')" "0 \<le> t'" "t' < title_rate ?E"
    using clock_returns [OF fu title_rate_bounds [OF fu] t dt] by blast
  have nn: "0 \<le> ?t" using float_unit.rnd_nonneg [OF fu] t dt by simp
  have rate: "0 < title_rate ?E" using title_rate_bounds [OF fu] by linarith
  have inv1: "game_inv ?E (g\<lparr>gm_titleTimer := x, gm_titleFrame := k, gm_ui := ui\<rparr>)" if "0 \<le> x" "x < title_rate ?E" for x k ui
    using g(1,2) that by (simp add: game_inv_def clock_inv_def)
  have inv3: "game_inv ?E (g\<lparr>gm_titleTimer := x\<rparr>)" if "0 \<le> x" "x < title_rate ?E" for x
    using g(1,2) that by (simp add: game_inv_def clock_inv_def)
  have inv2: "game_inv ?E (g\<lparr>gm_titleTimer := x, gm_titleFrame := k\<rparr>)" if "0 \<le> x" "x < title_rate ?E" for x k
    using g(1,2) that by (simp add: game_inv_def clock_inv_def)
  show ?thesis
  proof (cases "0 \<le> gm_titleFrame g \<and> title_rate ?E \<le> ?t")
    case due: True
    show ?thesis
    proof (cases "get_resource (ge_res W) (''Textures/logo_anim/'' @ show_int f' @ ''.png'')")
      case None
      then have "menu_anim W dt g = Some (g\<lparr>gm_titleTimer := 0, gm_titleFrame := - 1\<rparr>)"
        using due by (simp add: menu_anim_def Let_def r(1))
      then show ?thesis using g inv2 [of 0] rate by simp
    next
      case (Some tex)
      obtain ui where "set_texture ''Title'' tex (gm_ui g) = Some ui" using set_texture_Some [OF g(4)] by blast
      then have "menu_anim W dt g = Some (g\<lparr>gm_titleTimer := t', gm_titleFrame := f', gm_ui := ui\<rparr>)"
        using due Some by (simp add: menu_anim_def Let_def r(1))
      then show ?thesis using g inv1 [OF r(2,3)] by simp
    qed
  next
    case False
    then have "menu_anim W dt g = Some (if 0 \<le> gm_titleFrame g then g\<lparr>gm_titleTimer := ?t\<rparr> else g)"
      by (simp add: menu_anim_def Let_def)
    then show ?thesis using False g inv3 [of ?t] nn by auto
  qed
qed

lemma menu_choice_inv:
  assumes "env_ok W" "game_inv E g" "gm_state g = GS_MENU" "world_in (gm_scene g)"
  shows "\<exists>g'. menu_choice W inp space g = Some g' \<and> game_inv E g' \<and> (gm_state g' = GS_MENU \<longrightarrow> world_in (gm_scene g'))"
proof -
  let ?c = "clear_screen W True g"
  have c: "clock_inv E ?c" "gm_level g = 0" using assms by (auto simp: game_inv_def)
  consider (stay) "\<not> (space \<or> target_level inp \<noteq> - 1)" | (intro) space
    | (credits) "\<not> space" "target_level inp = 9"
    | (level) "\<not> space" "target_level inp \<noteq> - 1" "target_level inp \<noteq> 9" by blast
  then show ?thesis
  proof cases
    case stay
    then show ?thesis using assms by (simp add: menu_choice_def)
  next
    case intro
    then have "menu_choice W inp space g =
        Some ((play_source W ''Audio/Intro.ogg'' (add_widget (movie_sprite W) ?c))\<lparr>gm_state := GS_INTRO\<rparr>)"
      by (simp add: menu_choice_def Let_def)
    then show ?thesis using c find_movie [of "[]" W] by (simp add: game_inv_def scene_inv_def)
  next
    case credits
    then have "menu_choice W inp space g = Some ((add_widget (movie_sprite W) ?c)\<lparr>gm_state := GS_CREDITS\<rparr>)"
      by (simp add: menu_choice_def Let_def)
    then show ?thesis using c find_movie [of "[]" W] by (simp add: game_inv_def scene_inv_def)
  next
    case level
    then have m: "menu_choice W inp space g = load_level W (?c\<lparr>gm_level := target_level inp\<rparr>)"
      by (simp add: menu_choice_def Let_def)
    have "load_level W (?c\<lparr>gm_level := target_level inp\<rparr>) \<noteq> None" by (rule load_level_Some) (rule assms(1))
    then obtain g' where g': "load_level W (?c\<lparr>gm_level := target_level inp\<rparr>) = Some g'" by blast
    have "clock_inv E (?c\<lparr>gm_level := target_level inp\<rparr>)" using c by simp
    from load_level_inv [OF this g'] show ?thesis using m g' by simp
  qed
qed

text \<open>The invariant after the menu: from here on the title screen has its world.\<close>

definition frame_inv :: "urho \<Rightarrow> game \<Rightarrow> bool" where
  "frame_inv E g \<longleftrightarrow> game_inv E g \<and> (gm_state g = GS_MENU \<longrightarrow> world_in (gm_scene g))"

lemma load_level_frame: "clock_inv E g \<Longrightarrow> load_level W g = Some g' \<Longrightarrow> frame_inv E g'"
  using load_level_inv by (simp add: frame_inv_def)

lemma menu_step_inv:
  assumes "env_ok W" "float_unit (flt (ge_urho W))" "0 \<le> fi_dt inp" "fi_dt inp \<le> 1000" "game_inv (ge_urho W) g"
  shows "\<exists>g'. menu_step W inp space g = Some g' \<and> frame_inv (ge_urho W) g'"
proof (cases "gm_state g = GS_MENU")
  case True
  obtain g' where "menu_anim W (fi_dt inp) (menu_show W g) = Some g'" "game_inv (ge_urho W) g'"
    "gm_state g' = GS_MENU" "world_in (gm_scene g')"
    using menu_anim_inv [OF assms(2-4) menu_show_inv [OF assms(5) True]] by blast
  then show ?thesis
    using menu_choice_inv [OF assms(1), of "ge_urho W" g' inp space] True
    by (auto simp: menu_step_def frame_inv_def)
next
  case False
  then show ?thesis using assms(5) by (simp add: menu_step_def frame_inv_def)
qed

lemma intro_step_inv:
  assumes ok: "env_ok W" and fu: "float_unit (flt (ge_urho W))" and dt: "0 \<le> dt" "dt \<le> 1000"
    and g: "game_inv (ge_urho W) g" "gm_state g = GS_INTRO"
  shows "\<exists>g'. intro_step W dt g = Some g' \<and> frame_inv (ge_urho W) g'"
proof -
  let ?E = "ge_urho W" and ?t = "fadd (ge_urho W) (gm_introTimer g) dt"
  have t: "0 \<le> gm_introTimer g" "gm_introTimer g < movie_rate ?E" using g(1) by (auto simp: game_inv_def clock_inv_def)
  have b: "1 / 32 \<le> movie_rate ?E" "movie_rate ?E \<le> 1 / 8" using movie_rate_bounds [OF fu] by auto
  obtain t' f' where r: "run_frames ?E (movie_rate ?E) ?t (gm_introFrame g) = Some (t', f')" "0 \<le> t'" "t' < movie_rate ?E"
    using clock_returns [OF fu b t dt] by blast
  have nn: "0 \<le> ?t" using float_unit.rnd_nonneg [OF fu] t dt by simp
  have movie: "find_widget ''Movie'' (gm_ui g) \<noteq> None" using g by (auto simp: game_inv_def)
  have inv: "frame_inv ?E (g\<lparr>gm_introTimer := x, gm_introFrame := k, gm_ui := ui\<rparr>)"
    if "0 \<le> x" "x < movie_rate ?E" "find_widget ''Movie'' ui \<noteq> None" for x k ui
    using g that by (simp add: frame_inv_def game_inv_def clock_inv_def)
  show ?thesis
  proof (cases "movie_rate ?E \<le> ?t")
    case False
    then show ?thesis using inv [of ?t "gm_ui g" "gm_introFrame g"] nn movie by (simp add: intro_step_def Let_def)
  next
    case due: True
    show ?thesis
    proof (cases "get_resource (ge_res W) (''Textures/intro/'' @ show_int f' @ ''.jpeg'')")
      case None
      let ?g = "g\<lparr>gm_introTimer := 0, gm_introFrame := 0\<rparr>"
      have i: "intro_step W dt g = load_level W ?g" using due None by (simp add: intro_step_def Let_def r(1))
      have "clock_inv ?E ?g" using g b by (simp add: game_inv_def clock_inv_def)
      then show ?thesis using i load_level_Some [OF ok, of ?g] load_level_frame [of ?E ?g W] by auto
    next
      case (Some tex)
      obtain ui where ui: "set_texture ''Movie'' tex (gm_ui g) = Some ui" "find_widget ''Movie'' ui \<noteq> None"
        using set_texture_Some [OF movie] by blast
      then have "intro_step W dt g = Some (g\<lparr>gm_introTimer := t', gm_introFrame := f', gm_ui := ui\<rparr>)"
        using due Some by (simp add: intro_step_def Let_def r(1))
      then show ?thesis using inv [OF r(2,3) ui(2)] by simp
    qed
  qed
qed

lemma credits_step_inv:
  assumes fu: "float_unit (flt (ge_urho W))" and dt: "0 \<le> dt" "dt \<le> 1000"
    and g: "game_inv (ge_urho W) g" "gm_state g = GS_CREDITS"
  shows "\<exists>g'. credits_step W dt g = Some g' \<and> frame_inv (ge_urho W) g' \<and> gm_state g' \<in> {GS_CREDITS, GS_FINISHED}"
proof -
  let ?E = "ge_urho W" and ?t = "fadd (ge_urho W) (gm_creditsTimer g) dt"
  have t: "0 \<le> gm_creditsTimer g" "gm_creditsTimer g < movie_rate ?E" using g(1) by (auto simp: game_inv_def clock_inv_def)
  have b: "1 / 32 \<le> movie_rate ?E" "movie_rate ?E \<le> 1 / 8" using movie_rate_bounds [OF fu] by auto
  obtain t' f' where r: "run_frames ?E (movie_rate ?E) ?t (gm_creditsFrame g) = Some (t', f')" "0 \<le> t'" "t' < movie_rate ?E"
    using clock_returns [OF fu b t dt] by blast
  have nn: "0 \<le> ?t" using float_unit.rnd_nonneg [OF fu] t dt by simp
  have movie: "find_widget ''Movie'' (gm_ui g) \<noteq> None" using g by (auto simp: game_inv_def)
  have inv: "frame_inv ?E (g\<lparr>gm_creditsTimer := x, gm_creditsFrame := k, gm_ui := ui\<rparr>)"
    if "0 \<le> x" "x < movie_rate ?E" "find_widget ''Movie'' ui \<noteq> None" for x k ui
    using g that by (simp add: frame_inv_def game_inv_def clock_inv_def)
  show ?thesis
  proof (cases "movie_rate ?E \<le> ?t")
    case False
    then show ?thesis using inv [of ?t "gm_ui g" "gm_creditsFrame g"] nn movie g(2) by (simp add: credits_step_def Let_def)
  next
    case due: True
    show ?thesis
    proof (cases "get_resource (ge_res W) (''Textures/credits/'' @ show_int f' @ ''.jpeg'')")
      case None
      let ?g = "clear_screen W False (g\<lparr>gm_state := GS_FINISHED, gm_creditsTimer := 0, gm_creditsFrame := 0\<rparr>)"
      have "\<exists>w. credits_step W dt g = Some (add_widget w ?g)" using due None by (simp add: credits_step_def Let_def r(1)) blast
      moreover have "clock_inv ?E (g\<lparr>gm_state := GS_FINISHED, gm_creditsTimer := 0, gm_creditsFrame := 0\<rparr>)"
        using g b by (simp add: game_inv_def clock_inv_def)
      then have "frame_inv ?E (add_widget w ?g)" "gm_state (add_widget w ?g) = GS_FINISHED" for w
        using g by (simp_all add: frame_inv_def game_inv_def scene_inv_def)
      ultimately show ?thesis by auto
    next
      case (Some tex)
      obtain ui where ui: "set_texture ''Movie'' tex (gm_ui g) = Some ui" "find_widget ''Movie'' ui \<noteq> None"
        using set_texture_Some [OF movie] by blast
      then have "credits_step W dt g = Some (g\<lparr>gm_creditsTimer := t', gm_creditsFrame := f', gm_ui := ui\<rparr>)"
        using due Some by (simp add: credits_step_def Let_def r(1))
      then show ?thesis using inv [OF r(2,3) ui(2)] g(2) by simp
    qed
  qed
qed

lemma anim_step_Some:
  "rs_loaded (ge_res W) (an_material a) \<Longrightarrow> \<exists>a' c. anim_step W dt a = Some (a', c) \<and> an_material a' = an_material a"
  by (auto simp: anim_step_def Let_def)

lemma animate_Some:
  "list_all (\<lambda>m. rs_loaded (ge_res W) m) (map an_material as) \<Longrightarrow>
   \<exists>as' cs. animate W dt as = Some (as', cs) \<and> map an_material as' = map an_material as"
proof (induction as)
  case (Cons a as)
  obtain a' c where "anim_step W dt a = Some (a', c)" "an_material a' = an_material a"
    using anim_step_Some [of W a dt] Cons.prems by auto
  then show ?case using Cons by auto
qed simp

lemma play_step_inv:
  assumes "env_ok W" "frame_inv E g" "gm_state g = GS_MENU \<or> gm_state g = GS_PLAYING"
  shows "\<exists>g'. play_step W dt g = Some g' \<and> frame_inv E g' \<and> gm_state g' = gm_state g"
proof -
  let ?g = "if gm_state g = GS_PLAYING then g\<lparr>gm_levelTime := fadd (ge_urho W) (gm_levelTime g) dt\<rparr> else g"
  have m: "map an_material (gm_animated ?g) = map an_material animated_table"
    using assms(2) by (auto simp: frame_inv_def game_inv_def clock_inv_def)
  have "list_all (\<lambda>m. rs_loaded (ge_res W) m) (map an_material animated_table)"
    using assms(1) by (simp add: env_ok_def list_all_iff)
  then have "list_all (\<lambda>m. rs_loaded (ge_res W) m) (map an_material (gm_animated ?g))" unfolding m .
  then obtain as cs where "animate W dt (gm_animated ?g) = Some (as, cs)" "map an_material as = map an_material animated_table"
    using animate_Some [of W "gm_animated ?g" dt] m by auto
  then show ?thesis
    using assms(2,3) by (auto simp: play_step_def Let_def frame_inv_def game_inv_def clock_inv_def)
qed

lemma state_step_inv:
  assumes "env_ok W" "float_unit (flt (ge_urho W))" "0 \<le> dt" "dt \<le> 1000" "frame_inv (ge_urho W) g"
  shows "\<exists>g'. state_step W dt g = Some g' \<and> frame_inv (ge_urho W) g'"
proof -
  have i: "game_inv (ge_urho W) g" using assms(5) by (simp add: frame_inv_def)
  show ?thesis
    using intro_step_inv [OF assms(1-4) i] play_step_inv [OF assms(1,5), of dt] credits_step_inv [OF assms(2-4) i] assms(5)
    by (cases "gm_state g") (auto simp: state_step_def)
qed

section \<open>The developer's keys and the lights\<close>

text \<open>Removing nodes and colouring lights keep the player and the components of the scene.\<close>

lemma prune_keeps:
  "\<not> has_comp c x \<Longrightarrow> \<exists>x'. prune c x = [x'] \<and> sn_name x' = sn_name x \<and> sn_comps x' = sn_comps x"
  by (cases x) (simp add: has_comp_def)

lemma prune_player:
  assumes "player_in sc" shows "player_in (sc\<lparr>sc_nodes := concat (map (prune ''Padlock'') (sc_nodes sc))\<rparr>)"
proof -
  obtain x where x: "x \<in> set (sc_nodes sc)" "sn_name x = ''Person''" "\<not> has_comp ''Padlock'' x"
    using assms by (auto simp: player_in_def list_ex_iff)
  then obtain x' where "prune ''Padlock'' x = [x']" "sn_name x' = ''Person''" "sn_comps x' = sn_comps x"
    using prune_keeps [OF x(3)] by auto
  then have "x' \<in> set (concat (map (prune ''Padlock'') (sc_nodes sc)))" "\<not> has_comp ''Padlock'' x'"
    using x by (auto simp: has_comp_def intro!: bexI [of _ x])
  then show ?thesis using \<open>sn_name x' = ''Person''\<close> by (auto simp: player_in_def list_ex_iff)
qed

lemma recolor_comps_types: "map cp_type (fst (recolor_comps W inp n cs)) = map cp_type cs"
  by (induction cs arbitrary: n) (simp_all add: recolor_light_def case_prod_beta)

lemma has_comp_types: "has_comp c x \<longleftrightarrow> c \<in> set (map cp_type (sn_comps x))"
  by (auto simp: has_comp_def list_ex_iff)

lemma recolor_keeps:
  "sn_name (fst (recolor W inp k x)) = sn_name x" "has_comp c (fst (recolor W inp k x)) = has_comp c x"
proof -
  show "sn_name (fst (recolor W inp k x)) = sn_name x" by (cases x) (simp split: prod.split)
  have "map cp_type (sn_comps (fst (recolor W inp k x))) = map cp_type (sn_comps x)"
    using recolor_comps_types by (cases x) (simp add: case_prod_beta)
  then show "has_comp c (fst (recolor W inp k x)) = has_comp c x" unfolding has_comp_types by simp
qed

lemma recolor_list_ex:
  "(\<And>k x. P (fst (recolor W inp k x)) = P x) \<Longrightarrow> list_ex P (fst (recolor_list W inp k xs)) = list_ex P xs"
  by (induction xs arbitrary: k) (simp_all add: case_prod_beta)

lemma recolor_list_Nil: "fst (recolor_list W inp k xs) = [] \<longleftrightarrow> xs = []"
  by (cases xs) (simp_all add: case_prod_beta)

lemma frame_inv_scene:
  assumes "frame_inv E g" "sc_comps sc = sc_comps (gm_scene g)" "sc_nodes (gm_scene g) = [] \<Longrightarrow> sc_nodes sc = []"
    and "player_in (gm_scene g) \<Longrightarrow> player_in sc"
  shows "frame_inv E (g\<lparr>gm_scene := sc\<rparr>)"
  using assms by (auto simp: frame_inv_def game_inv_def scene_inv_def world_in_def scene_has_def)

lemma frame_inv_upd [simp]:
  "frame_inv E (g\<lparr>gm_calls := e\<rparr>) = frame_inv E g" "frame_inv E (g\<lparr>gm_developer := p\<rparr>) = frame_inv E g"
  "frame_inv E (g\<lparr>gm_colorTimer := x\<rparr>) = frame_inv E g" "frame_inv E (call c g) = frame_inv E g"
  by (simp_all add: frame_inv_def game_inv_def)

lemma developer_toggles_inv [simp]: "frame_inv E (developer_toggles inp g) = frame_inv E g"
  by (simp add: developer_toggles_def Let_def frame_inv_def game_inv_def clock_inv_def)

lemma developer_reload_inv:
  assumes "env_ok W" "frame_inv E g"
  shows "\<exists>g'. developer_reload W inp g = Some g' \<and> frame_inv E g'"
proof -
  let ?g = "call (Call ''ReleaseAllResources'' [A_bool True]) g"
  have "clock_inv E ?g" using assms(2) by (simp add: frame_inv_def game_inv_def)
  then show ?thesis
    using load_level_Some [OF assms(1), of ?g] load_level_frame [of E ?g W] assms(2) by (auto simp: developer_reload_def)
qed

lemma developer_win_inv:
  assumes "env_ok W" "frame_inv E g"
  shows "\<exists>g'. developer_win W inp g = Some g' \<and> frame_inv E g'"
proof (cases "gm_state g = GS_PLAYING \<and> fi_press inp KEY_N")
  case True
  then have "clock_inv E g" "world_in (gm_scene g)" "player_in (gm_scene g)"
    using assms(2) by (auto simp: frame_inv_def game_inv_def scene_inv_def)
  from end_level_inv [OF assms(1) this, of "fi_status inp" False False] show ?thesis
    using True unfolding frame_inv_def developer_win_def by auto
next
  case False
  then show ?thesis using assms(2) by (simp only: developer_win_def if_False) simp
qed

lemma developer_unlock_inv: "frame_inv E g \<Longrightarrow> frame_inv E (developer_unlock inp g)"
  unfolding developer_unlock_def using prune_player by (auto intro!: frame_inv_scene)

lemma developer_keys_inv:
  assumes "env_ok W" "frame_inv (ge_urho W) g"
  shows "(fi_press inp KEY_C \<longleftrightarrow> developer_keys W inp g = None) \<and>
    (\<forall>g'. developer_keys W inp g = Some g' \<longrightarrow> frame_inv (ge_urho W) g')"
proof -
  obtain g1 where g1: "developer_reload W inp g = Some g1" "frame_inv (ge_urho W) g1"
    using developer_reload_inv [OF assms] by blast
  obtain g2 where g2: "developer_win W inp g1 = Some g2" "frame_inv (ge_urho W) g2"
    using developer_win_inv [OF assms(1) g1(2)] by blast
  show ?thesis
    using developer_unlock_inv [OF g2(2)] by (simp add: developer_keys_def g1(1) g2(1) Let_def)
qed

lemma developer_step_inv:
  assumes "env_ok W" "frame_inv (ge_urho W) g"
  shows "(gm_developer g \<and> fi_press inp KEY_C \<longleftrightarrow> developer_step W inp g = None) \<and>
    (\<forall>g'. developer_step W inp g = Some g' \<longrightarrow> frame_inv (ge_urho W) g')"
  using developer_keys_inv [OF assms(1), of "developer_toggles inp g" inp] assms(2)
  by (auto simp: developer_step_def)

lemma disco_step_inv:
  assumes "frame_inv E g"
  shows "\<exists>g'. disco_step W inp g = Some g' \<and> frame_inv E g'"
proof (cases "gm_unce g")
  case True
  let ?ns = "fst (recolor_list W inp 0 (sc_nodes (gm_scene g)))"
  have "frame_inv E (g\<lparr>gm_scene := (gm_scene g)\<lparr>sc_nodes := ?ns\<rparr>\<rparr>)"
    using recolor_list_ex [of "\<lambda>n. sn_name n = ''Person'' \<and> \<not> has_comp ''Padlock'' n" W inp]
    by (intro frame_inv_scene [OF assms]) (auto simp: player_in_def recolor_keeps)
  then have "frame_inv E (g\<lparr>gm_colorTimer := c, gm_scene := (gm_scene g)\<lparr>sc_nodes := ?ns\<rparr>\<rparr>)" for c
    by (simp add: frame_inv_def game_inv_def)
  then show ?thesis using True assms by (simp add: disco_step_def Let_def)
next
  case False
  then have "gm_cheat g \<noteq> []" using assms by (auto simp: frame_inv_def game_inv_def clock_inv_def)
  then show ?thesis
    using assms False by (auto simp: disco_step_def Let_def v_back_def frame_inv_def game_inv_def clock_inv_def)
qed

section \<open>The whole frame\<close>

text \<open>What a frame leaves alone until the developer's keys are looked at.\<close>

definition keep :: "game \<Rightarrow> bool \<times> bool \<times> key list \<times> real \<times> int" where
  "keep g = (gm_developer g, gm_unce g, gm_cheat g, gm_totalTime g, gm_totalScore g)"

lemma keep_upd [simp]:
  "keep (g\<lparr>gm_state := a\<rparr>) = keep g" "keep (g\<lparr>gm_level := b\<rparr>) = keep g" "keep (g\<lparr>gm_ui := c\<rparr>) = keep g"
  "keep (g\<lparr>gm_scene := d\<rparr>) = keep g" "keep (g\<lparr>gm_calls := e\<rparr>) = keep g" "keep (g\<lparr>gm_levelTime := f\<rparr>) = keep g"
  "keep (g\<lparr>gm_exitTimer := j\<rparr>) = keep g" "keep (g\<lparr>gm_stats := k\<rparr>) = keep g" "keep (call cl g) = keep g"
  "keep (g\<lparr>gm_titleTimer := l\<rparr>) = keep g" "keep (g\<lparr>gm_titleFrame := m\<rparr>) = keep g"
  "keep (g\<lparr>gm_introTimer := n\<rparr>) = keep g" "keep (g\<lparr>gm_introFrame := p\<rparr>) = keep g"
  "keep (g\<lparr>gm_creditsTimer := q\<rparr>) = keep g" "keep (g\<lparr>gm_creditsFrame := r\<rparr>) = keep g"
  "keep (g\<lparr>gm_animated := t\<rparr>) = keep g" "keep (add_widget w g) = keep g" "keep (play_source W s g) = keep g"
  "keep (g\<lparr>gm_joystick := u\<rparr>) = keep g" "keep (g\<lparr>gm_screen := v\<rparr>) = keep g"
  by (simp_all add: keep_def call_def add_widget_def play_source_def)

lemma keep_clear [simp]: "keep (clear_screen W b g) = keep g"
  by (simp add: clear_screen_def Let_def)

lemma keep_load_level: "load_level W g = Some g' \<Longrightarrow> keep g' = keep g"
  using load_level_cases [of W g g'] by (auto simp: keep_def core_of_def)

lemma keep_skip: "skip_step W space g = Some (g', space') \<Longrightarrow> keep g' = keep g"
  by (auto simp: skip_step_def keep_load_level split: if_splits)

lemma keep_menu_show: "keep (menu_show W g) = keep g"
  by (simp add: menu_show_def Let_def)

lemma keep_menu_anim: "menu_anim W dt g = Some g' \<Longrightarrow> keep g' = keep g"
  by (auto simp: menu_anim_def Let_def Option.bind_eq_Some_conv split: if_splits option.splits)

lemma keep_menu_choice: "menu_choice W inp space g = Some g' \<Longrightarrow> keep g' = keep g"
  by (auto simp: menu_choice_def Let_def dest: keep_load_level split: if_splits)

lemma keep_menu_step: "menu_step W inp space g = Some g' \<Longrightarrow> keep g' = keep g"
  by (auto simp: menu_step_def Option.bind_eq_Some_conv keep_menu_show dest!: keep_menu_anim keep_menu_choice split: if_splits)

lemma keep_state_step: "state_step W dt g = Some g' \<Longrightarrow> keep g' = keep g"
  by (auto simp: state_step_def intro_step_def play_step_def credits_step_def Let_def Option.bind_eq_Some_conv
      dest: keep_load_level split: if_splits option.splits)

text \<open>The frame up to the developer's keys.\<close>

definition before_developer :: "game_env \<Rightarrow> frame_in \<Rightarrow> game \<Rightarrow> game option" where
  "before_developer W inp g =
     Option.bind (skip_step W (space_pressed inp (stats_step inp (exit_step inp g))) (stats_step inp (exit_step inp g)))
       (\<lambda>(g2, space). Option.bind (menu_step W inp space g2) (state_step W (fi_dt inp)))"

lemma handle_update_split:
  "handle_update W inp g =
     Option.bind (before_developer W inp g) (\<lambda>g4. Option.bind (developer_step W inp g4) (disco_step W inp))"
  by (simp add: handle_update_def before_developer_def Option.bind_assoc case_prod_beta')

lemma keep_before_developer: "before_developer W inp g = Some g' \<Longrightarrow> keep g' = keep g"
  by (auto simp: before_developer_def Option.bind_eq_Some_conv stats_step_def exit_step_def Let_def
      dest!: keep_skip keep_menu_step keep_state_step split: if_splits)

lemma before_developer_inv:
  assumes "env_ok W" "float_unit (flt (ge_urho W))" "0 \<le> fi_dt inp" "fi_dt inp \<le> 1000" "game_inv (ge_urho W) g"
  shows "\<exists>g'. before_developer W inp g = Some g' \<and> frame_inv (ge_urho W) g'"
proof -
  let ?g1 = "stats_step inp (exit_step inp g)"
  have "game_inv (ge_urho W) ?g1" using assms(5) by (simp add: exit_stats_inv)
  then obtain g2 space where g2: "skip_step W (space_pressed inp ?g1) ?g1 = Some (g2, space)" "game_inv (ge_urho W) g2"
    using skip_step_inv [OF assms(1)] by blast
  obtain g3 where g3: "menu_step W inp space g2 = Some g3" "frame_inv (ge_urho W) g3"
    using menu_step_inv [OF assms(1-4) g2(2)] by blast
  show ?thesis using state_step_inv [OF assms(1-4) g3(2)] by (simp add: before_developer_def g2(1) g3(1))
qed

lemma handle_update_inv:
  assumes "env_ok W" "float_unit (flt (ge_urho W))" "0 \<le> fi_dt inp" "fi_dt inp \<le> 1000" "game_inv (ge_urho W) g"
  shows "(handle_update W inp g = None \<longleftrightarrow> gm_developer g \<and> fi_press inp KEY_C) \<and>
    (\<forall>g'. handle_update W inp g = Some g' \<longrightarrow> frame_inv (ge_urho W) g')"
proof -
  obtain g4 where g4: "before_developer W inp g = Some g4" "frame_inv (ge_urho W) g4"
    using before_developer_inv [OF assms] by blast
  have "gm_developer g4 = gm_developer g" using keep_before_developer [OF g4(1)] by (simp add: keep_def)
  moreover note d = developer_step_inv [OF assms(1) g4(2), of inp]
  ultimately show ?thesis
  proof (cases "developer_step W inp g4")
    case None
    then show ?thesis using d g4(1) \<open>gm_developer g4 = gm_developer g\<close> by (simp add: handle_update_split)
  next
    case (Some g5)
    then have "frame_inv (ge_urho W) g5" using d by simp
    then show ?thesis
      using disco_step_inv [of "ge_urho W" g5 W inp] d Some g4(1) \<open>gm_developer g4 = gm_developer g\<close>
      by (auto simp: handle_update_split)
  qed
qed

section \<open>Reachable states\<close>

text \<open>The game is started; then frames are run, the components of a level end it, and input events
  arrive, in any order.\<close>

inductive reach :: "game_env \<Rightarrow> game \<Rightarrow> bool" for W where
  start: "game_start desktop seed launch W game_new = Some g \<Longrightarrow> reach W g"
| frame: "reach W g \<Longrightarrow> 0 \<le> fi_dt inp \<Longrightarrow> fi_dt inp \<le> 1000 \<Longrightarrow> handle_update W inp g = Some g' \<Longrightarrow> reach W g'"
| ended: "reach W g \<Longrightarrow> gm_state g \<in> {GS_PLAYING, GS_DEAD, GS_STAIRS} \<Longrightarrow> end_level W st died suppress g = Some g' \<Longrightarrow> reach W g'"
| input: "reach W g \<Longrightarrow> reach W (input_event ev joystickId g)"

lemma game_start_inv:
  assumes "float_unit (flt E)" "game_start desktop seed launch W game_new = Some g"
  shows "game_inv E g"
proof -
  have "0 < movie_rate E" "0 < title_rate E" using movie_rate_bounds [OF assms(1)] title_rate_bounds [OF assms(1)] by linarith+
  then show ?thesis
    using assms(2)
    by (auto simp: game_start_def game_setup_def Let_def game_new_def game_inv_def scene_inv_def clock_inv_def call_def
        empty_scene_def split: if_splits)
qed

lemma input_event_inv: "game_inv E (input_event ev j g) = game_inv E g"
  by (simp add: input_event_def controller_start_def controller_end_def game_inv_def split: option.split handler.split)

lemma reach_inv:
  assumes "reach W g" "env_ok W" "float_unit (flt (ge_urho W))"
  shows "game_inv (ge_urho W) g"
  using assms(1)
proof induction
  case (frame g inp g')
  then show ?case using handle_update_inv [OF assms(2,3), of inp g] by (simp add: frame_inv_def)
next
  case (ended g st died suppress g')
  then have "clock_inv (ge_urho W) g" "world_in (gm_scene g)" "player_in (gm_scene g)"
    by (auto simp: game_inv_def scene_inv_def)
  from end_level_inv [OF assms(2) this, of st died suppress] show ?case using ended by auto
qed (use assms(3) in \<open>auto simp: game_start_inv input_event_inv\<close>)

end
