(* ===== verification/GameSpec.thy ===== *)
theory GameSpec
  imports GameRun
begin

text \<open>
  The contract of the game's screens: an abstract state machine over the current screen and level,
  which the frames, the ending of levels and the input events of the detailed model refine.
\<close>

section \<open>The abstract machine\<close>

text \<open>Entering a level shows the credits if the level does not exist, and starts over.\<close>

definition enter :: "(int \<Rightarrow> bool) \<Rightarrow> int \<Rightarrow> game_state \<times> int" where
  "enter X l = (if X l then (GS_PLAYING, l) else (GS_CREDITS, 0))"

abbreviation in_level :: "game_state \<Rightarrow> bool" where
  "in_level st \<equiv> st \<in> {GS_PLAYING, GS_DEAD, GS_STAIRS}"

inductive screen_step :: "(int \<Rightarrow> bool) \<Rightarrow> game_state \<times> int \<Rightarrow> game_state \<times> int \<Rightarrow> bool" for X where
  adventure: "screen_step X (GS_MENU, 0) (GS_INTRO, 0)"
| pick: "0 \<le> l \<Longrightarrow> l \<le> 8 \<Longrightarrow> screen_step X (GS_MENU, 0) (enter X l)"
| watch: "screen_step X (GS_MENU, 0) (GS_CREDITS, 0)"
| intro_over: "screen_step X (GS_INTRO, 0) (enter X 0)"
| killed: "in_level st \<Longrightarrow> screen_step X (st, l) (GS_DEAD, l)"
| completed: "in_level st \<Longrightarrow> screen_step X (st, l) (GS_STAIRS, l)"
| retry: "screen_step X (GS_DEAD, l) (enter X l)"
| ascend: "screen_step X (GS_STAIRS, l) (enter X (l + 1))"
| restart: "screen_step X (GS_PLAYING, l) (enter X l)"
| credits_over: "screen_step X (GS_CREDITS, 0) (GS_FINISHED, 0)"
| leave: "screen_step X (GS_CREDITS, 0) (GS_MENU, 0)"
| again: "screen_step X (GS_FINISHED, 0) (enter X 0)"

abbreviation screen_steps :: "(int \<Rightarrow> bool) \<Rightarrow> game_state \<times> int \<Rightarrow> game_state \<times> int \<Rightarrow> bool" where
  "screen_steps X \<equiv> (screen_step X)\<^sup>*\<^sup>*"

lemma one_step: "screen_step X s t \<Longrightarrow> screen_steps X s t"
  by (rule r_into_rtranclp)

inductive_cases screen_step_from_level: "screen_step X (GS_PLAYING, l) s"

text \<open>What the abstract machine keeps: outside the levels the level is the first, a level that is
  shown exists.\<close>

fun screen_inv :: "(int \<Rightarrow> bool) \<Rightarrow> game_state \<times> int \<Rightarrow> bool" where
  "screen_inv X (st, l) \<longleftrightarrow> 0 \<le> l \<and> (if in_level st then X l else l = 0)"

lemma screen_inv_enter: "0 \<le> l \<Longrightarrow> screen_inv X (enter X l)"
  by (simp add: enter_def)

lemma screen_step_inv: "screen_step X s t \<Longrightarrow> screen_inv X s \<Longrightarrow> screen_inv X t"
  by (induction rule: screen_step.induct) (auto simp: enter_def)

lemma screen_steps_inv: "screen_steps X s t \<Longrightarrow> screen_inv X s \<Longrightarrow> screen_inv X t"
  by (induction rule: rtranclp_induct) (auto intro: one_step screen_step_inv)

section \<open>The abstraction\<close>

definition screen_of :: "game \<Rightarrow> game_state \<times> int" where
  "screen_of g = (gm_state g, gm_level g)"

definition level_exists :: "game_env \<Rightarrow> int \<Rightarrow> bool" where
  "level_exists W l \<longleftrightarrow> rs_image (ge_res W) (''Levels/'' @ show_int (l + 1) @ ''.png'') \<noteq> None"

lemma screen_of_upd [simp]:
  "screen_of (g\<lparr>gm_ui := c\<rparr>) = screen_of g"
  "screen_of (g\<lparr>gm_scene := d\<rparr>) = screen_of g" "screen_of (g\<lparr>gm_calls := e\<rparr>) = screen_of g"
  "screen_of (g\<lparr>gm_levelTime := f\<rparr>) = screen_of g"
  "screen_of (g\<lparr>gm_exitTimer := j\<rparr>) = screen_of g" "screen_of (g\<lparr>gm_stats := k\<rparr>) = screen_of g" "screen_of (call cl g) = screen_of g"
  "screen_of (g\<lparr>gm_titleTimer := l\<rparr>) = screen_of g" "screen_of (g\<lparr>gm_titleFrame := m\<rparr>) = screen_of g"
  "screen_of (g\<lparr>gm_introTimer := n\<rparr>) = screen_of g" "screen_of (g\<lparr>gm_introFrame := p\<rparr>) = screen_of g"
  "screen_of (g\<lparr>gm_creditsTimer := q\<rparr>) = screen_of g" "screen_of (g\<lparr>gm_creditsFrame := r\<rparr>) = screen_of g"
  "screen_of (g\<lparr>gm_animated := t\<rparr>) = screen_of g" "screen_of (add_widget w g) = screen_of g"
  "screen_of (play_source W s g) = screen_of g" "screen_of (g\<lparr>gm_colorTimer := u\<rparr>) = screen_of g"
  "screen_of (g\<lparr>gm_joystick := x\<rparr>) = screen_of g" "screen_of (clear_screen W b g) = screen_of g"
  by (simp_all add: screen_of_def)

lemma load_level_screen:
  "load_level W g = Some g' \<Longrightarrow>
   screen_of g' = enter (level_exists W) (if gm_state g = GS_STAIRS then gm_level g + 1 else gm_level g)"
  using load_level_cases [of W g g']
  by (cases "rs_image (ge_res W) (''Levels/'' @ show_int ((if gm_state g = GS_STAIRS then gm_level g + 1 else gm_level g) + 1) @ ''.png'')")
    (simp_all add: screen_of_def enter_def level_exists_def Let_def)

lemma skip_step_screen:
  assumes "game_inv E g" "skip_step W space g = Some (g', space')"
  shows "screen_steps (level_exists W) (screen_of g) (screen_of g')"
proof -
  let ?l = "if gm_state g = GS_STAIRS then gm_level g + 1 else gm_level g"
  have "screen_step (level_exists W) (screen_of g) (enter (level_exists W) ?l)"
    if "gm_state g \<notin> {GS_MENU, GS_PLAYING, GS_CREDITS}"
    using that assms(1)
    by (cases "gm_state g")
      (auto simp: screen_of_def game_inv_def intro: one_step screen_step.intro_over screen_step.retry screen_step.ascend screen_step.again)
  moreover have "screen_step (level_exists W) (screen_of g) (GS_MENU, gm_level g)" if "gm_state g = GS_CREDITS"
    using that assms(1) by (auto simp: screen_of_def game_inv_def intro: one_step screen_step.leave)
  ultimately show ?thesis
    using assms(2) load_level_screen [of W g g']
    by (auto simp: skip_step_def screen_of_def split: if_splits)
qed

lemma menu_anim_screen: "menu_anim W dt g = Some g' \<Longrightarrow> screen_of g' = screen_of g"
  by (auto simp: menu_anim_def Let_def Option.bind_eq_Some_conv split: if_splits option.splits)

lemma target_level_range: "target_level inp \<noteq> - 1 \<Longrightarrow> target_level inp \<noteq> 9 \<Longrightarrow> 0 \<le> target_level inp \<and> target_level inp \<le> 8"
  by (auto simp: target_level_def split: if_splits)

lemma menu_choice_screen:
  assumes "screen_of g = (GS_MENU, 0)" "menu_choice W inp space g = Some g'"
  shows "screen_steps (level_exists W) (screen_of g) (screen_of g')"
proof (cases "space \<or> target_level inp = - 1 \<or> target_level inp = 9")
  case True
  then have "screen_of g' \<in> {(GS_MENU, 0), (GS_INTRO, 0), (GS_CREDITS, 0)}"
    using assms by (auto simp: menu_choice_def Let_def screen_of_def split: if_splits)
  then show ?thesis
    using assms(1) one_step [OF screen_step.adventure [of "level_exists W"]] one_step [OF screen_step.watch [of "level_exists W"]]
    by auto
next
  case False
  then have "load_level W ((clear_screen W True g)\<lparr>gm_level := target_level inp\<rparr>) = Some g'"
    using assms(2) by (simp add: menu_choice_def Let_def)
  then have "screen_of g' = enter (level_exists W) (target_level inp)"
    using load_level_screen assms(1) by (fastforce simp: screen_of_def)
  then show ?thesis using assms(1) target_level_range [of inp] False by (auto intro: one_step screen_step.pick)
qed

lemma menu_show_screen: "screen_of (menu_show W g) = screen_of g"
  by (simp add: menu_show_def Let_def)

lemma menu_step_screen:
  assumes "game_inv E g" "menu_step W inp space g = Some g'"
  shows "screen_steps (level_exists W) (screen_of g) (screen_of g')"
proof (cases "gm_state g = GS_MENU")
  case True
  then obtain g1 where g1: "menu_anim W (fi_dt inp) (menu_show W g) = Some g1" "menu_choice W inp space g1 = Some g'"
    using assms(2) by (auto simp: menu_step_def Option.bind_eq_Some_conv)
  have s: "screen_of g1 = screen_of g" using menu_anim_screen [OF g1(1)] by (simp add: menu_show_screen)
  have "screen_of g = (GS_MENU, 0)" using True assms(1) by (simp add: screen_of_def game_inv_def)
  then show ?thesis using menu_choice_screen [OF _ g1(2)] s by simp
next
  case False
  then show ?thesis using assms(2) by (simp add: menu_step_def)
qed

lemma state_step_screen:
  assumes "game_inv E g" "state_step W dt g = Some g'"
  shows "screen_steps (level_exists W) (screen_of g) (screen_of g')"
proof -
  have intro: "screen_of g' = screen_of g \<or> screen_of g' = enter (level_exists W) (gm_level g)"
    if "gm_state g = GS_INTRO" "intro_step W dt g = Some g'"
    using that load_level_screen [of W "g\<lparr>gm_introTimer := 0, gm_introFrame := 0\<rparr>" g']
    by (auto simp: intro_step_def Let_def Option.bind_eq_Some_conv split: if_splits option.splits)
  have credits: "screen_of g' = screen_of g \<or> screen_of g' = (GS_FINISHED, gm_level g)"
    if "credits_step W dt g = Some g'"
    using that
    by (auto simp: credits_step_def Let_def Option.bind_eq_Some_conv screen_of_def split: if_splits option.splits)
  have play: "screen_of g' = screen_of g" if "play_step W dt g = Some g'"
    using that by (auto simp: play_step_def Let_def)
  show ?thesis
    using assms intro credits play
      one_step [OF screen_step.intro_over [of "level_exists W"]] one_step [OF screen_step.credits_over [of "level_exists W"]]
    by (auto simp: state_step_def game_inv_def screen_of_def split: if_splits)
qed

lemma end_level_screen:
  assumes "in_level (gm_state g)" "end_level W st died suppress g = Some g'"
  shows "screen_steps (level_exists W) (screen_of g) (screen_of g')"
proof (cases suppress)
  case True
  let ?g = "g\<lparr>gm_totalTime := fadd (ge_urho W) (gm_totalTime g) (gm_levelTime g),
      gm_totalScore := gm_totalScore g +
        level_score (ge_urho W) (gm_levelTime g) (guard_count st) (get_item_count (ls_inventory st)), gm_state := GS_STAIRS\<rparr>"
  have "load_level W ?g = Some g'"
    using True assms(2) by (simp add: end_level_def Let_def split: if_splits)
  then have "screen_of g' = enter (level_exists W) (gm_level g + 1)" using load_level_screen by fastforce
  moreover have "screen_step (level_exists W) (screen_of g) (GS_STAIRS, gm_level g)"
    unfolding screen_of_def using assms(1) by (rule screen_step.completed)
  ultimately show ?thesis using screen_step.ascend by (metis converse_rtranclp_into_rtranclp r_into_rtranclp)
next
  case False
  then have "screen_of g' = (if died then GS_DEAD else GS_STAIRS, gm_level g)"
    using assms(2) by (auto simp: end_level_def Let_def screen_of_def split: if_splits)
  then show ?thesis
    using screen_step.killed [OF assms(1)] screen_step.completed [OF assms(1)] by (auto simp: screen_of_def)
qed

lemma developer_toggles_screen [simp]: "screen_of (developer_toggles inp g) = screen_of g"
  by (simp add: developer_toggles_def Let_def screen_of_def)

lemma developer_reload_screen:
  assumes "developer_reload W inp g = Some g'"
  shows "screen_steps (level_exists W) (screen_of g) (screen_of g')"
proof (cases "gm_state g = GS_PLAYING \<and> fi_press inp KEY_R")
  case True
  then have "screen_of g' = enter (level_exists W) (gm_level g)"
    using assms load_level_screen [of W "call (Call ''ReleaseAllResources'' [A_bool True]) g" g']
    by (simp add: developer_reload_def)
  then show ?thesis using True one_step [OF screen_step.restart] by (metis screen_of_def)
next
  case False
  then show ?thesis using assms by (auto simp: developer_reload_def split: if_splits)
qed

lemma developer_win_screen:
  "developer_win W inp g = Some g' \<Longrightarrow> screen_steps (level_exists W) (screen_of g) (screen_of g')"
  using end_level_screen [of g W "fi_status inp" False False g'] by (auto simp: developer_win_def split: if_splits)

lemma developer_keys_screen:
  assumes "developer_keys W inp g = Some g'"
  shows "screen_steps (level_exists W) (screen_of g) (screen_of g')"
proof -
  obtain g1 g2 where g1: "developer_reload W inp g = Some g1" and g2: "developer_win W inp g1 = Some g2"
    and g': "screen_of g' = screen_of g2"
    using assms by (auto simp: developer_keys_def developer_unlock_def Option.bind_eq_Some_conv Let_def split: if_splits)
  show ?thesis
    unfolding g' using developer_reload_screen [OF g1] developer_win_screen [OF g2] by (rule rtranclp_trans)
qed

lemma developer_step_screen:
  "developer_step W inp g = Some g' \<Longrightarrow> screen_steps (level_exists W) (screen_of g) (screen_of g')"
  using developer_keys_screen [of W inp "developer_toggles inp g" g']
  by (simp add: developer_step_def split: if_splits) (auto simp: screen_of_def)

lemma disco_step_screen: "disco_step W inp g = Some g' \<Longrightarrow> screen_of g' = screen_of g"
  by (auto simp: disco_step_def Let_def screen_of_def split: if_splits option.splits)

lemma input_event_screen: "screen_of (input_event ev j g) = screen_of g"
  by (simp add: input_event_def controller_start_def controller_end_def split: option.split handler.split)

lemma handle_update_screen:
  assumes "env_ok W" "float_unit (flt (ge_urho W))" "0 \<le> fi_dt inp" "fi_dt inp \<le> 1000" "game_inv (ge_urho W) g"
    and "handle_update W inp g = Some g'"
  shows "screen_steps (level_exists W) (screen_of g) (screen_of g')"
proof -
  let ?g1 = "stats_step inp (exit_step inp g)"
  obtain g2 space g3 g4 g5 where
    g2: "skip_step W (space_pressed inp ?g1) ?g1 = Some (g2, space)" and g3: "menu_step W inp space g2 = Some g3" and
    g4: "state_step W (fi_dt inp) g3 = Some g4" and g5: "developer_step W inp g4 = Some g5" and
    g': "disco_step W inp g5 = Some g'"
    using assms(6) by (auto simp: handle_update_def Option.bind_eq_Some_conv)
  have i1: "game_inv (ge_urho W) ?g1" using assms(5) by (simp add: exit_stats_inv)
  have i2: "game_inv (ge_urho W) g2" using skip_step_inv [OF assms(1) i1, of "space_pressed inp ?g1"] g2 by auto
  have i3: "game_inv (ge_urho W) g3" using menu_step_inv [OF assms(1-4) i2, of space] g3 by (auto simp: frame_inv_def)
  have "screen_of ?g1 = screen_of g" by (simp add: stats_step_def exit_step_def Let_def)
  moreover note skip_step_screen [OF i1 g2] menu_step_screen [OF i2 g3] state_step_screen [OF i3 g4]
    developer_step_screen [OF g5]
  ultimately show ?thesis using disco_step_screen [OF g'] by (metis rtranclp_trans)
qed

lemma reach_screen:
  assumes "reach W g" "env_ok W" "float_unit (flt (ge_urho W))"
  shows "screen_steps (level_exists W) (GS_MENU, 0) (screen_of g)"
  using assms(1)
proof induction
  case (start desktop seed launch g)
  then have "screen_of g = (GS_MENU, 0)"
    by (auto simp: game_start_def game_setup_def Let_def screen_of_def game_new_def split: if_splits)
  then show ?case by simp
next
  case (frame g inp g')
  then show ?case
    using handle_update_screen [OF assms(2,3) _ _ reach_inv [OF frame.hyps(1) assms(2,3)]] by (meson rtranclp_trans)
next
  case (ended g st died suppress g')
  then show ?case using end_level_screen by (meson rtranclp_trans)
qed (simp add: input_event_screen)

end
