(* ===== verification/GameProps.thy ===== *)
theory GameProps
  imports GameSpec Timer "HOL-Library.Sublist"
begin

text \<open>
  What the game as a whole promises, over the reachable states of \<open>GameRun\<close> and the abstract
  machine of \<open>GameSpec\<close>.
\<close>

section \<open>A concrete game\<close>

definition env0 :: game_env where
  "env0 = \<lparr>ge_urho = engine32, ge_res = res0\<lparr>rs_loaded := (\<lambda>_. True)\<rparr>, ge_width = 1024, ge_height = 768,
     ge_newJoystick = (\<lambda>i. i + 1), ge_float = (\<lambda>_. []), ge_vec = (\<lambda>_. []), ge_hsv = (\<lambda>_ _ _. WHITE)\<rparr>"

definition status0 :: level_status where
  "status0 = \<lparr>ls_guards = [], ls_inventory = inv_new False, ls_personPos = vec_ZERO\<rparr>"

definition frame_of :: "key set \<Rightarrow> frame_in" where
  "frame_of ks = \<lparr>fi_dt = 1 / 64, fi_down = (\<lambda>k. k \<in> ks), fi_press = (\<lambda>k. k \<in> ks), fi_joystick = (\<lambda>_. None),
     fi_status = status0, fi_hue = (\<lambda>_. 0), fi_rand = (\<lambda>_. 0)\<rparr>"

definition game0 :: game where
  "game0 = the (game_start True 0 ([], []) env0 game_new)"

lemma env0_sel [simp]: "ge_urho env0 = engine32" "rs_loaded (ge_res env0) n" "rs_xml (ge_res env0) n = None"
  "rs_image (ge_res env0) n = (if n = ''Levels/1.png'' then Some plan0 else None)"
  by (simp_all add: env0_def res0_def)

lemma frame_of_sel [simp]: "fi_dt (frame_of ks) = 1 / 64" "fi_down (frame_of ks) k \<longleftrightarrow> k \<in> ks" "fi_press (frame_of ks) k \<longleftrightarrow> k \<in> ks"
  "fi_joystick (frame_of ks) j = None" "fi_status (frame_of ks) = status0"
  by (simp_all add: frame_of_def)

lemma float0: "float_unit (flt engine32)"
  by (simp add: binary32.float_unit_axioms)

lemma env0_ok: "env_ok env0"
  by (simp add: env_ok_def bad_guards_def room_xml_def list_ex_iff list_all_iff)

lemma reach_game0: "reach env0 game0"
proof -
  have "game_start True 0 ([], []) env0 game_new = Some game0" by (simp add: game0_def game_start_def Let_def)
  then show ?thesis by (rule reach.start)
qed

lemma game0_sel [simp]: "gm_developer game0 = False" "gm_state game0 = GS_MENU" "gm_unce game0 = False"
  "gm_cheat game0 = gm_cheat game_new" "gm_level game0 = 0" "gm_totalScore game0 = 0" "gm_totalTime game0 = 0"
  by (simp_all add: game0_def game_start_def game_setup_def Let_def call_def game_new_def)

text \<open>A game in a level that has just been lost.\<close>

lemma level_game0: "\<exists>g. game_inv engine32 g \<and> gm_state g = GS_DEAD \<and> gm_level g = 0 \<and> \<not> gm_developer g"
proof -
  have "build_level engine32 (ge_res env0) False 0 plan0 \<noteq> None"
    by (simp add: build_level_def Let_def load_rooms_None bad_guards_def room_xml_def list_ex_iff)
  then obtain sc msgs where "build_level engine32 (ge_res env0) False 0 plan0 = Some (sc, msgs)" by auto
  note sc = build_level_scene [OF this]
  have "game_inv engine32 game0" using reach_inv [OF reach_game0 env0_ok] float0 by simp
  then have "game_inv engine32 (game0\<lparr>gm_state := GS_DEAD, gm_scene := sc\<rparr>)"
    using sc by (simp add: game_inv_def scene_inv_def)
  then show ?thesis by (intro exI [of _ "game0\<lparr>gm_state := GS_DEAD, gm_scene := sc\<rparr>"]) simp
qed

section \<open>Frames, screens, levels\<close>

text \<open>C1. The game never fails: in every state that it can reach by starting, running frames, ending
  levels and receiving input, in any order, and whatever the input is, the next frame is
  computed. The loops of the title, of the intro and of the credits end, the
  sprites and the player exist when they are used, the cheat code is never looked up beyond its
  end. The one exception is the developer's key that crashes the game on purpose. It relies on
  the eight animated materials being there and on levels that load.\<close>

theorem game_never_fails:
  assumes "reach W g" "env_ok W" "float_unit (flt (ge_urho W))" "0 \<le> fi_dt inp" "fi_dt inp \<le> 1000"
  shows "handle_update W inp g = None \<longleftrightarrow> gm_developer g \<and> fi_press inp KEY_C"
  using handle_update_inv [OF assms(2-5) reach_inv [OF assms(1-3)]] by blast

theorem game_never_fails_witness: "\<exists>g. handle_update env0 (frame_of {KEY_C, KEY_SPACE}) game0 = Some g"
  using game_never_fails [OF reach_game0 env0_ok, of "frame_of {KEY_C, KEY_SPACE}"] float0
  by (cases "handle_update env0 (frame_of {KEY_C, KEY_SPACE}) game0") simp_all



text \<open>C3. In every reachable state in which a level is played, lost or won, the image of that level
  exists, and its scene has the player, the physics world and the navigation mesh; on every other
  screen the current level is the first one, so the adventure always begins there.\<close>

theorem game_levels:
  assumes "reach W g" "env_ok W" "float_unit (flt (ge_urho W))"
  shows "0 \<le> gm_level g \<and>
    (if in_level (gm_state g)
     then level_exists W (gm_level g) \<and> player_in (gm_scene g) \<and> world_in (gm_scene g)
     else gm_level g = 0)"
proof -
  have "screen_inv (level_exists W) (screen_of g)"
    by (rule screen_steps_inv [OF reach_screen [OF assms]]) simp
  then show ?thesis
    using reach_inv [OF assms] by (auto simp: screen_of_def game_inv_def scene_inv_def)
qed

theorem game_levels_witness:
  "\<exists>g. handle_update env0 (frame_of {KEY_1}) game0 = Some g \<and> 0 \<le> gm_level g"
proof -
  obtain g where g: "handle_update env0 (frame_of {KEY_1}) game0 = Some g"
    using handle_update_inv [OF env0_ok, of "frame_of {KEY_1}" game0] reach_inv [OF reach_game0 env0_ok] float0
    by (cases "handle_update env0 (frame_of {KEY_1}) game0") simp_all
  then have "reach env0 g" using reach.frame [OF reach_game0 _ _ g] by simp
  then show ?thesis using game_levels [OF _ env0_ok] float0 g by simp
qed

section \<open>After a level\<close>

lemma screen_after_skip:
  assumes "skip_step W space g = Some (g', space')" "gm_state g \<in> {GS_DEAD, GS_STAIRS, GS_FINISHED}"
  shows "screen_of g' = (if space then enter (level_exists W) (if gm_state g = GS_STAIRS then gm_level g + 1 else gm_level g)
    else screen_of g)"
  using assms load_level_screen [of W g g'] by (auto simp: skip_step_def split: if_splits)

lemma menu_step_other: "gm_state g \<noteq> GS_MENU \<Longrightarrow> menu_step W inp space g = Some g"
  by (simp add: menu_step_def)

lemma credits_screen:
  "credits_step W dt g = Some g' \<Longrightarrow> screen_of g' = screen_of g \<or> screen_of g' = (GS_FINISHED, gm_level g)"
  by (auto simp: credits_step_def Let_def Option.bind_eq_Some_conv screen_of_def split: if_splits option.splits)

lemma state_step_other:
  "state_step W dt g = Some g' \<Longrightarrow> gm_state g \<notin> {GS_INTRO, GS_CREDITS} \<Longrightarrow> screen_of g' = screen_of g"
  by (auto simp: state_step_def play_step_def Let_def split: if_splits)

lemma developer_off:
  assumes "developer_step W inp g = Some g'" "\<not> gm_developer g"
  shows "screen_of g' = screen_of g" "keep g' = keep (g\<lparr>gm_developer := gm_developer g'\<rparr>)"
    "gm_introFrame g' = gm_introFrame g" "gm_introTimer g' = gm_introTimer g"
  using assms by (auto simp: developer_step_def screen_of_def keep_def split: if_splits)



section \<open>The cheat code\<close>

lemma end_level_cheat:
  "end_level W st died suppress g = Some g' \<Longrightarrow> gm_unce g' = gm_unce g \<and> gm_cheat g' = gm_cheat g"
  by (auto simp: end_level_def Let_def add_widget_def keep_def dest!: keep_load_level split: if_splits)

lemma developer_step_keep:
  assumes "developer_step W inp g = Some g'"
  shows "\<exists>g1. keep g1 = keep g \<and>
    (if gm_developer g \<and> gm_state g1 = GS_PLAYING \<and> fi_press inp KEY_N
     then \<exists>g2. end_level W (fi_status inp) False False g1 = Some g2 \<and> keep g' = keep g2
     else keep g' = keep (g1\<lparr>gm_developer := gm_developer g'\<rparr>))"
proof (cases "gm_developer g")
  case True
  then obtain g1 g2 where g1: "developer_reload W inp (developer_toggles inp g) = Some g1"
    and g2: "developer_win W inp g1 = Some g2" and g': "keep g' = keep g2"
    using assms by (auto simp: developer_step_def developer_keys_def developer_unlock_def Option.bind_eq_Some_conv Let_def split: if_splits)
  have "keep (developer_toggles inp g) = keep g" by (simp add: developer_toggles_def Let_def keep_def)
  then have k: "keep g1 = keep g" using g1 by (auto simp: developer_reload_def dest: keep_load_level split: if_splits)
  then have "keep g2 = keep (g1\<lparr>gm_developer := gm_developer g'\<rparr>)" if "g2 = g1"
    using g' True that by (simp add: keep_def)
  then show ?thesis using True k g2 g' by (intro exI [of _ g1]) (auto simp: developer_win_def split: if_splits)
next
  case False
  then show ?thesis using assms by (intro exI [of _ g]) (auto simp: developer_step_def keep_def split: if_splits)
qed

lemma developer_step_cheat:
  "developer_step W inp g = Some g' \<Longrightarrow> gm_unce g' = gm_unce g \<and> gm_cheat g' = gm_cheat g"
  using developer_step_keep [of W inp g g'] end_level_cheat by (fastforce simp: keep_def split: if_splits)

text \<open>What a frame does to the cheat code.\<close>

lemma handle_update_cheat:
  assumes "handle_update W inp g = Some g'"
  shows "if gm_unce g then gm_unce g'
    else gm_cheat g \<noteq> [] \<and>
      gm_cheat g' = (if fi_down inp (last (gm_cheat g)) then butlast (gm_cheat g) else gm_cheat g) \<and>
      gm_unce g' = (gm_cheat g' = [])"
proof -
  obtain g4 g5 where g4: "before_developer W inp g = Some g4" and g5: "developer_step W inp g4 = Some g5"
    and g': "disco_step W inp g5 = Some g'"
    using assms by (auto simp: handle_update_split Option.bind_eq_Some_conv)
  have "gm_unce g5 = gm_unce g" "gm_cheat g5 = gm_cheat g"
    using keep_before_developer [OF g4] developer_step_cheat [OF g5] by (simp_all add: keep_def)
  then show ?thesis
    using g' by (auto simp: disco_step_def Let_def v_back_def v_pop_def split: if_splits)
qed

primrec run_game :: "game_env \<Rightarrow> frame_in list \<Rightarrow> game \<Rightarrow> game option" where
  "run_game W [] g = Some g"
| "run_game W (i # is) g = Option.bind (handle_update W i g) (run_game W is)"

lemma run_game_unce: "run_game W is g = Some g' \<Longrightarrow> gm_unce g \<Longrightarrow> gm_unce g'"
proof (induction "is" arbitrary: g)
  case (Cons i "is")
  then obtain g1 where "handle_update W i g = Some g1" "run_game W is g1 = Some g'"
    by (auto simp: Option.bind_eq_Some_conv)
  then show ?case using Cons handle_update_cheat [of W i g g1] by simp
qed simp

text \<open>The keys are held in some of the frames, in this order; matching the next key as soon as
  possible loses nothing.\<close>

definition held_in :: "key list \<Rightarrow> frame_in list \<Rightarrow> bool" where
  "held_in ks is \<longleftrightarrow> (\<exists>js. subseq js is \<and> list_all2 (\<lambda>k j. fi_down j k) ks js)"

lemma held_in_Nil [simp]: "held_in [] is" "ks \<noteq> [] \<Longrightarrow> \<not> held_in ks []"
  by (auto simp: held_in_def dest: list_all2_lengthD list_emb_length)

lemma held_in_Cons:
  "held_in (k # ks) (i # is) \<longleftrightarrow> (if fi_down i k then held_in ks is else held_in (k # ks) is)"
proof (cases "fi_down i k")
  case True
  have "subseq js is" if "subseq (j # js) (i # is)" for j js
    using that by (metis subseq_Cons' subseq_Cons2_neq subseq_Cons2')
  then have "held_in ks is" if "held_in (k # ks) (i # is)"
    using that by (fastforce simp: held_in_def list_all2_Cons1 simp del: subseq_Cons2_iff)
  moreover have "held_in (k # ks) (i # is)" if held: "held_in ks is"
  proof -
    obtain js where "subseq js is" "list_all2 (\<lambda>k j. fi_down j k) ks js" using held by (auto simp: held_in_def)
    then show ?thesis using True unfolding held_in_def by (intro exI [of _ "i # js"]) simp
  qed
  ultimately show ?thesis using True by auto
next
  case False
  have "subseq (j # js) is" if "subseq (j # js) (i # is)" "fi_down j k" for j js
    using that False by (metis subseq_Cons2_neq)
  then have "held_in (k # ks) is" if "held_in (k # ks) (i # is)"
    using that by (fastforce simp: held_in_def list_all2_Cons1 simp del: subseq_Cons2_iff)
  moreover have "held_in (k # ks) (i # is)" if "held_in (k # ks) is" using that by (auto simp: held_in_def)
  ultimately show ?thesis using False by auto
qed

lemma run_game_cheat:
  assumes "run_game W is g = Some g'" "\<not> gm_unce g" "gm_cheat g \<noteq> []"
  shows "gm_unce g' \<longleftrightarrow> held_in (rev (gm_cheat g)) is"
  using assms
proof (induction "is" arbitrary: g)
  case (Cons i "is")
  then obtain g1 where g1: "handle_update W i g = Some g1" "run_game W is g1 = Some g'"
    by (auto simp: Option.bind_eq_Some_conv)
  note c = handle_update_cheat [OF g1(1)]
  obtain ks k where ks: "gm_cheat g = ks @ [k]" using Cons.prems(3) by (metis rev_exhaust)
  show ?case
  proof (cases "fi_down i k \<and> ks = []")
    case True
    then have "gm_unce g1" using c Cons.prems(2) ks by simp
    then show ?thesis using run_game_unce [OF g1(2)] True ks by (simp add: held_in_Cons)
  next
    case False
    then have "gm_cheat g1 = (if fi_down i k then ks else ks @ [k])" "\<not> gm_unce g1" "gm_cheat g1 \<noteq> []"
      using c Cons.prems(2) ks by auto
    then show ?thesis
      using Cons.IH [OF g1(2)] ks by (simp add: held_in_Cons)
  qed
qed simp

text \<open>C20. The cheat code: after any number of frames from a start, the lights dance exactly if among the
  frames there are ten, in this order, in which UP, UP, DOWN, DOWN, LEFT, RIGHT, LEFT, RIGHT, B and
  A were held. One frame advances the code by one key only, other keys do not set it back.\<close>

theorem cheat_code:
  assumes "run_game W is g = Some g'" "gm_unce g = gm_unce game_new" "gm_cheat g = gm_cheat game_new"
  shows "gm_unce g' \<longleftrightarrow>
    held_in
      [KEY_UP, KEY_UP, KEY_DOWN, KEY_DOWN, KEY_LEFT, KEY_RIGHT, KEY_LEFT, KEY_RIGHT, KEY_B, KEY_A] is"
  using run_game_cheat [OF assms(1)] assms(2,3) by (simp add: game_new_def)

theorem cheat_code_witness:
  "\<exists>g. run_game env0 [frame_of {KEY_UP}, frame_of {KEY_UP}] game0 = Some g \<and> \<not> gm_unce g"
proof -
  obtain g1 where g1: "handle_update env0 (frame_of {KEY_UP}) game0 = Some g1" "game_inv engine32 g1"
    using handle_update_inv [OF env0_ok, of "frame_of {KEY_UP}" game0] reach_inv [OF reach_game0 env0_ok] float0
    by (cases "handle_update env0 (frame_of {KEY_UP}) game0") (auto simp: frame_inv_def)
  obtain g2 where g2: "handle_update env0 (frame_of {KEY_UP}) g1 = Some g2"
    using handle_update_inv [OF env0_ok, of "frame_of {KEY_UP}" g1] g1(2) float0
    by (cases "handle_update env0 (frame_of {KEY_UP}) g1") auto
  have r: "run_game env0 [frame_of {KEY_UP}, frame_of {KEY_UP}] game0 = Some g2" using g1 g2 by simp
  have "\<not> held_in
      [KEY_UP, KEY_UP, KEY_DOWN, KEY_DOWN, KEY_LEFT, KEY_RIGHT, KEY_LEFT, KEY_RIGHT, KEY_B, KEY_A]
      [frame_of {KEY_UP}, frame_of {KEY_UP}]"
    by (simp add: held_in_Cons)
  then show ?thesis using cheat_code [OF r] r by (simp add: game_new_def)
qed

section \<open>Scores\<close>

lemma end_level_totals:
  "end_level W st died suppress g = Some g' \<Longrightarrow>
   gm_totalTime g' = fadd (ge_urho W) (gm_totalTime g) (gm_levelTime g) \<and>
   gm_totalScore g' = gm_totalScore g +
     level_score (ge_urho W) (gm_levelTime g) (guard_count st) (get_item_count (ls_inventory st))"
  by (auto simp: end_level_def Let_def keep_def dest!: keep_load_level split: if_splits)



text \<open>The components of the scene itself, the audio manager among them, outlive the end of a level.\<close>

lemma end_level_scene:
  "end_level W st died False g = Some g' \<Longrightarrow> sc_comps (gm_scene g') = sc_comps (gm_scene g) \<and>
    gm_levelTime g' = gm_levelTime g \<and> gm_level g' = gm_level g \<and> gm_state g' = (if died then GS_DEAD else GS_STAIRS)"
  by (auto simp: end_level_def Let_def add_widget_def call_def split: if_splits)


lemma playing_env0: "\<exists>g. reach env0 g \<and> gm_state g = GS_PLAYING"
proof -
  obtain g where g: "handle_update env0 (frame_of {KEY_1}) game0 = Some g"
    using handle_update_inv [OF env0_ok, of "frame_of {KEY_1}" game0] reach_inv [OF reach_game0 env0_ok] float0
    by (cases "handle_update env0 (frame_of {KEY_1}) game0") simp_all
  obtain g2 space g3 g4 g5 where
    g2: "skip_step env0 (space_pressed (frame_of {KEY_1}) (stats_step (frame_of {KEY_1}) (exit_step (frame_of {KEY_1}) game0)))
        (stats_step (frame_of {KEY_1}) (exit_step (frame_of {KEY_1}) game0)) = Some (g2, space)"
    and g3: "menu_step env0 (frame_of {KEY_1}) space g2 = Some g3"
    and g4: "state_step env0 (1 / 64) g3 = Some g4" and g5: "developer_step env0 (frame_of {KEY_1}) g4 = Some g5"
    and g': "disco_step env0 (frame_of {KEY_1}) g5 = Some g"
    using g by (auto simp: handle_update_def Option.bind_eq_Some_conv)
  have s: "space = False" "screen_of g2 = (GS_MENU, 0)" "keep g2 = keep game0"
    using g2 by (auto simp: skip_step_def stats_step_def exit_step_def space_pressed_def screen_of_def keep_def)
  then obtain ga where ga: "menu_anim env0 (1 / 64) (menu_show env0 g2) = Some ga"
      "menu_choice env0 (frame_of {KEY_1}) False ga = Some g3"
    using g3 by (auto simp: menu_step_def screen_of_def Option.bind_eq_Some_conv)
  have "gm_state ga = GS_MENU" using menu_anim_screen [OF ga(1)] s(2) by (simp add: menu_show_screen, simp add: screen_of_def)
  then have "screen_of g3 = enter (level_exists env0) 0"
    using ga(2) load_level_screen [of env0 "(clear_screen env0 True ga)\<lparr>gm_level := 0\<rparr>" g3]
    by (simp add: menu_choice_def target_level_def Let_def)
  then have "screen_of g3 = (GS_PLAYING, 0)"
    by (simp add: enter_def level_exists_def show_int_def show_nat.simps num_simps)
  then have "screen_of g4 = (GS_PLAYING, 0)" using state_step_other [OF g4] by (simp add: screen_of_def)
  moreover have "\<not> gm_developer g4"
    using keep_state_step [OF g4] keep_menu_step [OF g3] s(3) by (simp add: keep_def)
  ultimately have "gm_state g = GS_PLAYING"
    using developer_off(1) [OF g5] disco_step_screen [OF g'] by (simp add: screen_of_def)
  moreover have "reach env0 g" using reach.frame [OF reach_game0 _ _ g] by simp
  ultimately show ?thesis by blast
qed


section \<open>Leaving the game\<close>

definition exits :: "game \<Rightarrow> nat" where
  "exits g = length (filter (\<lambda>c. c = Effect Exit_Engine) (gm_calls g))"

definition exit_key :: "game \<Rightarrow> game" where
  "exit_key g = exit_step (frame_of {KEY_ESC}) g"

lemma exit_step_key: "fi_down inp KEY_ESC \<Longrightarrow> exit_step inp g = exit_key g"
  by (simp add: exit_key_def exit_step_def)

interpretation exit: periodic "\<lambda>g. 0 \<le> gm_exitTimer g \<and> gm_exitTimer g \<le> 30" exit_key "\<lambda>g. nat (gm_exitTimer g)" exits Suc 31
  by unfold_locales
    (auto simp: exit_key_def exit_step_def Let_def exits_def call_def nat_eq_iff nat_add_distrib)

lemma fold_exit: "list_all (\<lambda>i. fi_down i KEY_ESC) is \<Longrightarrow> fold exit_step is g = (exit_key ^^ length is) g"
proof (induction "is" arbitrary: g)
  case (Cons i "is")
  then show ?case by (simp add: exit_step_key funpow_swap1)
qed simp

text \<open>Escape leaves the game only if it is held: in a row of frames in which it is down, counted from
  one in which it was not, every 31st asks the engine to exit, and no other.\<close>

theorem escape_must_be_held:
  assumes "list_all (\<lambda>i. fi_down i KEY_ESC) is" "\<not> fi_down i0 KEY_ESC"
  shows "exits (fold exit_step is (exit_step i0 g)) = exits g + length is div 31"
proof -
  have "(Suc ^^ n) k = k + n" for n k by (induction n) simp_all
  then show ?thesis
    using exit.schedule [of "exit_step i0 g" "length is"] assms
    by (simp add: fold_exit exit_step_def exits_def)
qed

theorem escape_must_be_held_witness:
  "exits (fold exit_step (replicate 62 (frame_of {KEY_ESC})) (exit_step (frame_of {}) game_new)) = exits game_new + 2"
  using escape_must_be_held [of "replicate 62 (frame_of {KEY_ESC})" "frame_of {}" game_new] by (simp add: list_all_length)

section \<open>The score and the clock\<close>

text \<open>C21. The score of a level: with the time counted in 64ths of a second (up to 4096 s), and up to a
  hundred guards and pickups, none of the roundings of the \<open>float\<close> computation changes it; it is five
  points for each second left of 300, minus 500 for every guard that has seen the player, plus
  250 for every pickup, truncated towards zero.\<close>

theorem level_score_exact:
  assumes "float_unit (flt E)" "0 \<le> a" "a \<le> 2 ^ 18" "0 \<le> n" "n \<le> 100" "0 \<le> p" "p \<le> 100"
  shows "level_score E (of_int a / 64) n p = c_trunc (of_int (5 * (300 * 64 - a) - 500 * 64 * n + 250 * 64 * p) / 64)"
proof -
  have d: "flt E (of_int k / 64) = of_int k / 64" if "\<bar>k\<bar> \<le> 2 ^ 24" for k
    using float_unit.rnd_dyadic [OF assms(1) that, of 6] by simp
  have i: "flt E (of_int k) = of_int k" if "\<bar>k\<bar> \<le> 2 ^ 24" for k
    using float_unit.rnd_int [OF assms(1) that] .
  have s1: "fsub E 300 (of_int a / 64) = of_int (19200 - a) / 64"
    using d [of "19200 - a"] assms(2,3) by (simp add: diff_divide_distrib)
  have s2: "flt E (of_int n * - 100) = of_int (n * - 6400) / 64"
    using i [of "n * - 100"] assms(4,5) by simp
  have s3: "fadd E (of_int (19200 - a) / 64) (of_int (n * - 6400) / 64) = of_int (19200 - a + n * - 6400) / 64"
    using d [of "19200 - a + n * - 6400"] assms(2-5) by (simp add: add_divide_distrib diff_divide_distrib)
  have s4: "flt E (of_int p * 50) = of_int (p * 3200) / 64"
    using i [of "p * 50"] assms(6,7) by simp
  have s5: "fadd E (of_int (19200 - a + n * - 6400) / 64) (of_int (p * 3200) / 64) = of_int (19200 - a + n * - 6400 + p * 3200) / 64"
    using d [of "19200 - a + n * - 6400 + p * 3200"] assms(2-7) by (simp add: add_divide_distrib diff_divide_distrib)
  have s6: "fmul E (of_int (19200 - a + n * - 6400 + p * 3200) / 64) 5 = of_int (5 * (19200 - a + n * - 6400 + p * 3200)) / 64"
    using d [of "5 * (19200 - a + n * - 6400 + p * 3200)"] assms(2-7) by (simp add: mult.commute)
  have s7: "5 * (19200 - a + n * - 6400 + p * 3200) = 5 * (300 * 64 - a) - 500 * 64 * n + 250 * 64 * p" by simp
  have "flt E (of_int n) = of_int n" "flt E (of_int p) = of_int p" using i [of n] i [of p] assms(4-7) by simp_all
  then show ?thesis unfolding level_score_def s7 [symmetric] by (simp only: s1 s2 s3 s4 s5 s6)
qed

theorem level_score_exact_witness: "level_score engine32 (of_int (64 * 100) / 64) 2 3 = 750"
  using level_score_exact [OF float0, of "64 * 100" 2 3] by (simp add: c_trunc_def)

text \<open>C38. The time that is shown for a level, counted in 64ths of a second: the minutes and the seconds
  are right, but the last field is the hundredths of a second plus 6000 for every minute, so from a
  minute on it is a number of at least four digits.\<close>

theorem clock_fields_value:
  assumes "float_unit (flt E)" "0 \<le> a" "a < 2 ^ 17"
  shows "clock_fields E (of_int a / 64) = (a div 3840, a div 64 mod 60, 6000 * (a div 3840) + a mod 64 * 100 div 64)"
proof -
  let ?q = "a div 3840"
  have sec: "c_trunc (of_int a / 64) = a div 64"
    using assms(2) floor_divide_of_int_eq [of a 64, where ?'a = real] by (simp add: c_trunc_def)
  have cent: "fmul E (of_int a / 64) 100 = of_int (a * 100) / 64"
    using float_unit.rnd_dyadic [OF assms(1), of "a * 100" 6] assms(2,3) by simp
  have csec: "c_trunc (of_int (a * 100) / 64) = a * 100 div 64"
    using assms(2) floor_divide_of_int_eq [of "a * 100" 64, where ?'a = real] by (simp add: c_trunc_def)
  have q: "3840 * ?q \<le> a" "a + 1 \<le> 3840 * (?q + 1)" "0 \<le> ?q" using assms(2) by auto
  have r: "of_int ?q \<le> fdiv E (of_int a / 64) 60" "fdiv E (of_int a / 64) 60 < of_int ?q + 1"
  proof -
    have e: "of_int a / 64 / 60 = (of_int a :: real) / 3840" by simp
    have "of_int (3840 * ?q) \<le> (of_int a :: real)" using q(1) of_int_le_iff by blast
    then have lo: "of_int ?q \<le> (of_int a :: real) / 3840" by simp
    have "of_int (a + 1) \<le> (of_int (3840 * (?q + 1)) :: real)" using q(2) of_int_le_iff by blast
    then have hi: "(of_int a :: real) / 3840 \<le> of_int ?q + 1 - 1 / 3840" by (simp add: field_simps)
    have "flt E (of_int ?q) = of_int ?q" by (rule float_unit.rnd_int [OF assms(1)]) (use q assms in auto)
    then show "of_int ?q \<le> fdiv E (of_int a / 64) 60" using float_unit.float_le_rnd [OF assms(1)] lo e by metis
    have "\<bar>(of_int a :: real) / 3840\<bar> \<le> 64" using assms(2,3) by simp
    then have "\<bar>(of_int a :: real) / 3840\<bar> / 2 ^ 24 + 1 / 2 ^ 150 < 1 / 3840" by simp
    then show "fdiv E (of_int a / 64) 60 < of_int ?q + 1"
      using float_unit.rnd_err [OF assms(1), of "of_int a / 3840"] hi unfolding e by linarith
  qed
  then have min: "c_trunc (fdiv E (of_int a / 64) 60) = ?q"
    using q(3) by (simp add: c_trunc_def floor_eq_iff)
  have h: "?q = a div 64 div 60" using zdiv_zmult2_eq [of 60 a 64] by simp
  then have "a div 64 - ?q * 60 = a div 64 mod 60" by (simp add: minus_div_mult_eq_mod)
  moreover have "a * 100 div 64 - a div 64 mod 60 * 100 = 6000 * ?q + a mod 64 * 100 div 64"
  proof -
    have "a * 100 = a mod 64 * 100 + 64 * (100 * (a div 64))" using mult_div_mod_eq [of 64 a] by linarith
    then have "a * 100 div 64 = 100 * (a div 64) + a mod 64 * 100 div 64" by (simp only: div_mult_self2)
    moreover have "a div 64 = 60 * ?q + a div 64 mod 60" by (simp add: h)
    ultimately show ?thesis by linarith
  qed
  ultimately show ?thesis unfolding clock_fields_def Let_def min sec cent csec by simp
qed

theorem clock_fields_value_witness: "clock_text (clock_fields engine32 (of_int (64 * 61) / 64)) = ''01:01.6000''"
  using clock_fields_value [OF float0, of "64 * 61"] by (simp add: clock_text_def show_pad_def show_nat.simps num_simps Let_def)

section \<open>Animated materials\<close>

text \<open>The file of a frame, and a folder that has the frames 1 to \<open>n\<close>.\<close>

definition frame_file :: "string \<Rightarrow> int \<Rightarrow> string" where
  "frame_file path k = path @ show_int k @ ''.png''"

definition has_frames :: "resources \<Rightarrow> string \<Rightarrow> int \<Rightarrow> bool" where
  "has_frames rs path n \<longleftrightarrow> 1 \<le> n \<and> n < M_MAX_INT \<and> list_all (\<lambda>k. rs_loaded rs (frame_file path k)) [1..n] \<and>
     \<not> rs_loaded rs (frame_file path (n + 1))"

primrec anim_run :: "game_env \<Rightarrow> real list \<Rightarrow> anim_entry \<Rightarrow> (anim_entry \<times> (string \<times> string option) list) option" where
  "anim_run W [] a = Some (a, [])"
| "anim_run W (dt # dts) a =
     Option.bind (anim_step W dt a) (\<lambda>(a', s).
       map_option (\<lambda>(a'', ss). (a'', (case s of None \<Rightarrow> ss | Some x \<Rightarrow> x # ss))) (anim_run W dts a'))"

lemma show_int_1: "show_int 1 = ''1''"
  by (simp add: show_int_def show_nat.simps num_simps)

definition anim_inv :: "int \<Rightarrow> anim_entry \<Rightarrow> bool" where
  "anim_inv n a \<longleftrightarrow> 1 \<le> an_frame a \<and> an_frame a \<le> n \<and> an_count a \<in> {n + 1, M_MAX_INT}"

lemma anim_step_cycle:
  assumes "has_frames (ge_res W) (an_path a) n" "rs_loaded (ge_res W) (an_material a)" "anim_inv n a"
  shows "\<exists>a' s. anim_step W dt a = Some (a', s) \<and> anim_inv n a' \<and> an_path a' = an_path a \<and> an_material a' = an_material a \<and>
    (s = None \<and> an_frame a' = an_frame a \<or>
     s = Some (an_material a, Some (frame_file (an_path a) (1 + an_frame a mod n))) \<and> an_frame a' = 1 + an_frame a mod n)"
proof (cases "fadd (ge_urho W) (an_timer a) dt < fdiv (ge_urho W) 1 (an_rate a)")
  case True
  then show ?thesis using assms(3) by (simp add: anim_step_def anim_inv_def Let_def)
next
  case False
  have load: "rs_loaded (ge_res W) (frame_file (an_path a) k) = (k \<le> n)" if "1 \<le> k" "k \<le> n + 1" for k
    using that assms(1) by (cases "k = n + 1") (auto simp: has_frames_def list_all_iff)
  have n: "1 \<le> n" "n < M_MAX_INT" using assms(1) by (auto simp: has_frames_def)
  have f: "1 \<le> an_frame a" "an_frame a \<le> n" "an_count a = n + 1 \<or> an_count a = M_MAX_INT"
    using assms(3) by (auto simp: anim_inv_def)
  show ?thesis
  proof (cases "an_frame a = n")
    case at_end: True
    then show ?thesis
      using False f n assms(2) load [of 1] load [of "n + 1"]
      by (simp add: anim_step_def anim_inv_def Let_def get_resource_def frame_file_def show_int_1)
  next
    case inside: False
    then have "1 + an_frame a mod n = an_frame a + 1" using f by simp
    then show ?thesis
      using False f n assms(2) load [of "an_frame a + 1"] inside
      by (auto simp add: anim_step_def anim_inv_def Let_def get_resource_def frame_file_def add.commute)
  qed
qed

lemma anim_run_cycle:
  assumes "has_frames (ge_res W) (an_path a) n" "rs_loaded (ge_res W) (an_material a)" "anim_inv n a"
  shows "\<exists>a' ss. anim_run W dts a = Some (a', ss) \<and>
    ss = map (\<lambda>i. (an_material a, Some (frame_file (an_path a) (1 + (an_frame a + int i) mod n)))) [0..<length ss]"
  using assms
proof (induction dts arbitrary: a)
  case (Cons dt dts)
  obtain a1 s where s: "anim_step W dt a = Some (a1, s)" "anim_inv n a1" "an_path a1 = an_path a" "an_material a1 = an_material a"
    "s = None \<and> an_frame a1 = an_frame a \<or>
     s = Some (an_material a, Some (frame_file (an_path a) (1 + an_frame a mod n))) \<and> an_frame a1 = 1 + an_frame a mod n"
    using anim_step_cycle [OF Cons.prems, of dt] by blast
  obtain a' ss where ih: "anim_run W dts a1 = Some (a', ss)"
    "ss = map (\<lambda>i. (an_material a, Some (frame_file (an_path a) (1 + (an_frame a1 + int i) mod n)))) [0..<length ss]"
    using Cons.IH [of a1] Cons.prems s by auto
  show ?case
  proof (cases s)
    case None
    then show ?thesis using s ih by simp
  next
    case (Some x)
    have "map (\<lambda>i. (an_material a, Some (frame_file (an_path a) (1 + (an_frame a + int i) mod n)))) [0..<Suc (length ss)] =
        (an_material a, Some (frame_file (an_path a) (1 + an_frame a mod n))) #
        map (\<lambda>i. (an_material a, Some (frame_file (an_path a) (1 + (an_frame a + int (Suc i)) mod n)))) [0..<length ss]"
      by (simp add: upt_conv_Cons map_Suc_upt [symmetric] del: upt_Suc map_Suc_upt)
    moreover have "(an_frame a1 + int i) mod n = (an_frame a + int (Suc i)) mod n" for i
    proof -
      have "(an_frame a1 + int i) mod n = (an_frame a mod n + (1 + int i)) mod n"
        using s(5) Some by (auto simp: algebra_simps)
      then show ?thesis by (simp only: mod_add_left_eq of_nat_Suc)
    qed
    ultimately show ?thesis using s ih Some by simp
  qed
qed simp

text \<open>The walking animations: with the frames 1 to n in the folder of an entry and no frame n + 1, the
  textures that the entry sets over any number of frames of any lengths are the files 2, 3, ..., n,
  1, 2, ... in turn: the number of frames is found out when the first missing file is asked for,
  and no missing texture is ever set.\<close>

theorem animated_material_cycle:
  assumes "an_frame a = 1" "an_count a = M_MAX_INT"
    and "has_frames (ge_res W) (an_path a) n" "rs_loaded (ge_res W) (an_material a)"
  shows "\<exists>a' ss. anim_run W dts a = Some (a', ss) \<and>
    ss = map (\<lambda>i. (an_material a, Some (frame_file (an_path a) (1 + (1 + int i) mod n)))) [0..<length ss]"
  using anim_run_cycle [OF assms(3,4), of dts] assms by (simp add: anim_inv_def has_frames_def)

theorem animated_material_cycle_witness:
  "\<exists>a' ss. anim_run (env0\<lparr>ge_res := res0\<lparr>rs_loaded := (\<lambda>f. f \<in> {frame_file ''p'' 1, frame_file ''p'' 2, ''m''})\<rparr>\<rparr>) [1, 1, 1]
     \<lparr>an_material = ''m'', an_path = ''p'', an_frame = 1, an_count = M_MAX_INT, an_timer = 0, an_rate = 10\<rparr> = Some (a', ss) \<and>
     ss = map (\<lambda>i. (''m'', Some (frame_file ''p'' (1 + (1 + int i) mod 2)))) [0..<length ss]"
proof -
  let ?W = "env0\<lparr>ge_res := res0\<lparr>rs_loaded := (\<lambda>f. f \<in> {frame_file ''p'' 1, frame_file ''p'' 2, ''m''})\<rparr>\<rparr>"
    and ?a = "\<lparr>an_material = ''m'', an_path = ''p'', an_frame = 1, an_count = M_MAX_INT, an_timer = 0, an_rate = 10\<rparr>"
  have "[1..2] = [1, 2 :: int]" by (simp add: upto.simps)
  moreover have "frame_file ''p'' 3 \<noteq> frame_file ''p'' k" if "k \<noteq> 3" for k
    using that by (simp add: frame_file_def show_int_inj)
  ultimately have "has_frames (ge_res ?W) (an_path ?a) 2"
    by (simp add: has_frames_def M_MAX_INT_def) (simp add: frame_file_def)
  from animated_material_cycle [OF _ _ this, of "[1, 1, 1]"] show ?thesis by simp
qed

section \<open>Debug drawing\<close>

text \<open>C40. The developer's debug geometry: after a frame of a reachable game, drawing it uses a null
  pointer exactly if the physics or the navigation geometry is switched on while the intro, the
  credits or the final text are shown, whose scene has been cleared.\<close>

theorem debug_draw_crash:
  assumes "reach W g" "env_ok W" "float_unit (flt (ge_urho W))" "0 \<le> fi_dt inp" "fi_dt inp \<le> 1000"
    and "handle_update W inp g = Some g'"
  shows "handle_post_render g' = None \<longleftrightarrow>
    (gm_physics g' \<or> gm_navigation g') \<and> gm_state g' \<in> {GS_INTRO, GS_CREDITS, GS_FINISHED}"
proof -
  have "frame_inv (ge_urho W) g'"
    using handle_update_inv [OF assms(2-5) reach_inv [OF assms(1-3)]] assms(6) by blast
  then show ?thesis
    by (cases "gm_state g'") (auto simp: handle_post_render_def frame_inv_def game_inv_def scene_inv_def world_in_def)
qed

theorem debug_draw_crash_witness:
  "\<exists>g. handle_update env0 (frame_of {KEY_SPACE}) game0 = Some g \<and>
    (handle_post_render g = None \<longleftrightarrow> (gm_physics g \<or> gm_navigation g) \<and> gm_state g \<in> {GS_INTRO, GS_CREDITS, GS_FINISHED})"
proof -
  obtain g where g: "handle_update env0 (frame_of {KEY_SPACE}) game0 = Some g"
    using handle_update_inv [OF env0_ok, of "frame_of {KEY_SPACE}" game0] reach_inv [OF reach_game0 env0_ok] float0
    by (cases "handle_update env0 (frame_of {KEY_SPACE}) game0") simp_all
  then show ?thesis using debug_draw_crash [OF reach_game0 env0_ok _ _ _ g] float0 by simp
qed

end
