(* ===== verification/Camera.thy ===== *)
theory Camera
  imports Engine
begin

text \<open>
  The camera (\<open>src/CameraController.cpp\<close>): it follows the player from room to room, turns in
  quarter turns, and slides a panel with the room's name in and out. \<open>roomLabel\<close> is the
  \<open>label\<close> variable of a room's node: \<open>None\<close> when the scene has no such node (a null pointer),
  \<open>Some None\<close> when the room has no label.
\<close>

record camera_controller =
  c_room :: "int \<times> int"
  c_yaw :: real
  c_target :: real
  c_showPanel :: bool
  c_panelY :: real
  c_panelPos :: int
  c_label :: string
  c_pos :: vec3
  c_rot :: quat

record camera_in =
  ci_joystick :: int
  ci_joyRotate :: "(bool \<times> bool) option"
  ci_keyQ :: bool
  ci_keyE :: bool
  ci_keyW :: bool
  ci_developer :: bool
  ci_personLocal :: vec3
  ci_pixelRatio :: real
  ci_roomLabel :: "int \<times> int \<Rightarrow> string option option"

definition camera_new :: "camera_controller \<Rightarrow> camera_controller" where
  "camera_new c = c\<lparr>c_room := (0, 0), c_yaw := 0, c_target := 0, c_panelY := 50\<rparr>"

definition show_label :: "string option \<Rightarrow> camera_controller \<Rightarrow> camera_controller" where
  "show_label l c =
     (case l of None \<Rightarrow> c\<lparr>c_showPanel := False\<rparr>
              | Some t \<Rightarrow> c\<lparr>c_showPanel := True, c_label := t\<rparr>)"

definition camera_start :: "urho \<Rightarrow> camera_in \<Rightarrow> camera_controller \<Rightarrow> camera_controller option" where
  "camera_start E inp c =
     (let room = room_of E (ci_personLocal inp) in
      case ci_roomLabel inp (fst room + 1, snd room + 1) of
        None \<Rightarrow> None
      | Some l \<Rightarrow> Some (show_label l (c\<lparr>c_room := room, c_label := [], c_panelPos := c_trunc (c_panelY c)\<rparr>)))"

text \<open>Turning: by hand, and by walking into another room without a joystick.\<close>

definition camera_turn :: "urho \<Rightarrow> camera_in \<Rightarrow> int \<times> int \<Rightarrow> camera_controller \<Rightarrow> camera_controller" where
  "camera_turn E inp room c =
     (let rotateLeft = ((case ci_joyRotate inp of None \<Rightarrow> False | Some (l, r) \<Rightarrow> l) \<or> ci_keyQ inp);
          rotateRight = ((case ci_joyRotate inp of None \<Rightarrow> False | Some (l, r) \<Rightarrow> r) \<or> ci_keyE inp);
          c1 = (if rotateLeft then c\<lparr>c_target := fsub E (c_target c) 90\<rparr> else c);
          c2 = (if rotateRight then c1\<lparr>c_target := fadd E (c_target c1) 90\<rparr> else c1)
      in if ci_joystick inp = - 1
         then (if fst room < fst (c_room c2) then c2\<lparr>c_target := - 90\<rparr>
               else if fst (c_room c2) < fst room then c2\<lparr>c_target := 90\<rparr>
               else if snd room < snd (c_room c2) then c2\<lparr>c_target := 180\<rparr>
               else if snd (c_room c2) < snd room then c2\<lparr>c_target := 0\<rparr>
               else c2)
         else c2)"

definition camera_panel :: "urho \<Rightarrow> real \<Rightarrow> real \<Rightarrow> camera_controller \<Rightarrow> camera_controller" where
  "camera_panel E dt pixelRatio c =
     (let c1 = (if c_showPanel c \<and> 0 < c_panelY c then c\<lparr>c_panelY := fsub E (c_panelY c) (fmul E dt 50)\<rparr>
                else if \<not> c_showPanel c \<and> c_panelY c < 50 then c\<lparr>c_panelY := fadd E (c_panelY c) (fmul E dt 50)\<rparr>
                else c)
      in c1\<lparr>c_panelPos := c_trunc (fmul E (c_panelY c1) pixelRatio)\<rparr>)"

definition camera_move :: "urho \<Rightarrow> real \<Rightarrow> camera_in \<Rightarrow> int \<times> int \<Rightarrow> camera_controller \<Rightarrow> camera_controller" where
  "camera_move E dt inp room c =
     (let c1 = c\<lparr>c_yaw := fadd E (c_yaw c) (fmul E (fmul E (fsub E (c_target c) (c_yaw c)) 5) dt)\<rparr>;
          c2 = c1\<lparr>c_rot := q_euler E 0 (c_yaw c1) 0\<rparr>;
          position = V3 (fmul E (of_int (fst room)) 11) 0 (fmul E (of_int (snd room)) 11);
          position = (if ci_developer inp \<and> ci_keyW inp
                      then (let p = vec_add E position (vec_scale E (node_dir E (c_rot c2)) (11 / 2))
                            in p\<lparr>vy := fadd E (vy p) 2\<rparr>)
                      else position)
      in c2\<lparr>c_pos := vec_add E (c_pos c2)
              (vec_scale E (vec_scale E (vec_sub E position (c_pos c2)) 2) dt)\<rparr>)"

definition camera_update :: "urho \<Rightarrow> real \<Rightarrow> camera_in \<Rightarrow> camera_controller \<Rightarrow> camera_controller option" where
  "camera_update E dt inp c =
     (let room = room_of E (ci_personLocal inp);
          c1 = camera_turn E inp room c in
      case (if room \<noteq> c_room c1
            then (case ci_roomLabel inp (fst room + 1, snd room + 1) of
                    None \<Rightarrow> None
                  | Some l \<Rightarrow> Some (show_label l c1))
            else Some c1) of
        None \<Rightarrow> None
      | Some c2 \<Rightarrow>
          (let c3 = (camera_panel E dt (ci_pixelRatio inp) c2)\<lparr>c_room := room\<rparr>
           in Some (camera_move E dt inp room c3)))"

definition camera_yaw_angle :: "camera_controller \<Rightarrow> real" where
  "camera_yaw_angle c = c_yaw c"

section \<open>Lemmas\<close>

lemma show_label_frame [frame_simps, simp]:
  "c_room (show_label l c) = c_room c" "c_panelY (show_label l c) = c_panelY c"
  "c_target (show_label l c) = c_target c" "c_yaw (show_label l c) = c_yaw c" "c_pos (show_label l c) = c_pos c"
  "c_showPanel (show_label l c) = (l \<noteq> None)"
  by (simp_all add: show_label_def split: option.split)

lemma camera_turn_frame [frame_simps, simp]:
  "c_room (camera_turn E inp r c) = c_room c" "c_panelY (camera_turn E inp r c) = c_panelY c"
  "c_yaw (camera_turn E inp r c) = c_yaw c" "c_pos (camera_turn E inp r c) = c_pos c"
  "c_showPanel (camera_turn E inp r c) = c_showPanel c" "c_label (camera_turn E inp r c) = c_label c"
  by (simp_all add: camera_turn_def Let_def)

lemma camera_panel_frame [frame_simps, simp]:
  "c_room (camera_panel E dt pr c) = c_room c" "c_target (camera_panel E dt pr c) = c_target c"
  "c_yaw (camera_panel E dt pr c) = c_yaw c" "c_pos (camera_panel E dt pr c) = c_pos c"
  "c_showPanel (camera_panel E dt pr c) = c_showPanel c" "c_label (camera_panel E dt pr c) = c_label c"
  by (simp_all add: camera_panel_def Let_def)

lemma camera_move_frame [frame_simps, simp]:
  "c_room (camera_move E dt inp r c) = c_room c" "c_target (camera_move E dt inp r c) = c_target c"
  "c_panelY (camera_move E dt inp r c) = c_panelY c"
  "c_showPanel (camera_move E dt inp r c) = c_showPanel c" "c_label (camera_move E dt inp r c) = c_label c"
  by (simp_all add: camera_move_def Let_def)

lemma panel_step:
  assumes "float_unit (flt E)" "0 \<le> dt" "- B \<le> c_panelY c" "c_panelY c \<le> 50 + B" "fmul E dt 50 \<le> B" "flt E B = B"
    "flt E (50 + B) = 50 + B"
  shows "- B \<le> c_panelY (camera_panel E dt pr c) \<and> c_panelY (camera_panel E dt pr c) \<le> 50 + B"
proof -
  note f = assms(1)
  have d: "0 \<le> fmul E dt 50" using float_unit.rnd_nonneg [OF f] assms(2) by simp
  have m: "flt E (- B) = - B" using float_unit.rnd_minus [OF f, of B] assms(6) by simp
  have "- B \<le> fsub E (c_panelY c) (fmul E dt 50)" "fsub E (c_panelY c) (fmul E dt 50) \<le> 50 + B" if "0 < c_panelY c"
    using that assms(4,5) d float_unit.float_le_rnd [OF f m] float_unit.rnd_le_float [OF f assms(7)] by simp_all
  moreover have "- B \<le> fadd E (c_panelY c) (fmul E dt 50)" "fadd E (c_panelY c) (fmul E dt 50) \<le> 50 + B" if "c_panelY c < 50"
    using that assms(3,5) d float_unit.float_le_rnd [OF f m] float_unit.rnd_le_float [OF f assms(7)] by simp_all
  ultimately show ?thesis using assms(3,4) by (simp add: camera_panel_def Let_def)
qed

lemma camera_update_panel:
  assumes "camera_update E dt inp c = Some c1"
  shows "\<exists>c2. c_panelY c2 = c_panelY c \<and> c_panelY c1 = c_panelY (camera_panel E dt (ci_pixelRatio inp) c2)"
proof -
  let ?t = "camera_turn E inp (room_of E (ci_personLocal inp)) c"
  have "c_panelY c1 = c_panelY (camera_panel E dt (ci_pixelRatio inp) ?t) \<or>
      (\<exists>l. c_panelY c1 = c_panelY (camera_panel E dt (ci_pixelRatio inp) (show_label l ?t)))"
    using assms by (auto simp: camera_update_def Let_def split: option.splits if_splits)
  then show ?thesis by (metis camera_turn_frame(2) show_label_frame(2))
qed

section \<open>Properties\<close>

text \<open>A frame of the camera is defined exactly when the player is still in the camera's room
  or in a room that the scene has; it then takes the player's room as its own, and shows the
  panel exactly if the room, when it is a new one, has a label.\<close>

theorem camera_update_defined:
  "case camera_update E dt inp c of
     None \<Rightarrow> room_of E (ci_personLocal inp) \<noteq> c_room c \<and>
       ci_roomLabel inp (fst (room_of E (ci_personLocal inp)) + 1, snd (room_of E (ci_personLocal inp)) + 1) = None
   | Some c' \<Rightarrow> c_room c' = room_of E (ci_personLocal inp) \<and>
       (if c_room c' = c_room c then c_showPanel c' = c_showPanel c \<and> c_label c' = c_label c
        else \<exists>l. ci_roomLabel inp (fst (c_room c') + 1, snd (c_room c') + 1) = Some l \<and> c_showPanel c' = (l \<noteq> None))"
  by (auto simp: camera_update_def Let_def split: option.splits)

text \<open>The panel with the room's name never slides further than one frame's step out of its
  two positions: in frames of at most 1/8 s it stays between -6.25 and 56.25, whatever rooms the
  player walks through.\<close>

theorem camera_panel_bounded:
  assumes "float_unit (flt E)" "list_all (\<lambda>(dt, _). 0 \<le> dt \<and> dt \<le> 1 / 8) fs" "c_panelY c = 50"
    and "foldl (\<lambda>s (dt, inp). Option.bind s (camera_update E dt inp)) (Some c) fs = Some c'"
  shows "- 25 / 4 \<le> c_panelY c' \<and> c_panelY c' \<le> 50 + 25 / 4"
proof -
  note f = assms(1)
  have g: "flt E (25 / 4) = 25 / 4" "flt E (50 + 25 / 4) = 50 + 25 / 4"
    using float_unit.rnd_dyadic [OF f, of 25 2] float_unit.rnd_dyadic [OF f, of 225 2] by simp_all
  have none: "foldl (\<lambda>s (dt, inp). Option.bind s (camera_update E dt inp)) None fs = None" for fs
    by (induction fs) auto
  have "- (25 / 4) \<le> c_panelY c' \<and> c_panelY c' \<le> 50 + 25 / 4"
    if "- (25 / 4) \<le> c_panelY c" "c_panelY c \<le> 50 + 25 / 4"
      "foldl (\<lambda>s (dt, inp). Option.bind s (camera_update E dt inp)) (Some c) fs = Some c'" for c
    using assms(2) that
  proof (induction fs arbitrary: c)
    case (Cons x fs)
    obtain dt inp where x: "x = (dt, inp)" by (cases x)
    obtain c1 where c1: "camera_update E dt inp c = Some c1"
      using Cons.prems(4) none by (cases "camera_update E dt inp c") (auto simp: x)
    have "fmul E dt 50 \<le> 25 / 4"
      using Cons.prems(1) float_unit.rnd_le_float [OF f g(1)] by (simp add: x)
    moreover obtain c2 where "c_panelY c2 = c_panelY c" "c_panelY c1 = c_panelY (camera_panel E dt (ci_pixelRatio inp) c2)"
      using camera_update_panel [OF c1] by blast
    ultimately have "- (25 / 4) \<le> c_panelY c1 \<and> c_panelY c1 \<le> 50 + 25 / 4"
      using panel_step [OF f _ _ _ _ g] Cons.prems(1-3) by (auto simp: x)
    then show ?case using Cons.IH [of c1] Cons.prems(1,4) c1 by (simp add: x)
  qed simp
  from this [of c] show ?thesis using assms(3,4) by simp
qed

section \<open>Witnesses\<close>

definition camera_in0 :: camera_in where
  "camera_in0 = \<lparr>ci_joystick = - 1, ci_joyRotate = None, ci_keyQ = False, ci_keyE = False, ci_keyW = False,
     ci_developer = False, ci_personLocal = vec_ZERO, ci_pixelRatio = 1, ci_roomLabel = (\<lambda>_. Some (Some ''Lobby''))\<rparr>"

definition camera_ctl0 :: camera_controller where
  "camera_ctl0 = camera_new \<lparr>c_room = (0, 0), c_yaw = 0, c_target = 0, c_showPanel = True, c_panelY = 0, c_panelPos = 0,
     c_label = [], c_pos = vec_ZERO, c_rot = quat0\<rparr>"

lemma label0: "ci_roomLabel camera_in0 r = Some (Some ''Lobby'')"
  by (simp add: camera_in0_def)

theorem camera_panel_bounded_witness:
  "\<exists>c'. foldl (\<lambda>s (dt, inp). Option.bind s (camera_update engine32 dt inp)) (Some camera_ctl0)
      (replicate 2 (1 / 64, camera_in0)) = Some c' \<and> - 25 / 4 \<le> c_panelY c'"
proof -
  let ?f = "\<lambda>s (dt, inp). Option.bind s (camera_update engine32 dt inp)"
  have u: "camera_update engine32 dt camera_in0 c \<noteq> None" for dt c
    using camera_update_defined [where E = engine32 and dt = dt and inp = camera_in0 and c = c]
    by (auto simp: label0 split: option.splits)
  obtain c1 where c1: "camera_update engine32 (1 / 64) camera_in0 camera_ctl0 = Some c1" using u by blast
  obtain c' where "camera_update engine32 (1 / 64) camera_in0 c1 = Some c'" using u by blast
  then have "foldl ?f (Some camera_ctl0) (replicate 2 (1 / 64, camera_in0)) = Some c'"
    using c1 by (simp add: numeral_2_eq_2)
  moreover have "list_all (\<lambda>(dt, _). 0 \<le> dt \<and> dt \<le> 1 / 8) (replicate 2 (1 / 64 :: real, camera_in0))"
    by (simp add: numeral_2_eq_2)
  moreover have "float_unit (flt engine32)" "c_panelY camera_ctl0 = 50"
    by (simp_all add: binary32.float_unit_axioms camera_ctl0_def camera_new_def)
  ultimately show ?thesis using camera_panel_bounded by blast
qed

end
