(* ===== verification/LevelRun.thy ===== *)
theory LevelRun
  imports Level Guard Person Camera
begin

text \<open>
  The loaded level and the components that run in it: the player and the camera look up rooms by
  name, the guards walk the waypoints they were loaded with.
\<close>

section \<open>What the components read from the scene\<close>

text \<open>\<open>GetScene()->GetChild(ToString("%dx%d", ...))->GetVar("dark").GetBool()\<close> and \<open>GetVar("label")\<close>;
  \<open>None\<close> when there is no such node.\<close>

definition room_dark :: "level_scene \<Rightarrow> int \<times> int \<Rightarrow> bool option" where
  "room_dark sc ij =
     map_option (\<lambda>r. map_of (sn_vars r) ''dark'' = Some (A_bool True)) (get_child (room_name (fst ij) (snd ij)) (sc_nodes sc))"

definition room_label_var :: "level_scene \<Rightarrow> int \<times> int \<Rightarrow> string option option" where
  "room_label_var sc ij =
     map_option (\<lambda>r. case map_of (sn_vars r) ''label'' of Some (A_str t) \<Rightarrow> Some t | _ \<Rightarrow> None)
       (get_child (room_name (fst ij) (snd ij)) (sc_nodes sc))"

definition on_floor :: "image \<Rightarrow> int \<times> int \<Rightarrow> bool" where
  "on_floor im ij \<longleftrightarrow> 0 \<le> fst ij \<and> 0 \<le> snd ij \<and> (nat (fst ij), nat (snd ij)) \<in> set (floor_grid im)"

lemma room_dark_floor:
  assumes "build_level E rs dev level im = Some (sc, msgs)"
  shows "room_dark sc (i + 1, j + 1) =
    (if on_floor im (i, j)
     then Some (\<not> ro_lights (room_style E rs (level_style E rs (rs_xml rs (''Levels/'' @ show_int (level + 1) @ ''.xml'')))
            (room_xml rs level (nat i) (nat j))))
     else None)"
  using build_level_loaded [OF assms, of i j]
  by (auto simp: room_dark_def on_floor_def load_room_def Let_def set_vars_def split: option.splits)

lemma room_label_floor:
  assumes "build_level E rs dev level im = Some (sc, msgs)"
  shows "room_label_var sc (i + 1, j + 1) \<noteq> None \<longleftrightarrow> on_floor im (i, j)"
  using build_level_loaded [OF assms, of i j] by (auto simp: room_label_var_def on_floor_def split: option.splits)

lemma person_frame_defined:
  "person_update E sc dt inp p = None \<longleftrightarrow>
   roomDark inp (fst (room_of E (person_pos sc)) + 1, snd (room_of E (person_pos sc)) + 1) = None"
  by (auto simp: person_update_def person_light_def Let_def split: option.splits prod.splits)

lemma person_steer_light: "p_lightOn (fst (person_steer E sc inp p)) = p_lightOn p"
  by (auto simp: person_steer_def Let_def split: prod.splits list.splits)

lemma person_walk_face_light: "p_lightOn (person_walk E sc dt p) = p_lightOn p" "p_lightOn (person_face E p) = p_lightOn p"
  by (auto simp: person_walk_def person_face_def Let_def split: list.splits)

lemma person_update_light:
  assumes "person_update E sc dt inp p = Some (p', es)"
  shows "roomDark inp (fst (room_of E (person_pos sc)) + 1, snd (room_of E (person_pos sc)) + 1) = Some (p_lightOn p')"
proof -
  obtain p1 where p1: "person_light E sc dt inp (person_health_bar E p) = Some p1"
    using assms by (auto simp: person_update_def split: option.splits)
  then have "p_lightOn p' = p_lightOn p1"
    using assms person_steer_light [of E sc inp p1]
    by (auto simp: person_update_def person_walk_face_light split: prod.splits)
  then show ?thesis using p1 by (auto simp: person_light_def Let_def split: option.splits)
qed

section \<open>Properties\<close>

text \<open>C4. The player and the camera in a loaded level: the frame of the player is defined exactly as
  long as the room of the player's position is a floor pixel of the plan (it takes that room's
  node without a check), and then the search light is on exactly in rooms without lights; the
  camera's frame fails only when the player enters a room that is none.\<close>

theorem player_stays_on_floor:
  assumes "build_level E rs dev level im = Some (lv, msgs)"
    and "roomDark inp = room_dark lv" "ci_roomLabel cin = room_label_var lv" "ci_personLocal cin = person_pos sc"
  shows "(person_update E sc dt inp p = None \<longleftrightarrow> \<not> on_floor im (room_of E (person_pos sc))) \<and>
    (\<forall>p' es. person_update E sc dt inp p = Some (p', es) \<longrightarrow>
      p_lightOn p' = (\<not> ro_lights (room_style E rs (level_style E rs (rs_xml rs (''Levels/'' @ show_int (level + 1) @ ''.xml'')))
        (room_xml rs level (nat (fst (room_of E (person_pos sc)))) (nat (snd (room_of E (person_pos sc)))))))) \<and>
    (camera_update E dt cin c = None \<longleftrightarrow>
      room_of E (person_pos sc) \<noteq> c_room c \<and> \<not> on_floor im (room_of E (person_pos sc)))"
proof -
  let ?r = "room_of E (person_pos sc)"
  have d: "roomDark inp (fst ?r + 1, snd ?r + 1) =
    (if on_floor im ?r
     then Some (\<not> ro_lights (room_style E rs (level_style E rs (rs_xml rs (''Levels/'' @ show_int (level + 1) @ ''.xml'')))
            (room_xml rs level (nat (fst ?r)) (nat (snd ?r)))))
     else None)"
    using room_dark_floor [OF assms(1), of "fst ?r" "snd ?r"] assms(2) by simp
  have "camera_update E dt cin c = None \<longleftrightarrow> ?r \<noteq> c_room c \<and> ci_roomLabel cin (fst ?r + 1, snd ?r + 1) = None"
    using assms(4) by (auto simp: camera_update_def Let_def split: option.splits)
  then show ?thesis
    using d person_frame_defined [of E sc dt inp p] person_update_light [of E sc dt inp p]
      room_label_floor [OF assms(1), of "fst ?r" "snd ?r"] assms(3)
    by (auto split: if_splits)
qed

theorem player_stays_on_floor_witness:
  "\<exists>lv msgs. build_level engine32 res0 False 0 plan0 = Some (lv, msgs) \<and>
     (person_update engine32 scene0 (1 / 64) (person_in0\<lparr>roomDark := room_dark lv\<rparr>) person0 = None \<longleftrightarrow>
      \<not> on_floor plan0 (room_of engine32 (person_pos scene0)))"
proof -
  obtain lv msgs where b: "build_level engine32 res0 False 0 plan0 = Some (lv, msgs)" using build_level_res0 by blast
  from player_stays_on_floor [OF b, where inp = "person_in0\<lparr>roomDark := room_dark lv\<rparr>" and p = person0
      and cin = "camera_in0\<lparr>ci_roomLabel := room_label_var lv, ci_personLocal := person_pos scene0\<rparr>" and sc = scene0 and dt = "1 / 64"]
  show ?thesis using b by auto
qed

section \<open>Guards\<close>

lemma all_nodes_mk: "all_nodes (mk_node n p r cs ch) = mk_node n p r cs ch # concat (map all_nodes ch)"
  by (simp add: mk_node_def)

lemma all_nodes_vars: "all_nodes (set_vars v x) = set_vars v x # tl (all_nodes x)"
  by (cases x) (simp add: set_vars_def)

lemma nodes_named: "n \<notin> set (names x) \<Longrightarrow> y \<in> set (all_nodes x) \<Longrightarrow> sn_name y \<noteq> n"
  by (auto simp: names_def)

lemma guard_node_nodes: "y \<in> set (all_nodes (guard_node E rs base ws)) \<Longrightarrow> sn_name y = ''Guard'' \<Longrightarrow> y = guard_node E rs base ws"
  by (auto simp: guard_node_def all_nodes_mk search_light_def mk_node_def)

lemma room_contents_guards:
  assumes "room_contents E rs base r = Some (c, msgs)" "y \<in> set (all_nodes c)" "sn_name y = ''Guard''"
  shows "\<exists>ws. ws \<noteq> [] \<and> y = guard_node E rs base ws"
proof -
  obtain gs where gs: "load_guards E rs base (children_named ''guard'' r) = Some gs"
    and c: "c = mk_node [] vec_ZERO q_IDENTITY []
        (map fst (map (load_object E rs) (children_named ''object'' r)) @ gs @ map (load_zone E rs) (children_named ''audiozone'' r))"
    using assms(1) by (auto simp: room_contents_def Let_def split: option.splits)
  have "''Guard'' \<notin> set (names (fst (load_object E rs x)))" "''Guard'' \<notin> set (names (load_zone E rs x))" for x
    by (simp_all add: names_load_object names_load_zone)
  then obtain g where g: "g \<in> set gs" "y \<in> set (all_nodes g)"
    using assms(2,3) nodes_named unfolding c by (fastforce simp: all_nodes_mk)
  then obtain x where "x \<in> set (children_named ''guard'' r)" "g = guard_node E rs base (guard_waypoints E base x)"
    using load_guards_nodes [OF gs] by auto
  then show ?thesis using guard_node_nodes g(2) assms(3) load_guards_returns [OF gs] by metis
qed

lemma load_room_guards:
  assumes "load_room E rs dev level ls x y = Some (r, msgs)" "n \<in> set (all_nodes r)" "sn_name n = ''Guard''"
  shows "\<exists>ws. ws \<noteq> [] \<and> n = guard_node E rs (room_position E x y) ws"
proof -
  have other: "sn_name k \<noteq> ''Guard''" if "k \<in> set (all_nodes q)" "q \<in> set (room_lights E (1 / 4) [] @ [room_label E rs nm])" for k q nm
    using that by (auto simp: room_lights_def room_label_def Let_def mk_node_def set_pos_def set_scale_def)
  have "room_name (int x + 1) (int y + 1) \<noteq> ''Guard''"
  proof
    assume "room_name (int x + 1) (int y + 1) = ''Guard''"
    moreover have "CHR ''x'' \<in> set (room_name (int x + 1) (int y + 1))" by (simp add: room_name_def)
    ultimately show False by simp
  qed
  then obtain c msgs' where "n \<in> set (all_nodes c)" "room_contents E rs (room_position E x y) (the (room_xml rs level x y)) = Some (c, msgs')"
    using assms other by (fastforce simp: load_room_def Let_def all_nodes_vars all_nodes_mk split: option.splits if_splits)
  then show ?thesis using room_contents_guards assms(3) by blast
qed

lemma load_rooms_guards:
  "load_rooms E rs dev level ls cs = Some (rooms, msgs) \<Longrightarrow> r \<in> set rooms \<Longrightarrow> n \<in> set (all_nodes r) \<Longrightarrow> sn_name n = ''Guard'' \<Longrightarrow>
   \<exists>base ws. ws \<noteq> [] \<and> n = guard_node E rs base ws"
proof (induction cs arbitrary: rooms msgs)
  case (Cons c cs)
  from Cons.prems(1) obtain q m rest logs where q: "load_room E rs dev level ls (fst c) (snd c) = Some (q, m)"
    "load_rooms E rs dev level ls cs = Some (rest, logs)" "rooms = q # rest"
    by (auto split: option.splits)
  show ?case
  proof (cases "r = q")
    case True
    then show ?thesis using load_room_guards [OF q(1)] Cons.prems(3,4) by metis
  next
    case False
    then show ?thesis using Cons.IH [OF q(2)] Cons.prems q(3) by auto
  qed
qed simp


text \<open>A plan with one room and one guard.\<close>

definition xml_guard :: xml where
  "xml_guard = Xml ''room'' [] [] [Xml ''guard'' [] [] [Xml ''waypoint'' [(''position'', ''1 0 0'')] [] []]]"

definition res_guard :: resources where
  "res_guard = res0\<lparr>rs_xml := (\<lambda>n. if n = ''Levels/1/1x1.xml'' then Some xml_guard else None), rs_loaded := (\<lambda>_. True)\<rparr>"


end
