(* ===== verification/SceneTyping.thy ===== *)
theory SceneTyping
  imports LevelRun
begin

text \<open>
  A typing of scenes. The components reach each other by name and by class: \<open>GetComponent<X>()\<close> on
  their own node, on a child, on the person's node or on the scene, \<open>GetParent()->GetParent()\<close>, the
  camera of the viewport. The results are used without a check, so a component is at home only on
  a node where they exist. What each class takes for granted is a list of needs; a scene is well
  typed if the needs of all its components are met.
\<close>

section \<open>Needs\<close>

text \<open>\<open>Own c\<close>: a component of class \<open>c\<close> on the same node; \<open>Child n\<close>, \<open>In_Child n c\<close>: a child called \<open>n\<close>,
  with such a component; \<open>Room\<close>: the parent's parent; \<open>Of_Scene c\<close>: a component of the scene;
  \<open>Person_Node\<close>, \<open>Of_Person c\<close>: the node called Person, with such a component; \<open>The_Camera\<close>: the camera of
  the viewport; \<open>Camera_Control\<close>: the controller on its node's parent.\<close>

datatype need =
    Own string | Child string | In_Child string string | Room | Of_Scene string
  | Person_Node | Of_Person string | The_Camera | Camera_Control

definition animated_poster_needs :: "need list" where
  "animated_poster_needs = [Own ''StaticModel'']"

definition audio_zone_needs :: "need list" where
  "audio_zone_needs = [Of_Scene ''AudioManager'']"

definition boss_laser_needs :: "need list" where
  "boss_laser_needs = [Own ''StaticModel'', Own ''RigidBody'', Of_Person ''Person'']"

definition bertha_needs :: "need list" where
  "bertha_needs = [Own ''StaticModel'', Own ''RigidBody'', Own ''CollisionShape'', Camera_Control, Person_Node,
     Of_Person ''Person'', Of_Scene ''AudioManager'']"

definition camera_controller_needs :: "need list" where
  "camera_controller_needs = [Person_Node]"

definition door_needs :: "need list" where
  "door_needs = [Person_Node, Of_Person ''Person'']"

definition guard_needs :: "need list" where
  "guard_needs = [Own ''RigidBody'', Person_Node, Camera_Control, Of_Scene ''NavigationMesh'', Own ''StaticModel'',
     In_Child ''SearchLight'' ''Light'', Of_Scene ''PhysicsWorld'']"

definition poster_needs :: "need list" where
  "poster_needs = [Own ''StaticModel'']"

definition laser_needs :: "need list" where
  "laser_needs = [Own ''StaticModel'', Own ''RigidBody'', Room, Person_Node, Of_Scene ''NavigationMesh'']"

definition wright_needs :: "need list" where
  "wright_needs = [Of_Scene ''AudioManager'']"

definition padlock_needs :: "need list" where
  "padlock_needs = [Person_Node, The_Camera, Of_Person ''Inventory'']"

definition person_needs :: "need list" where
  "person_needs = [Of_Scene ''NavigationMesh'', Own ''RigidBody'', Child ''SearchLight'', Camera_Control, The_Camera,
     Of_Scene ''Octree'', Own ''StaticModel'', In_Child ''ShadowCaster'' ''StaticModel'']"

definition pickup_needs :: "need list" where
  "pickup_needs = [Own ''RigidBody'', Of_Person ''Inventory'']"

definition security_camera_needs :: "need list" where
  "security_camera_needs = [Person_Node, Of_Scene ''PhysicsWorld'', Of_Scene ''NavigationMesh'', Room]"

definition self_destroy_needs :: "need list" where
  "self_destroy_needs = [Own ''StaticModel'']"

definition stairs_needs :: "need list" where
  "stairs_needs = [Person_Node]"

definition terminal_needs :: "need list" where
  "terminal_needs = [The_Camera, Person_Node]"

definition thrower_needs :: "need list" where
  "thrower_needs = [Own ''Inventory'', Own ''Person'']"

definition tutorial_poster_needs :: "need list" where
  "tutorial_poster_needs = [Own ''StaticModel'']"

text \<open>The wife takes the models of the terminals: their class has them as a need of its own.\<close>

definition wife_needs :: "need list" where
  "wife_needs = [Person_Node, Of_Person ''Person'']"

definition wife_terminal_needs :: "need list" where
  "wife_terminal_needs = [Own ''StaticModel'']"

definition class_needs :: "(string \<times> need list) list" where
  "class_needs =
     [(''AnimatedPoster'', animated_poster_needs), (''AudioZone'', audio_zone_needs), (''BossLaser'', boss_laser_needs),
      (''BossBertha'', bertha_needs), (''CameraController'', camera_controller_needs), (''Door'', door_needs),
      (''Guard'', guard_needs), (''InteractablePoster'', poster_needs), (''Laser'', laser_needs), (''MrWright'', wright_needs),
      (''Padlock'', padlock_needs), (''Person'', person_needs), (''Pickup'', pickup_needs),
      (''SecurityCamera'', security_camera_needs), (''SelfDestroy'', self_destroy_needs), (''Stairs'', stairs_needs),
      (''Terminal'', terminal_needs @ wife_terminal_needs), (''Thrower'', thrower_needs),
      (''TutorialPoster'', tutorial_poster_needs), (''Wife'', wife_needs)]"

definition needs_of :: "string \<Rightarrow> need list" where
  "needs_of cls = (case map_of class_needs cls of None \<Rightarrow> [] | Some ds \<Rightarrow> ds)"

section \<open>Places\<close>

text \<open>The nodes of a tree with the nodes above them, the nearest first.\<close>

fun places :: "snode list \<Rightarrow> snode \<Rightarrow> (snode list \<times> snode) list" where
  "places up (SNode n p r s e vs cs ch) =
     (up, SNode n p r s e vs cs ch) # concat (map (places (SNode n p r s e vs cs ch # up)) ch)"

definition scene_places :: "level_scene \<Rightarrow> (snode list \<times> snode) list" where
  "scene_places sc = concat (map (places []) (sc_nodes sc))"

definition the_person :: "level_scene \<Rightarrow> snode option" where
  "the_person sc = find (\<lambda>n. sn_name n = ''Person'') (concat (map all_nodes (sc_nodes sc)))"

text \<open>The loader gives the viewport the camera of the node it calls Camera.\<close>

definition the_camera :: "level_scene \<Rightarrow> (snode list \<times> snode) option" where
  "the_camera sc = find (\<lambda>(_, n). sn_name n = ''Camera'' \<and> has_comp ''Camera'' n) (scene_places sc)"

fun met :: "level_scene \<Rightarrow> snode list \<Rightarrow> snode \<Rightarrow> need \<Rightarrow> bool" where
  "met sc up n (Own c) = has_comp c n"
| "met sc up n (Child k) = (get_child k (sn_children n) \<noteq> None)"
| "met sc up n (In_Child k c) = (case get_child k (sn_children n) of None \<Rightarrow> False | Some m \<Rightarrow> has_comp c m)"
| "met sc up n Room = (up \<noteq> [])"
| "met sc up n (Of_Scene c) = list_ex (\<lambda>k. cp_type k = c) (sc_comps sc)"
| "met sc up n Person_Node = (the_person sc \<noteq> None)"
| "met sc up n (Of_Person c) = (case the_person sc of None \<Rightarrow> False | Some p \<Rightarrow> has_comp c p)"
| "met sc up n The_Camera = (the_camera sc \<noteq> None)"
| "met sc up n Camera_Control =
     (case the_camera sc of Some (p # _, _) \<Rightarrow> has_comp ''CameraController'' p | _ \<Rightarrow> False)"

definition node_typed :: "level_scene \<Rightarrow> snode list \<times> snode \<Rightarrow> bool" where
  "node_typed sc x = list_all (\<lambda>c. list_all (met sc (fst x) (snd x)) (needs_of (cp_type c))) (sn_comps (snd x))"

definition well_typed :: "level_scene \<Rightarrow> bool" where
  "well_typed sc = list_all (node_typed sc) (scene_places sc)"

text \<open>The classes that need more than the node of an object has.\<close>

definition not_for_objects :: "string list" where
  "not_for_objects = [''Guard'', ''Person'', ''Thrower'']"

text \<open>The objects that the room files of a level place.\<close>

definition room_objects :: "resources \<Rightarrow> int \<Rightarrow> nat \<Rightarrow> nat \<Rightarrow> xml list" where
  "room_objects rs level x y = (case room_xml rs level x y of None \<Rightarrow> [] | Some r \<Rightarrow> children_named ''object'' r)"

definition level_objects :: "resources \<Rightarrow> int \<Rightarrow> image \<Rightarrow> xml list" where
  "level_objects rs level im = concat (map (\<lambda>(x, y). room_objects rs level x y) (floor_grid im))"

text \<open>An object that is given such a class.\<close>

definition misplaced :: "xml \<Rightarrow> bool" where
  "misplaced x \<longleftrightarrow> has_attr x ''interaction'' \<and> get_attr x ''interaction'' \<in> set not_for_objects"

section \<open>Lemmas\<close>

declare places.simps [simp del]

lemma places_eq: "places up x = (up, x) # concat (map (places (x # up)) (sn_children x))"
  by (cases x) (simp add: places.simps)

lemma places_nodes: "map snd (places up x) = all_nodes x"
proof (induction up x rule: places.induct)
  case (1 up n p r s e vs cs ch)
  then show ?case by (auto simp: places.simps map_concat comp_def intro!: arg_cong [where f = concat])
qed

lemma find_filter: "find P xs = (case filter P xs of [] \<Rightarrow> None | x # _ \<Rightarrow> Some x)"
  by (induction xs) auto

lemma find_places: "''Camera'' \<notin> set (names x) \<Longrightarrow> find (\<lambda>(_, n). sn_name n = ''Camera'' \<and> has_comp ''Camera'' n) (places up x) = None"
proof -
  assume n: "''Camera'' \<notin> set (names x)"
  have "b \<in> set (all_nodes x)" if "(a, b) \<in> set (places up x)" for a b
    using that unfolding places_nodes [of up x, symmetric] by force
  note h = this
  show ?thesis using n by (auto simp: find_None_iff names_def dest!: h) (metis image_eqI)
qed

text \<open>The names of the nodes of a room.\<close>

lemma room_names:
  assumes "load_room E rs dev level ls x y = Some (r, msgs)" "n \<in> set (names r)"
  shows "n \<in> {room_name (int x + 1) (int y + 1), [], ''Guard'', ''SearchLight'', ''AudioZone''}"
proof -
  have c: "set (names c) \<subseteq> {[], ''Guard'', ''SearchLight'', ''AudioZone''}"
    if "room_contents E rs base q = Some (c, m)" for base q c m
    using that load_guards_nodes [of E rs base "children_named ''guard'' q"]
    by (auto simp: room_contents_def Let_def names_load_object names_guard_node names_load_zone split: option.splits if_splits)
  show ?thesis using assms c
    by (fastforce simp: load_room_def Let_def room_lights_def room_label_def split: option.splits if_splits)
qed

lemma load_rooms_each:
  "load_rooms E rs dev level ls cs = Some (rooms, msgs) \<Longrightarrow> q \<in> set rooms \<Longrightarrow>
   \<exists>x y m. (x, y) \<in> set cs \<and> load_room E rs dev level ls x y = Some (q, m)"
  by (induction cs arbitrary: rooms msgs) (fastforce split: option.splits)+

text \<open>What a loaded scene offers to all its components.\<close>

lemma find_concat_None: "\<forall>x \<in> set xs. find P (f x) = None \<Longrightarrow> find P (concat (map f xs)) = None"
  by (induction xs) (simp_all add: find_append)

lemma build_level_camera:
  assumes "build_level E rs dev level im = Some (sc, msgs)"
  shows "the_camera sc = Some ([camera_tree E rs (person_start E im)], hd (sn_children (camera_tree E rs (person_start E im))))"
proof -
  let ?ls = "level_style E rs (rs_xml rs (''Levels/'' @ show_int (level + 1) @ ''.xml''))"
  let ?P = "\<lambda>(_, n). sn_name n = ''Camera'' \<and> has_comp ''Camera'' n"
  obtain rooms where r: "load_rooms E rs dev level ?ls (floor_grid im) = Some (rooms, msgs)"
    and sc: "sc_nodes sc = rooms @ load_walls E rs ?ls im @
        [person_tree E rs (person_start E im), camera_tree E rs (person_start E im)]"
    using assms by (auto simp: build_level_def Let_def)
  have "''Camera'' \<notin> set (names q)" if q: "q \<in> set rooms" for q
  proof -
    obtain x y m where "load_room E rs dev level ?ls x y = Some (q, m)"
      using load_rooms_each [OF r q] by blast
    moreover have "room_name i j \<noteq> ''Camera''" for i j
    proof
      assume "room_name i j = ''Camera''"
      moreover have "CHR ''x'' \<in> set (room_name i j)" by (simp add: room_name_def)
      ultimately show False by simp
    qed
    ultimately show ?thesis using room_names by fastforce
  qed
  moreover have "''Camera'' \<notin> set (names w)" if "w \<in> set (load_walls E rs ?ls im)" for w
    using that by (auto simp: load_walls_def wall_node_def Let_def door_nodes_def)
  moreover have "''Camera'' \<notin> set (names (person_tree E rs p))" for p
    by (simp add: person_tree_def search_light_def)
  ultimately have "find ?P (concat (map (places []) (rooms @ load_walls E rs ?ls im @ [person_tree E rs (person_start E im)]))) = None"
    by (intro find_concat_None ballI find_places) auto
  then have "the_camera sc = find ?P (places [] (camera_tree E rs (person_start E im)))"
    by (simp add: the_camera_def scene_places_def sc find_append split: option.splits)
  then show ?thesis by (simp add: places_eq [of "[]"] camera_tree_def places_eq [of "[_]"] has_comp_def)
qed

definition scene_ok :: "urho \<Rightarrow> resources \<Rightarrow> vec3 \<Rightarrow> level_scene \<Rightarrow> bool" where
  "scene_ok E rs p sc \<longleftrightarrow> sc_comps sc = world_comps E \<and> the_person sc = Some (person_tree E rs p) \<and>
     the_camera sc = Some ([camera_tree E rs p], hd (sn_children (camera_tree E rs p)))"

lemma build_level_ok: "build_level E rs dev level im = Some (sc, msgs) \<Longrightarrow> scene_ok E rs (person_start E im) sc"
  using build_level_person [of E rs dev level im sc msgs] build_level_camera [of E rs dev level im sc msgs]
  by (auto simp: scene_ok_def the_person_def find_filter build_level_def Let_def)

lemma met_global:
  assumes "scene_ok E rs p sc"
  shows "met sc up n Person_Node" "met sc up n The_Camera" "met sc up n Camera_Control"
    "c \<in> {''Person'', ''Inventory''} \<Longrightarrow> met sc up n (Of_Person c)"
    "c \<in> {''AudioManager'', ''NavigationMesh'', ''PhysicsWorld'', ''Octree''} \<Longrightarrow> met sc up n (Of_Scene c)"
  using assms by (auto simp: scene_ok_def world_comps_def person_tree_def camera_tree_def has_comp_def)

text \<open>The classes without needs of their own, and those of the loader's nodes.\<close>

lemmas typed_defs = node_typed_def needs_of_def class_needs_def has_comp_def get_child_def

lemma needs_plain:
  "c \<notin> fst ` set class_needs \<Longrightarrow> needs_of c = []"
  by (simp add: needs_of_def map_of_eq_None_iff [THEN iffD2])

definition object_needs :: "need set" where
  "object_needs = {Own ''StaticModel'', Own ''RigidBody'', Own ''CollisionShape'', Room, Person_Node, The_Camera, Camera_Control,
     Of_Person ''Person'', Of_Person ''Inventory'', Of_Scene ''AudioManager'', Of_Scene ''NavigationMesh'', Of_Scene ''PhysicsWorld''}"

lemma class_needs_objects:
  "list_all (\<lambda>(c, ds). c \<in> set not_for_objects \<or> list_all (\<lambda>d. d \<in> object_needs) ds) class_needs"
  by (simp add: class_needs_def not_for_objects_def object_needs_def animated_poster_needs_def audio_zone_needs_def
      boss_laser_needs_def bertha_needs_def camera_controller_needs_def door_needs_def poster_needs_def laser_needs_def
      wright_needs_def padlock_needs_def pickup_needs_def security_camera_needs_def self_destroy_needs_def stairs_needs_def
      terminal_needs_def tutorial_poster_needs_def wife_needs_def wife_terminal_needs_def)

lemma needs_object:
  assumes "c \<notin> set not_for_objects" "d \<in> set (needs_of c)"
  shows "d \<in> object_needs"
proof -
  obtain ds where m: "map_of class_needs c = Some ds" and d: "d \<in> set ds"
    using assms(2) by (cases "map_of class_needs c") (auto simp: needs_of_def)
  then have "(c, ds) \<in> set class_needs" by (simp add: map_of_SomeD)
  then show ?thesis using class_needs_objects assms(1) d by (auto simp: list_all_iff)
qed

lemma needs_special:
  "needs_of ''Guard'' = guard_needs" "needs_of ''Person'' = person_needs" "needs_of ''Thrower'' = thrower_needs"
  "needs_of ''AudioZone'' = audio_zone_needs" "needs_of ''Door'' = door_needs" "needs_of ''CameraController'' = camera_controller_needs"
  by (simp_all add: needs_of_def class_needs_def)

lemma needs_engine [simp]:
  "needs_of ''StaticModel'' = []" "needs_of ''RigidBody'' = []" "needs_of ''CollisionShape'' = []" "needs_of ''Navigable'' = []"
  "needs_of ''Light'' = []" "needs_of ''Text3D'' = []" "needs_of ''SoundSource3D'' = []" "needs_of ''SoundListener'' = []"
  "needs_of ''Camera'' = []" "needs_of ''Inventory'' = []"
  by (simp_all add: needs_plain class_needs_def)

lemma has_comp_iff: "has_comp c x \<longleftrightarrow> c \<in> set (map cp_type (sn_comps x))"
  by (auto simp: has_comp_def list_ex_iff image_iff)

lemma node_typed_iff:
  "node_typed sc (up, x) \<longleftrightarrow> (\<forall>c \<in> set (map cp_type (sn_comps x)). \<forall>d \<in> set (needs_of c). met sc up x d)"
  by (simp add: node_typed_def list_all_iff)

lemma misplaced_unmet:
  assumes "misplaced x"
  shows "\<not> node_typed sc (up, fst (load_object E rs x))"
proof -
  let ?o = "fst (load_object E rs x)" and ?c = "get_attr x ''interaction''"
  have i: "has_attr x ''interaction''" and bad: "?c \<in> set not_for_objects" using assms by (simp_all add: misplaced_def)
  have ch: "sn_children ?o = []" by (simp add: load_object_def Let_def case_prod_beta)
  have "?c \<in> set registered" "?c \<notin> set interactable"
    using bad by (auto simp: not_for_objects_def registered_def interactable_def)
  then have c: "set (map cp_type (sn_comps ?o)) = {''StaticModel'', ''RigidBody'', ''CollisionShape'', ?c}"
    using i by (auto simp: load_object_def Let_def interaction_comp_def)
  consider "?c = ''Guard''" | "?c = ''Person''" | "?c = ''Thrower''" using bad by (auto simp: not_for_objects_def)
  then have "\<exists>d \<in> set (needs_of ?c). \<not> met sc up ?o d"
  proof cases
    case 1
    then show ?thesis
      by (intro bexI [of _ "In_Child ''SearchLight'' ''Light''"]) (simp_all add: needs_special guard_needs_def ch get_child_def)
  next
    case 2
    then show ?thesis by (intro bexI [of _ "Child ''SearchLight''"]) (simp_all add: needs_special person_needs_def ch get_child_def)
  next
    case 3
    have "''Inventory'' \<notin> set (map cp_type (sn_comps ?o))" unfolding c 3 by simp
    then have "\<not> met sc up ?o (Own ''Inventory'')" by (simp add: has_comp_iff)
    then show ?thesis unfolding 3 needs_special thrower_needs_def by simp
  qed
  moreover have "?c \<in> set (map cp_type (sn_comps ?o))" unfolding c by simp
  ultimately show ?thesis unfolding node_typed_iff by blast
qed

lemma met_object_needs:
  assumes "scene_ok E rs p sc" "up \<noteq> []" "has_comp ''StaticModel'' n" "has_comp ''RigidBody'' n" "has_comp ''CollisionShape'' n"
    "d \<in> object_needs"
  shows "met sc up n d"
  using assms(6) unfolding object_needs_def
  by (elim insertE emptyE) (simp_all add: met_global [OF assms(1)] assms(2-5) del: met.simps(5-9))

lemma object_typed:
  assumes "scene_ok E rs p sc" "up \<noteq> []"
  shows "list_all (node_typed sc) (places up (fst (load_object E rs x))) \<longleftrightarrow> \<not> misplaced x"
proof -
  let ?o = "fst (load_object E rs x)" and ?c = "get_attr x ''interaction''"
  have p: "places up ?o = [(up, ?o)]" by (simp add: places_eq load_object_def Let_def case_prod_beta)
  have "node_typed sc (up, ?o)" if "\<not> misplaced x"
  proof (cases "has_attr x ''interaction''")
    case False
    then show ?thesis by (simp add: node_typed_def load_object_def Let_def)
  next
    case i: True
    then have h: "has_comp ''StaticModel'' ?o" "has_comp ''RigidBody'' ?o" "has_comp ''CollisionShape'' ?o"
      by (simp_all add: load_object_def Let_def case_prod_beta has_comp_def)
    have "?c \<notin> set not_for_objects" using that i by (simp add: misplaced_def)
    then have n: "\<forall>d \<in> set (needs_of ?c). met sc up ?o d"
      using needs_object met_object_needs [OF assms h] by blast
    have "set (map cp_type (sn_comps ?o)) \<subseteq> {''StaticModel'', ''RigidBody'', ''CollisionShape'', ?c}"
      using i by (auto simp: load_object_def Let_def interaction_comp_def)
    then show ?thesis unfolding node_typed_iff using n by (force dest: subsetD)
  qed
  then show ?thesis using misplaced_unmet by (auto simp: p)
qed

text \<open>The loader's own nodes.\<close>

lemma guard_node_typed:
  assumes "scene_ok E rs p sc"
  shows "list_all (node_typed sc) (places up (guard_node E rs base ws))"
  using met_global [OF assms]
  by (simp add: places_eq guard_node_def search_light_def person_plane_def person_body_def node_typed_def needs_special
      guard_needs_def has_comp_def get_child_def)

lemma zone_typed:
  assumes "scene_ok E rs p sc"
  shows "list_all (node_typed sc) (places up (load_zone E rs x))"
  using met_global [OF assms]
  by (simp add: places_eq load_zone_def Let_def node_typed_def needs_special audio_zone_needs_def)

lemma wall_typed:
  assumes "scene_ok E rs p sc"
  shows "list_all (node_typed sc) (places up (wall_node E rs ls x y c))"
  using met_global [OF assms]
  by (simp add: places_eq wall_node_def Let_def door_nodes_def node_typed_def needs_special door_needs_def)

lemma person_typed:
  assumes "scene_ok E rs p sc"
  shows "list_all (node_typed sc) (places up (person_tree E rs q))" "list_all (node_typed sc) (places up (camera_tree E rs q))"
  using met_global [OF assms]
  by (simp_all add: places_eq person_tree_def search_light_def camera_tree_def camera_light_def disabled_def person_plane_def
      person_body_def node_typed_def needs_special person_needs_def thrower_needs_def camera_controller_needs_def has_comp_def
      get_child_def mk_node_def)

lemma list_all_concat_map: "list_all P (concat (map f xs)) \<longleftrightarrow> list_all (\<lambda>x. list_all P (f x)) xs"
  by (induction xs) auto

lemma contents_typed:
  assumes "scene_ok E rs p sc" "up \<noteq> []" "room_contents E rs base q = Some (c, msgs)"
  shows "list_all (node_typed sc) (places up c) \<longleftrightarrow> \<not> list_ex misplaced (children_named ''object'' q)"
proof -
  obtain gs where gs: "load_guards E rs base (children_named ''guard'' q) = Some gs"
    and c: "c = mk_node [] vec_ZERO q_IDENTITY []
        (map fst (map (load_object E rs) (children_named ''object'' q)) @ gs @ map (load_zone E rs) (children_named ''audiozone'' q))"
    using assms(3) by (auto simp: room_contents_def Let_def split: option.splits)
  have "list_all (\<lambda>g. list_all (node_typed sc) (places (c # up) g)) gs"
    unfolding load_guards_nodes [OF gs] by (simp add: list_all_iff guard_node_typed [OF assms(1), unfolded list_all_iff])
  moreover have "list_all (\<lambda>g. list_all (node_typed sc) (places (c # up) (load_zone E rs g))) zs" for zs
    by (simp add: list_all_iff zone_typed [OF assms(1), unfolded list_all_iff])
  moreover have "node_typed sc (up, c)" by (simp add: node_typed_def c)
  moreover have "places up c = (up, c) # concat (map (places (c # up)) (sn_children c))" by (rule places_eq)
  ultimately have "list_all (node_typed sc) (places up c) \<longleftrightarrow>
      list_all (\<lambda>x. list_all (node_typed sc) (places (c # up) (fst (load_object E rs x)))) (children_named ''object'' q)"
    unfolding list_all_concat_map by (simp add: c list.pred_map comp_def list_all_concat_map)
  moreover have "list_all (node_typed sc) (places (c # up) (fst (load_object E rs x))) \<longleftrightarrow> \<not> misplaced x" for x
    by (rule object_typed [OF assms(1)]) simp
  ultimately show ?thesis by (simp only:) (simp add: list_ex_iff list_all_iff)
qed

lemma room_typed:
  assumes "scene_ok E rs p sc" "load_room E rs dev level ls x y = Some (r, msgs)"
  shows "list_all (node_typed sc) (places [] r) \<longleftrightarrow> \<not> list_ex misplaced (room_objects rs level x y)"
proof -
  have l: "list_all (\<lambda>q. list_all (node_typed sc) (places up q)) (room_lights E (1 / 4) [])"
      "list_all (node_typed sc) (places up (room_label E rs nm))" for up nm
    by (simp_all add: room_lights_def room_label_def Let_def places_eq node_typed_def)
  have own: "node_typed sc ([], r)"
    using assms(2) by (auto simp: load_room_def Let_def floor_comps_def node_typed_def split: option.splits)
  show ?thesis
  proof (cases "room_xml rs level x y")
    case None
    then have "list_all (\<lambda>q. list_all (node_typed sc) (places [r] q)) (sn_children r)"
      using assms(2) by (auto simp: load_room_def Let_def l)
    then show ?thesis using own None by (subst places_eq) (simp add: list_all_concat_map room_objects_def)
  next
    case (Some q)
    then obtain c m where c: "room_contents E rs (room_position E x y) q = Some (c, m)"
      using assms(2) by (auto simp: load_room_def Let_def)
    then have "list_all (\<lambda>k. list_all (node_typed sc) (places [r] k)) (sn_children r) \<longleftrightarrow> list_all (node_typed sc) (places [r] c)"
      using assms(2) Some by (auto simp: load_room_def Let_def l)
    then show ?thesis using own Some contents_typed [OF assms(1) _ c, of "[r]"]
      by (subst places_eq) (simp add: list_all_concat_map room_objects_def)
  qed
qed

lemma rooms_typed:
  "scene_ok E rs p sc \<Longrightarrow> load_rooms E rs dev level ls cs = Some (rooms, msgs) \<Longrightarrow>
   list_all (\<lambda>r. list_all (node_typed sc) (places [] r)) rooms \<longleftrightarrow>
   \<not> list_ex misplaced (concat (map (\<lambda>(x, y). room_objects rs level x y) cs))"
proof (induction cs arbitrary: rooms msgs)
  case (Cons c cs)
  from Cons.prems(2) obtain r m rest logs where r: "load_room E rs dev level ls (fst c) (snd c) = Some (r, m)"
    and rest: "load_rooms E rs dev level ls cs = Some (rest, logs)" "rooms = r # rest"
    by (auto split: option.splits)
  show ?case using room_typed [OF Cons.prems(1) r] Cons.IH [OF Cons.prems(1) rest(1)]
    by (simp add: rest(2) case_prod_beta)
qed simp

lemma build_level_typed:
  assumes "build_level E rs dev level im = Some (sc, msgs)"
  shows "well_typed sc \<longleftrightarrow> \<not> list_ex misplaced (level_objects rs level im)"
proof -
  let ?ls = "level_style E rs (rs_xml rs (''Levels/'' @ show_int (level + 1) @ ''.xml''))"
  obtain rooms where r: "load_rooms E rs dev level ?ls (floor_grid im) = Some (rooms, msgs)"
    and sc: "sc_nodes sc = rooms @ load_walls E rs ?ls im @
        [person_tree E rs (person_start E im), camera_tree E rs (person_start E im)]"
    using assms by (auto simp: build_level_def Let_def)
  note ok = build_level_ok [OF assms]
  have "list_all (\<lambda>w. list_all (node_typed sc) (places [] w)) (load_walls E rs ?ls im)"
    by (auto simp: load_walls_def list_all_iff wall_typed [OF ok, unfolded list_all_iff])
  then show ?thesis
    using rooms_typed [OF ok r] person_typed [OF ok, of "[]" "person_start E im"]
    by (simp add: well_typed_def scene_places_def sc list_all_concat_map level_objects_def)
qed

text \<open>The loader warns of every such object.\<close>

lemma misplaced_warns:
  "misplaced x \<Longrightarrow> \<exists>w. snd (load_object E rs x) = [Log_Warning w]"
  by (auto simp: misplaced_def not_for_objects_def load_object_def Let_def case_prod_beta interaction_comp_def registered_def interactable_def)

lemma load_rooms_warns:
  "load_rooms E rs dev level ls cs = Some (rooms, msgs) \<Longrightarrow> (x, y) \<in> set cs \<Longrightarrow> q \<in> set (room_objects rs level x y) \<Longrightarrow>
   set (snd (load_object E rs q)) \<subseteq> set msgs"
proof (induction cs arbitrary: rooms msgs)
  case (Cons c cs)
  from Cons.prems obtain r m rest logs where r: "load_room E rs dev level ls (fst c) (snd c) = Some (r, m)"
    and rest: "load_rooms E rs dev level ls cs = Some (rest, logs)" "msgs = m @ logs"
    by (auto split: option.splits)
  have "set (snd (load_object E rs q)) \<subseteq> set m" if "c = (x, y)"
    using r that Cons.prems(3) by (auto simp: load_room_def Let_def room_objects_def room_contents_def split: option.splits)
  then show ?case using Cons.IH [OF rest(1) _ Cons.prems(3)] Cons.prems(2) by (auto simp: rest(2))
qed simp

lemma build_level_warns:
  assumes "build_level E rs dev level im = Some (sc, msgs)" "q \<in> set (level_objects rs level im)" "misplaced q"
  shows "\<exists>w. Log_Warning w \<in> set msgs"
proof -
  obtain ls rooms where r: "load_rooms E rs dev level ls (floor_grid im) = Some (rooms, msgs)"
    using assms(1) by (auto simp: build_level_def Let_def)
  obtain x y where "(x, y) \<in> set (floor_grid im)" "q \<in> set (room_objects rs level x y)"
    using assms(2) by (auto simp: level_objects_def)
  then have "set (snd (load_object E rs q)) \<subseteq> set msgs" by (rule load_rooms_warns [OF r])
  moreover obtain w where "snd (load_object E rs q) = [Log_Warning w]" using misplaced_warns [OF assms(3)] by blast
  ultimately show ?thesis by auto
qed

section \<open>Properties\<close>

text \<open>C6. Scenes are well typed: in a loaded level every component finds what it takes for granted (the
  components of its own node, of its children, of the person's node and of the scene, its room, the
  camera and its controller), exactly if no object of a room file is given the class of a guard, a
  person or a thrower. The loader warns of every such object, so a level that loads without a
  warning is well typed.\<close>

theorem loaded_level_well_typed:
  assumes "build_level E rs dev level im = Some (sc, msgs)"
  shows "(well_typed sc \<longleftrightarrow> \<not> list_ex misplaced (level_objects rs level im)) \<and>
    ((\<nexists>w. Log_Warning w \<in> set msgs) \<longrightarrow> well_typed sc)"
  using build_level_typed [OF assms] build_level_warns [OF assms] by (auto simp: list_ex_iff)

text \<open>A plan whose room has a laser, and one whose room has a guard among its objects.\<close>

definition res_object :: "string \<Rightarrow> resources" where
  "res_object cls = res0\<lparr>rs_xml := (\<lambda>n. if n = ''Levels/1/1x1.xml''
     then Some (Xml ''room'' [] [] [Xml ''object'' [(''interaction'', cls)] [] []]) else None)\<rparr>"

lemma room_xml_object: "room_xml (res_object cls) 0 0 0 = Some (Xml ''room'' [] [] [Xml ''object'' [(''interaction'', cls)] [] []])"
  by (simp add: room_xml_def res_object_def room_name_def show_int_def show_nat.simps num_simps)

lemma build_level_res_object: "\<exists>sc msgs. build_level engine32 (res_object cls) False 0 plan0 = Some (sc, msgs)"
proof -
  have "\<not> list_ex (bad_guards (res_object cls) 0) (floor_grid plan0)"
    by (simp add: floor_plan0 bad_guards_def room_xml_object children_named_def)
  then have "build_level engine32 (res_object cls) False 0 plan0 \<noteq> None"
    by (simp add: build_level_def Let_def load_rooms_None)
  then show ?thesis by auto
qed

theorem loaded_level_well_typed_witness:
  "\<exists>sc msgs sc' msgs'. build_level engine32 (res_object ''Laser'') False 0 plan0 = Some (sc, msgs) \<and> well_typed sc \<and>
     build_level engine32 (res_object ''Guard'') False 0 plan0 = Some (sc', msgs') \<and> \<not> well_typed sc' \<and> (\<exists>w. Log_Warning w \<in> set msgs')"
proof -
  obtain sc msgs where b: "build_level engine32 (res_object ''Laser'') False 0 plan0 = Some (sc, msgs)"
    using build_level_res_object by blast
  obtain sc' msgs' where b': "build_level engine32 (res_object ''Guard'') False 0 plan0 = Some (sc', msgs')"
    using build_level_res_object by blast
  have o: "level_objects (res_object cls) 0 plan0 = [Xml ''object'' [(''interaction'', cls)] [] []]" for cls
    by (simp add: level_objects_def floor_plan0 room_objects_def room_xml_object children_named_def)
  show ?thesis
    using loaded_level_well_typed [OF b] loaded_level_well_typed [OF b'] b b'
    by (auto simp: o misplaced_def has_attr_def get_attr_def not_for_objects_def)
qed

end
