(* ===== verification/Throwing.thy ===== *)
theory Throwing
  imports Guard Inventory Timer
begin

text \<open>
  Throwing an item to distract guards (\<open>src/Thrower.cpp\<close>) and the component that destroys it
  (\<open>src/SelfDestroy.cpp\<close>). The thrower takes items out of the \<open>item_store\<close> of the inventory;
  the time to live is a \<open>countdown\<close>.
\<close>

section \<open>Self-destruction\<close>

text \<open>\<open>sd_shown\<close>: whether the node's model is enabled. The constructor leaves \<open>lifeTime_\<close>
  uninitialised.\<close>

record self_destroy =
  sd_life :: real
  sd_decay :: real
  sd_shown :: bool

definition sd_new :: "self_destroy \<Rightarrow> self_destroy" where
  "sd_new s = s\<lparr>sd_decay := 3\<rparr>"

definition sd_set_life :: "real \<Rightarrow> self_destroy \<Rightarrow> self_destroy" where
  "sd_set_life t s = s\<lparr>sd_life := t\<rparr>"

definition sd_update :: "urho \<Rightarrow> real \<Rightarrow> node \<Rightarrow> vec3 \<Rightarrow> self_destroy \<Rightarrow> self_destroy \<times> effect list" where
  "sd_update E dt self pos s =
     (if sd_life s = 0 then (s, [])
      else (let s1 = (if sd_decay s \<le> 0
                      then s\<lparr>sd_shown := \<not> sd_shown s, sd_decay := fmul E (sd_life s) (flt E (1 / 10))\<rparr>
                      else s\<lparr>sd_decay := fsub E (sd_decay s) dt\<rparr>);
                s2 = s1\<lparr>sd_life := fsub E (sd_life s1) dt\<rparr>
            in (s2, if sd_life s2 \<le> 0
                    then [Create_Node [] pos, Play_Sound ''Audio/Explosion.wav'', Remove_Node self]
                    else [])))"

section \<open>Throwing\<close>

text \<open>What throwing does to the item's node beside its \<open>pickup\<close>.\<close>

record thrown =
  th_node :: node
  th_position :: vec3
  th_velocity :: vec3
  th_mass :: real
  th_restitution :: real
  th_destroy :: self_destroy
  th_trail_position :: vec3
  th_trail_scale :: vec3

text \<open>\<open>fresh\<close> is the memory of the new \<open>SelfDestroy\<close> and the state of the item's model;
  \<open>com\<close> and \<open>nodeScale\<close> are the body's centre of mass and the node's scale.\<close>

definition throw_item :: "urho \<Rightarrow> vec3 \<Rightarrow> vec3 \<Rightarrow> self_destroy \<Rightarrow> vec3 \<Rightarrow> vec3 \<Rightarrow> item \<Rightarrow> thrown" where
  "throw_item E pos dir fresh com nodeScale i =
     \<lparr>th_node = i_node i,
      th_position = vec_add E (vec_add E pos (vec_scale E dir (1 / 2))) (V3 0 (7 / 4) 0),
      th_velocity = vec_add E (vec_scale E dir 5) (V3 0 (7 / 4) 0),
      th_mass = 1,
      th_restitution = 1,
      th_destroy = sd_set_life 7 (sd_new fresh),
      th_trail_position = com,
      th_trail_scale = vec_div E (V3 5 5 5) nodeScale\<rparr>"

definition thrower_update ::
  "urho \<Rightarrow> bool option \<Rightarrow> bool \<Rightarrow> vec3 \<Rightarrow> vec3 \<Rightarrow> self_destroy \<Rightarrow> vec3 \<Rightarrow> vec3
     \<Rightarrow> inventory \<times> (node \<Rightarrow> pickup) \<Rightarrow> (inventory \<times> (node \<Rightarrow> pickup)) \<times> thrown option \<times> effect list" where
  "thrower_update E joyThrow keyT pos dir fresh com nodeScale st =
     (case st of (iv, pickups) \<Rightarrow>
        (let throwPressed = ((case joyThrow of None \<Rightarrow> False | Some b \<Rightarrow> b) \<or> keyT) in
         if \<not> throwPressed then (st, None, [])
         else (case get_item_of_type E ''Throwable'' True iv of
                 (None, iv1) \<Rightarrow> ((iv1, pickups), None, [])
               | (Some i, iv1) \<Rightarrow>
                   (let p = (pickups (i_node i))\<lparr>pk_enabled := True, pk_component_on := False, pk_trigger := False\<rparr>
                    in ((iv1, pickups(i_node i := p)), Some (throw_item E pos dir fresh com nodeScale i),
                        [Play_Sound ''Audio/HitHurt.wav''])))))"

definition distract_guards :: "urho \<Rightarrow> scene \<Rightarrow> node \<Rightarrow> (node \<times> guard) list \<Rightarrow> (node \<times> guard) list" where
  "distract_guards E sc item gs =
     (let itemPos = world_pos sc item in
      map (\<lambda>(n, g). if 16 < vec_len2 E (vec_sub E (world_pos sc n) itemPos) then (n, g)
                    else (n, guard_heard_sound itemPos g)) gs)"

definition thrown_collision ::
  "urho \<Rightarrow> scene \<Rightarrow> node \<Rightarrow> bool \<Rightarrow> (node \<times> guard) list \<Rightarrow> (node \<times> guard) list \<times> effect list" where
  "thrown_collision E sc item playing gs =
     (distract_guards E sc item gs, if playing then [] else [Play_Sound ''Audio/HitHurt.wav''])"

section \<open>Lemmas\<close>

definition sd_tick :: "urho \<Rightarrow> node \<Rightarrow> vec3 \<Rightarrow> real \<Rightarrow> self_destroy \<Rightarrow> self_destroy" where
  "sd_tick E self pos dt s = fst (sd_update E dt self pos s)"

lemma sd_countdown: "float_unit (flt E) \<Longrightarrow> countdown (flt E) sd_life (sd_tick E self pos)"
  by (intro countdown.intro countdown_axioms.intro) (auto simp: sd_tick_def sd_update_def Let_def)

interpretation fuse: countdown fl32 sd_life "sd_tick engine32 self pos" for self pos
  using sd_countdown [of engine32] binary32.float_unit_axioms by simp

lemma sd_effects:
  "sd_life s \<noteq> 0 \<Longrightarrow> snd (sd_update E dt self pos s) =
     (if sd_life (sd_tick E self pos dt s) \<le> 0
      then [Create_Node [] pos, Play_Sound ''Audio/Explosion.wav'', Remove_Node self] else [])"
  by (simp add: sd_update_def sd_tick_def Let_def)

text \<open>Presses of the throw button, whatever the position and direction are: the inventory
  and how many items were thrown.\<close>

fun throws :: "urho \<Rightarrow> (vec3 \<times> vec3) list \<Rightarrow> self_destroy \<Rightarrow> inventory \<times> (node \<Rightarrow> pickup) \<Rightarrow> (inventory \<times> (node \<Rightarrow> pickup)) \<times> nat" where
  "throws E [] fresh st = (st, 0)"
| "throws E ((pos, dir) # ps) fresh st =
     (case thrower_update E None True pos dir fresh vec_ZERO vec_ZERO st of (st1, t, _) \<Rightarrow>
        case throws E ps fresh st1 of (st2, n) \<Rightarrow> (st2, (if t = None then 0 else 1) + n))"

lemma thrower_update_take:
  "fst (fst (thrower_update E j True pos dir fresh com sc (iv, pk))) = snd (get_item_of_type E ''Throwable'' True iv)"
  "fst (snd (thrower_update E j True pos dir fresh com sc (iv, pk))) = None \<longleftrightarrow>
     fst (get_item_of_type E ''Throwable'' True iv) = None"
  by (auto simp: thrower_update_def Let_def split: option.split prod.split)

lemma take_others:
  assumes "inj_on i_node (set (inv_items s))"
  shows "filter (\<lambda>i. \<not> str_ieq E (i_type i) t) (inv_items (snd (get_item_of_type E t True s))) =
    filter (\<lambda>i. \<not> str_ieq E (i_type i) t) (inv_items s)"
proof (cases "fst (get_item_of_type E t False s)")
  case None
  then show ?thesis by (simp add: store.take_none)
next
  case (Some i)
  have "filter P (remove1 i xs) = filter P xs" if "\<not> P i" for P and xs :: "item list"
    using that by (induction xs) auto
  then show ?thesis using store.take_some [OF Some assms] store.look_sound [OF Some] by simp
qed

definition throwables :: "urho \<Rightarrow> inventory \<Rightarrow> nat" where
  "throwables E iv = length (filter (\<lambda>i. str_ieq E (i_type i) ''Throwable'') (inv_items iv))"

lemma throwables_matching: "throwables E iv = store.matching E ''Throwable'' iv"
  by (simp add: throwables_def store.matching_def)

section \<open>Properties\<close>

text \<open>A thrown item, and any node whose time to live is a binary fraction, explodes in
  exactly the frame the arithmetic predicts when frames are equally long binary fractions of a
  second: with \<open>a / 2^m\<close> seconds to live and frames of \<open>b / 2^m\<close> seconds, in the frame \<open>n\<close>
  with \<open>(n - 1) b < a \<le> n b\<close>, and in none before.\<close>

theorem self_destroy_schedule:
  assumes "float_unit (flt E)" "sd_life s = of_int a / 2 ^ m" "m \<le> 149" "a \<le> 2 ^ 24" "0 < b" "b \<le> 2 ^ 24"
    and "(int n - 1) * b < a" "a \<le> int n * b" "k < n"
  shows "snd (sd_update E (of_int b / 2 ^ m) self pos ((sd_tick E self pos (of_int b / 2 ^ m) ^^ k) s)) =
     (if Suc k = n then [Create_Node [] pos, Play_Sound ''Audio/Explosion.wav'', Remove_Node self] else [])"
proof -
  let ?t = "\<lambda>k. sd_life ((sd_tick E self pos (of_int b / 2 ^ m) ^^ k) s)"
  note c = countdown.runs_out [OF sd_countdown [OF assms(1), of self pos] assms(2-8)]
  have "0 < ?t k" by (rule c(2) [OF assms(9)])
  then have "snd (sd_update E (of_int b / 2 ^ m) self pos ((sd_tick E self pos (of_int b / 2 ^ m) ^^ k) s)) =
     (if ?t (Suc k) \<le> 0 then [Create_Node [] pos, Play_Sound ''Audio/Explosion.wav'', Remove_Node self] else [])"
    by (simp add: sd_effects)
  moreover have "?t (Suc k) \<le> 0 \<longleftrightarrow> Suc k = n"
    using c(1) c(2) [of "Suc k"] assms(9) by (cases "Suc k = n") (force simp: not_le)+
  ultimately show ?thesis by simp
qed

text \<open>At 64 frames per second a thrown item explodes in frame 448 after it was thrown.\<close>

theorem self_destroy_schedule_witness:
  "snd (sd_update engine32 (1 / 64) 5 vec_ZERO ((sd_tick engine32 5 vec_ZERO (1 / 64) ^^ 447)
      (sd_set_life 7 (sd_new \<lparr>sd_life = 0, sd_decay = 0, sd_shown = True\<rparr>)))) =
   [Create_Node [] vec_ZERO, Play_Sound ''Audio/Explosion.wav'', Remove_Node 5]"
  using self_destroy_schedule [of engine32 "sd_set_life 7 (sd_new \<lparr>sd_life = 0, sd_decay = 0, sd_shown = True\<rparr>)"
      448 6 1 448 447 5 vec_ZERO] binary32.float_unit_axioms
  by (simp add: sd_set_life_def)

text \<open>Every press of the throw button takes one throwable item out of the inventory while
  there is one: after any presses, as many items were thrown as there were presses or throwable
  items, whichever is less, that many fewer are left, and the other items are all kept in
  order.\<close>

theorem throws_use_up_items:
  assumes "inj_on i_node (set (inv_items iv))"
  shows "case throws E ps fresh (iv, pk) of ((iv', pk'), n) \<Rightarrow>
     n = min (length ps) (throwables E iv) \<and> throwables E iv' = throwables E iv - length ps \<and>
     filter (\<lambda>i. \<not> str_ieq E (i_type i) ''Throwable'') (inv_items iv') =
       filter (\<lambda>i. \<not> str_ieq E (i_type i) ''Throwable'') (inv_items iv)"
  unfolding throwables_matching using assms
proof (induction ps arbitrary: iv pk)
  case (Cons p ps)
  obtain pos dir where p: "p = (pos, dir)" by (cases p)
  let ?iv = "snd (get_item_of_type E ''Throwable'' True iv)"
  obtain pk1 t es where u: "thrower_update E None True pos dir fresh vec_ZERO vec_ZERO (iv, pk) = ((?iv, pk1), t, es)"
    "t = None \<longleftrightarrow> fst (get_item_of_type E ''Throwable'' True iv) = None"
    using thrower_update_take [of E None pos dir fresh vec_ZERO vec_ZERO iv pk]
    by (metis prod.collapse)
  have inj: "inj_on i_node (set (inv_items ?iv))" using store.take_inj Cons.prems by blast
  have m: "store.matching E ''Throwable'' iv = (if t = None then 0 else Suc (store.matching E ''Throwable'' ?iv))"
    using u(2) store.take_fst [where E = E and t = "''Throwable''" and s = iv] Cons.prems
    by (cases t) (use store.matching_0 [where E = E and t = "''Throwable''" and s = iv]
        store.matching_take [where E = E and t = "''Throwable''" and s = iv] in force)+
  have e: "t = None \<Longrightarrow> ?iv = iv"
    using u(2) store.take_fst [where E = E and t = "''Throwable''" and s = iv]
      store.take_none [where E = E and t = "''Throwable''" and s = iv] by simp
  show ?case
    using Cons.IH [OF inj, of pk1] take_others [OF Cons.prems, of E "''Throwable''"] m e
    by (cases "t = None") (auto simp: p u(1) split: prod.splits)
qed simp

definition fuse0 :: self_destroy where
  "fuse0 = \<lparr>sd_life = 0, sd_decay = 0, sd_shown = True\<rparr>"

definition can :: item where
  "can = \<lparr>i_node = 2, i_type = ''Throwable'', i_name = ''Can''\<rparr>"

definition pickup0 :: pickup where
  "pickup0 = \<lparr>pk_item = can, pk_height = 0, pk_rot = quat0, pk_pos = vec_ZERO, pk_enabled = False,
     pk_component_on = True, pk_trigger = True, pk_keys = []\<rparr>"

theorem throws_use_up_items_witness:
  "snd (throws engine32 [(vec_ZERO, vec_FORWARD), (vec_ZERO, vec_FORWARD)] fuse0
     ((inv_new False)\<lparr>inv_items := [can\<lparr>i_node := 1, i_type := ''Key''\<rparr>, can]\<rparr>, \<lambda>_. pickup0)) = 1"
proof -
  let ?iv = "(inv_new False)\<lparr>inv_items := [can\<lparr>i_node := 1, i_type := ''Key''\<rparr>, can]\<rparr>"
  have "inj_on i_node (set (inv_items ?iv))" by (simp add: inj_on_def can_def)
  from throws_use_up_items [OF this, where E = engine32 and fresh = fuse0 and pk = "\<lambda>_. pickup0"
      and ps = "[(vec_ZERO, vec_FORWARD), (vec_ZERO, vec_FORWARD)]"]
  show ?thesis by (simp add: throwables_def can_def case_prod_beta del: throws.simps)
qed

text \<open>C26. Where a thrown item lands, the guards no further than 4 m away hear it and the others
  are left alone: such a guard, in its next frame in motion, does not look for the player but
  takes the path to the point of the navigation mesh nearest to the sound.\<close>

theorem distracted_guards_investigate:
  assumes "(n, g) \<in> set gs"
  shows "\<exists>g'. (n, g') \<in> set (fst (thrown_collision E sc item playing gs)) \<and>
    (if 16 < vec_len2 E (vec_sub E (world_pos sc n) (world_pos sc item)) then g' = g
     else guard_sense E sc' n (g'\<lparr>g_velocity := v\<rparr>) =
       (if 0 < vec_len2 E v
        then (g\<lparr>g_velocity := v, g_soundPosition := world_pos sc item, g_willHearSound := False,
                g_wasFollowingPlayer := True,
                g_path := tl (find_path sc' (world_pos sc' n)
                  (find_nearest sc' ((world_pos sc item)\<lparr>vy := 0\<rparr>) (V3 1 (flt E (1 / 100)) 1)))\<rparr>, False)
        else (g'\<lparr>g_velocity := v\<rparr>, False)))"
proof -
  let ?g = "if 16 < vec_len2 E (vec_sub E (world_pos sc n) (world_pos sc item)) then g
    else guard_heard_sound (world_pos sc item) g"
  have "(n, ?g) \<in> set (fst (thrown_collision E sc item playing gs))"
    using assms by (force simp: thrown_collision_def distract_guards_def Let_def)
  then show ?thesis
    by (intro exI [of _ ?g])
      (simp add: guard_sense_def guard_investigate_def guard_heard_sound_def Let_def)
qed

theorem distracted_guards_investigate_witness:
  "\<exists>g'. (1, g') \<in> set (fst (thrown_collision engine32 scene0 5 False [(1, guard0)])) \<and>
    guard_sense engine32 scene0 1 (g'\<lparr>g_velocity := vec_FORWARD\<rparr>) =
      (guard0\<lparr>g_velocity := vec_FORWARD, g_soundPosition := V3 5 0 0, g_wasFollowingPlayer := True,
         g_path := [V3 5 0 0]\<rparr>, False)"
proof -
  have m: "(1, guard0) \<in> set [(1, guard0)]" by simp
  have "fl32 (- 4) = - 4" using binary32.rnd_int [of "- 4"] by simp
  then show ?thesis
    using distracted_guards_investigate [OF m, where E = engine32 and sc = scene0 and item = 5
      and playing = False and sc' = scene0 and v = vec_FORWARD]
    by (simp add: guard0_def)
qed

end
