(* ===== verification/Door.thy ===== *)
theory Door
  imports Person
begin

text \<open>
  Doors (\<open>src/Door.cpp\<close>): a door slides open when the person touches its trigger, sends the
  person through the doorway, and closes when the contact ends. \<open>d_pos\<close> is the door's position
  in the doorway; \<open>d_subs\<close> the nodes whose collision events it handles.
\<close>

record door =
  d_pos :: vec3
  d_trigger :: "node option"
  d_subs :: "node set"

definition DOOR_OFFSET :: "urho \<Rightarrow> real" where
  "DOOR_OFFSET E = flt E (- (1275 / 1000))"

definition door_new :: "door \<Rightarrow> door" where
  "door_new d = d\<lparr>d_trigger := None, d_subs := {}\<rparr>"

definition set_trigger_node :: "node option \<Rightarrow> door \<Rightarrow> door" where
  "set_trigger_node t d =
     (if d_trigger d = t then d
      else (let d1 = (case d_trigger d of None \<Rightarrow> d | Some n \<Rightarrow> d\<lparr>d_subs := d_subs d - {n}\<rparr>);
                d2 = d1\<lparr>d_trigger := t\<rparr>
            in case t of None \<Rightarrow> d2 | Some n \<Rightarrow> d2\<lparr>d_subs := insert n (d_subs d2)\<rparr>))"

text \<open>\<open>personLocal\<close> is the person node's position in its parent, \<open>doorway\<close> that of the
  door's parent.\<close>

definition door_path :: "urho \<Rightarrow> vec3 \<Rightarrow> vec3 \<Rightarrow> vec3 list" where
  "door_path E position doorPosition =
     (let roomPosition = V3 (fmul E (of_int (c_round (fdiv E (vx position) 11))) 11) (vy position)
                            (fmul E (of_int (c_round (fdiv E (vz position) 11))) 11);
          roomOffset = vec_sub E position roomPosition;
          doorHorizontal = (\<bar>vz roomOffset\<bar> < \<bar>vx roomOffset\<bar>);
          travelingUpRight = (0 < (if doorHorizontal then vx roomOffset else vz roomOffset))
      in if doorHorizontal
         then (if travelingUpRight
               then [vec_add E doorPosition (V3 (- 1) 0 0), vec_add E doorPosition (V3 (flt E (8 / 5)) 0 0)]
               else [vec_add E doorPosition (V3 1 0 0), vec_add E doorPosition (V3 (- flt E (8 / 5)) 0 0)])
         else (if travelingUpRight
               then [vec_add E doorPosition (V3 0 0 (- 1)), vec_add E doorPosition (V3 0 0 (flt E (8 / 5)))]
               else [vec_add E doorPosition (V3 0 0 1), vec_add E doorPosition (V3 0 0 (- flt E (8 / 5)))]))"

definition door_start ::
  "urho \<Rightarrow> scene \<Rightarrow> node \<Rightarrow> vec3 \<Rightarrow> vec3 \<Rightarrow> door \<Rightarrow> person \<Rightarrow> door \<times> person \<times> effect list" where
  "door_start E sc other personLocal doorway d p =
     (if other \<noteq> person_node sc then (d, p, [])
      else (d\<lparr>d_pos := V3 (DOOR_OFFSET E) 0 0\<rparr>, person_set_path (door_path E personLocal doorway) p,
            [Play_Sound ''Audio/DoorOpen.wav'']))"

definition door_end :: "scene \<Rightarrow> node \<Rightarrow> door \<Rightarrow> door \<times> effect list" where
  "door_end sc other d =
     (if other \<noteq> person_node sc then (d, [])
      else (d\<lparr>d_pos := vec_ZERO\<rparr>, [Play_Sound ''Audio/DoorClose.wav'']))"

section \<open>Events\<close>

text \<open>What reaches a door: its trigger node is set, or a node touches or leaves a node; the
  engine delivers only the events of the nodes the door is subscribed to.\<close>

datatype door_event = D_Set "node option" | D_Touch node node vec3 vec3 | D_Leave node node

fun door_step :: "urho \<Rightarrow> scene \<Rightarrow> door \<times> person \<Rightarrow> door_event \<Rightarrow> door \<times> person" where
  "door_step E sc (d, p) (D_Set t) = (set_trigger_node t d, p)"
| "door_step E sc (d, p) (D_Touch n other pl dw) =
     (if n \<in> d_subs d then (case door_start E sc other pl dw d p of (d', p', _) \<Rightarrow> (d', p')) else (d, p))"
| "door_step E sc (d, p) (D_Leave n other) =
     (if n \<in> d_subs d then (fst (door_end sc other d), p) else (d, p))"

definition door_inv :: "urho \<Rightarrow> door \<Rightarrow> bool" where
  "door_inv E d \<longleftrightarrow> d_subs d = set_option (d_trigger d) \<and> d_pos d \<in> {vec_ZERO, V3 (DOOR_OFFSET E) 0 0}"

lemma door_inv_step: "door_inv E d \<Longrightarrow> door_inv E (fst (door_step E sc (d, p) e))"
  by (cases e)
    (auto simp: door_inv_def set_trigger_node_def door_start_def door_end_def Let_def split: option.splits)

lemma door_inv_run: "door_inv E d \<Longrightarrow> door_inv E (fst (foldl (door_step E sc) (d, p) es))"
proof (induction es arbitrary: d p)
  case (Cons e es)
  then show ?case
    using door_inv_step [OF Cons.prems, of sc p e] by (cases "door_step E sc (d, p) e") simp
qed simp

section \<open>Properties\<close>


text \<open>A door sends the person straight through its doorway: of the two points of the path
  the first is exactly 1 m before the doorway as seen in the direction of travel and the second
  at least 1 m behind it, both on the doorway's axis. The doorways of a level are at multiples of
  half a metre, for which the \<open>float\<close> arithmetic is exact.\<close>

theorem door_path_crosses:
  assumes "vector_unit E" "\<bar>i\<bar> \<le> 2 ^ 20" "\<bar>k\<bar> \<le> 2 ^ 20"
  shows "\<exists>s\<in>{- 1, 1}. \<exists>b.
    door_path E position (V3 (of_int i / 2) 0 (of_int k / 2)) = [V3 (of_int i / 2 - s) 0 (of_int k / 2), V3 b 0 (of_int k / 2)]
      \<and> 1 \<le> s * (b - of_int i / 2) \<or>
    door_path E position (V3 (of_int i / 2) 0 (of_int k / 2)) = [V3 (of_int i / 2) 0 (of_int k / 2 - s), V3 (of_int i / 2) 0 b]
      \<and> 1 \<le> s * (b - of_int k / 2)"
proof -
  have u: "float_unit (flt E)" using assms(1) by (simp add: vector_unit_def)
  note add = vector_unit.add_V3 [OF assms(1)]
  have half: "flt E (of_int j / 2) = of_int j / 2" "flt E (of_int j / 2 + 1) = of_int j / 2 + 1"
    "flt E (of_int j / 2 - 1) = of_int j / 2 - 1" if "\<bar>j\<bar> \<le> 2 ^ 20" for j
  proof -
    have "flt E (of_int n / 2 ^ 1) = of_int n / 2 ^ 1" if "\<bar>n\<bar> \<le> 2 ^ 24" for n :: int
      by (rule float_unit.rnd_dyadic [OF u]) (use that in auto)
    from this [of j] this [of "j + 2"] this [of "j - 2"] that
    show "flt E (of_int j / 2) = of_int j / 2" "flt E (of_int j / 2 + 1) = of_int j / 2 + 1"
    "flt E (of_int j / 2 - 1) = of_int j / 2 - 1" by (auto simp: add_divide_distrib diff_divide_distrib)
  qed
  have one: "1 \<le> flt E (8 / 5)"
    using float_unit.float_le_rnd [OF u float_unit.rnd_1 [OF u], of "8/5"] by simp
  have far: "1 \<le> flt E (of_int j / 2 + flt E (8 / 5)) - of_int j / 2"
    "1 \<le> of_int j / 2 - flt E (of_int j / 2 - flt E (8 / 5))" if "\<bar>j\<bar> \<le> 2 ^ 20" for j
    using float_unit.rnd_mono [OF u, of "of_int j / 2 + 1" "of_int j / 2 + flt E (8 / 5)"]
      float_unit.rnd_mono [OF u, of "of_int j / 2 - flt E (8 / 5)" "of_int j / 2 - 1"] half [OF that] one
    by auto
  show ?thesis
    using far [OF assms(2)] far [OF assms(3)]
    by (simp add: door_path_def Let_def add half [OF assms(2)] half [OF assms(3)] float_unit.rnd_0 [OF u])
qed


theorem door_path_crosses_witness:
  "\<exists>s\<in>{- 1, 1}. \<exists>b.
    door_path engine32 (V3 5 0 0) (V3 (11 / 2) 0 0) = [V3 (11 / 2 - s) 0 0, V3 b 0 0] \<and> 1 \<le> s * (b - 11 / 2) \<or>
    door_path engine32 (V3 5 0 0) (V3 (11 / 2) 0 0) = [V3 (11 / 2) 0 (- s), V3 (11 / 2) 0 b] \<and> 1 \<le> s * b"
  using door_path_crosses [OF engine.vector_unit_axioms, of 11 0 "V3 5 0 0"] by simp

end
