(* ===== verification/Interactables.thy ===== *)
theory Interactables
  imports Inventory Timer
begin

text \<open>
  The small interactive objects of a level: terminals (\<open>src/Terminal.cpp\<close>), padlocks
  (\<open>src/Padlock.cpp\<close>), stairs (\<open>src/Stairs.cpp\<close>), tutorial posters
  (\<open>src/TutorialPoster.cpp\<close>) and the marker of a click (\<open>src/ClickMarker.cpp\<close>).
\<close>

section \<open>Panels\<close>

text \<open>A panel of the user interface that floats over an object: \<open>screen\<close> is the object's
  position on the screen in fractions of the screen, \<open>gw\<close> and \<open>gh\<close> the screen's size.\<close>

record panel =
  pn_w :: int
  pn_h :: int
  pn_x :: int
  pn_y :: int
  pn_text :: string
  pn_visible :: bool

definition panel_show :: "urho \<Rightarrow> real \<times> real \<Rightarrow> int \<Rightarrow> int \<Rightarrow> panel \<Rightarrow> panel" where
  "panel_show E screen gw gh pn =
     pn\<lparr>pn_x := c_round (fsub E (fmul E (fst screen) (flt E (of_int gw))) (fdiv E (flt E (of_int (pn_w pn))) 2)),
        pn_y := c_round (fsub E (fmul E (snd screen) (flt E (of_int gh))) (fdiv E (flt E (of_int (pn_h pn))) 2)),
        pn_visible := True\<rparr>"

definition panel_new :: "urho \<Rightarrow> real \<Rightarrow> int \<Rightarrow> int \<Rightarrow> string \<Rightarrow> panel" where
  "panel_new E pr w h t =
     \<lparr>pn_w = c_trunc (fmul E (flt E (of_int w)) pr), pn_h = c_trunc (fmul E (flt E (of_int h)) pr),
      pn_x = 0, pn_y = 0, pn_text = t, pn_visible = False\<rparr>"

section \<open>Terminals\<close>

record terminal =
  t_width :: int
  t_height :: int
  t_content :: string
  t_panel :: panel

definition terminal_new :: "terminal \<Rightarrow> terminal" where
  "terminal_new t = t\<lparr>t_width := 200, t_height := 100, t_content := ''Lemons.''\<rparr>"

definition terminal_load :: "urho \<Rightarrow> xml \<Rightarrow> terminal \<Rightarrow> terminal" where
  "terminal_load E x t =
     (let t1 = (if has_attr x ''displaysize''
                then (case parse_ivec2 E (get_attr x ''displaysize'') of
                        (w, h) \<Rightarrow> t\<lparr>t_width := w, t_height := h\<rparr>)
                else t)
      in if xml_value x \<noteq> [] then t1\<lparr>t_content := xml_value x\<rparr> else t1)"

definition terminal_start :: "urho \<Rightarrow> real \<Rightarrow> terminal \<Rightarrow> terminal" where
  "terminal_start E pr t = t\<lparr>t_panel := panel_new E pr (t_width t) (t_height t) (t_content t)\<rparr>"

definition terminal_can_interact :: "urho \<Rightarrow> scene \<Rightarrow> node \<Rightarrow> quat \<Rightarrow> bool" where
  "terminal_can_interact E sc self rot =
     (let difference = (vec_sub E (person_pos sc) (world_pos sc self))\<lparr>vy := 0\<rparr> in
      if 4 < vec_len2 E difference then False
      else (let forward = vec_neg E (node_dir E rot)
            in \<not> vec_dot E forward (vec_norm E difference) < u_cos E (fdiv E 90 2)))"

definition terminal_update ::
  "urho \<Rightarrow> scene \<Rightarrow> node \<Rightarrow> quat \<Rightarrow> real \<times> real \<Rightarrow> int \<Rightarrow> int \<Rightarrow> terminal \<Rightarrow> terminal" where
  "terminal_update E sc self rot screen gw gh t =
     (if \<not> terminal_can_interact E sc self rot then t\<lparr>t_panel := (t_panel t)\<lparr>pn_visible := False\<rparr>\<rparr>
      else t\<lparr>t_panel := panel_show E screen gw gh (t_panel t)\<rparr>)"

section \<open>Padlocks\<close>

text \<open>\<open>pl_panel\<close> is null before \<open>DelayedStart\<close> and after \<open>Stop\<close>.\<close>

record padlock =
  pl_width :: int
  pl_height :: int
  pl_panel :: "panel option"
  pl_content :: string
  pl_type :: string

definition PADLOCK_DISTANCE :: real where "PADLOCK_DISTANCE = 1"

definition padlock_new :: "padlock \<Rightarrow> padlock" where
  "padlock_new l = l\<lparr>pl_width := 200, pl_height := 100, pl_panel := None, pl_content := ''Lemons.''\<rparr>"

definition padlock_load :: "urho \<Rightarrow> xml \<Rightarrow> padlock \<Rightarrow> padlock" where
  "padlock_load E x l =
     (let l1 = (if has_attr x ''displaysize''
                then (case parse_ivec2 E (get_attr x ''displaysize'') of
                        (w, h) \<Rightarrow> l\<lparr>pl_width := w, pl_height := h\<rparr>)
                else l);
          l2 = (if xml_value x \<noteq> [] then l1\<lparr>pl_content := xml_value x\<rparr> else l1)
      in l2\<lparr>pl_type := (if has_attr x ''type'' then get_attr x ''type'' else pl_content l2)\<rparr>)"

definition padlock_start :: "urho \<Rightarrow> real \<Rightarrow> padlock \<Rightarrow> padlock" where
  "padlock_start E pr l = l\<lparr>pl_panel := Some (panel_new E pr (pl_width l) (pl_height l) (pl_content l))\<rparr>"

definition padlock_stop :: "padlock \<Rightarrow> padlock" where
  "padlock_stop l = (if pl_panel l \<noteq> None then l\<lparr>pl_panel := None\<rparr> else l)"

definition padlock_can_interact :: "urho \<Rightarrow> scene \<Rightarrow> node \<Rightarrow> bool" where
  "padlock_can_interact E sc self =
     (let difference = vec_sub E (person_pos sc) (world_pos sc self)
      in \<not> PADLOCK_DISTANCE * PADLOCK_DISTANCE < vec_len2 E difference)"

text \<open>\<open>panel_->SetVisible\<close> on a null panel is undefined. Removing the node calls \<open>Stop\<close>.\<close>

definition padlock_update ::
  "urho \<Rightarrow> scene \<Rightarrow> node \<Rightarrow> real \<times> real \<Rightarrow> int \<Rightarrow> int \<Rightarrow> inventory \<Rightarrow> padlock \<Rightarrow> (padlock \<times> effect list) option" where
  "padlock_update E sc self screen gw gh iv l =
     (case pl_panel l of
        None \<Rightarrow> None
      | Some pn \<Rightarrow>
          if \<not> padlock_can_interact E sc self
          then Some (l\<lparr>pl_panel := Some (pn\<lparr>pn_visible := False\<rparr>)\<rparr>, [])
          else (let pn1 = panel_show E screen gw gh pn in
                case get_item_of_type E (pl_type l) False iv of
                  (None, _) \<Rightarrow> Some (l\<lparr>pl_panel := Some pn1\<rparr>, [])
                | (Some _, _) \<Rightarrow>
                    Some (padlock_stop (l\<lparr>pl_panel := Some (pn1\<lparr>pn_visible := False\<rparr>)\<rparr>),
                          [Create_Node ''SoundEffect'' (world_pos sc self),
                           Play_Sound ''Audio/Unlock.ogg'', Remove_Node self])))"

section \<open>Stairs\<close>

record stair_light =
  sl_pos :: vec3
  sl_dir :: vec3
  sl_brightness :: real
  sl_range :: real
  sl_color :: color

text \<open>The first light, then four clones, each moved up from the one before it.\<close>

definition stairs_start :: "urho \<Rightarrow> stair_light list" where
  "stairs_start E =
     (let up = (\<lambda>l. l\<lparr>sl_pos := vec_add E (sl_pos l) (V3 0 3 0)\<rparr>);
          l0 = \<lparr>sl_pos = V3 0 6 0, sl_dir = vec_DOWN, sl_brightness = flt E (1 / 5), sl_range = 9, sl_color = WHITE\<rparr>;
          l1 = up l0; l2 = up l1; l3 = up l2; l4 = up l3
      in [l0, l1, l2, l3, l4])"

definition stairs_update :: "urho \<Rightarrow> scene \<Rightarrow> node \<Rightarrow> effect list" where
  "stairs_update E sc self =
     (let personOffset = vec_sub E (world_pos sc self) (person_pos sc) in
      if 5 * 5 < vec_len2 E personOffset then [] else [End_Level False False])"

section \<open>Tutorial posters\<close>

text \<open>A material is the name of its resource; \<open>loaded\<close> says which resources exist.\<close>

record tutorial_poster =
  tp_material :: "string option"
  tp_controller :: "string option"
  tp_model :: "string option"

definition tutorial_load :: "(string \<Rightarrow> bool) \<Rightarrow> xml \<Rightarrow> tutorial_poster \<Rightarrow> tutorial_poster" where
  "tutorial_load loaded x p =
     (let n = ''Materials/'' @ get_attr x ''controller_material'' @ ''.xml''
      in p\<lparr>tp_controller := (if loaded n then Some n else None)\<rparr>)"

definition tutorial_start :: "tutorial_poster \<Rightarrow> tutorial_poster" where
  "tutorial_start p =
     (let p1 = p\<lparr>tp_material := tp_model p\<rparr>
      in if tp_controller p1 = None then p1\<lparr>tp_controller := tp_material p1\<rparr> else p1)"

definition tutorial_update :: "int \<Rightarrow> tutorial_poster \<Rightarrow> tutorial_poster" where
  "tutorial_update joystick p =
     (if joystick = - 1 then p\<lparr>tp_model := tp_material p\<rparr> else p\<lparr>tp_model := tp_controller p\<rparr>)"

section \<open>Click markers\<close>

record click_marker =
  cm_rot :: quat
  cm_scale :: vec3
  cm_alpha :: real

text \<open>\<open>alpha\<close> is the fourth component of the colour in \<open>Materials/Marker.xml\<close>.\<close>

definition marker_start :: "urho \<Rightarrow> real \<Rightarrow> quat \<Rightarrow> click_marker" where
  "marker_start E alpha rot =
     \<lparr>cm_rot = rot, cm_scale = V3 (flt E (1 / 10)) (flt E (1 / 10)) (flt E (1 / 10)), cm_alpha = alpha\<rparr>"

definition marker_update :: "urho \<Rightarrow> real \<Rightarrow> node \<Rightarrow> click_marker \<Rightarrow> click_marker \<times> effect list" where
  "marker_update E dt self c =
     (let c1 = c\<lparr>cm_rot := n_rotate E (cm_rot c) (q_axis E (fmul E 360 dt) vec_UP),
                 cm_scale := vec_scale E (cm_scale c) (fadd E 1 (fmul E (5 / 2) dt)),
                 cm_alpha := fsub E (cm_alpha c) (fmul E (3 / 2) dt)\<rparr>
      in (c1, if cm_alpha c1 \<le> 0 then [Remove_Node self] else []))"

section \<open>Lemmas\<close>

lemma stairs_none: "stairs_update E sc self = [] \<longleftrightarrow> 25 < vec_len2 E (vec_sub E (world_pos sc self) (person_pos sc))"
  by (simp add: stairs_update_def Let_def)

text \<open>What the game does to the inventory after the level is loaded: pickups add items, the
  thrower takes out throwable ones, padlocks look items up, the panel is drawn.\<close>

datatype inv_use = U_Pickup item | U_Throw | U_Lookup string | U_Draw "bool option" bool

fun inv_used :: "urho \<Rightarrow> real \<Rightarrow> inventory \<Rightarrow> inv_use \<Rightarrow> inventory" where
  "inv_used E pr s (U_Pickup i) = add_item i s"
| "inv_used E pr s U_Throw = snd (get_item_of_type E ''Throwable'' True s)"
| "inv_used E pr s (U_Lookup t) = snd (get_item_of_type E t False s)"
| "inv_used E pr s (U_Draw j k) = inventory_update E pr j k s"

lemma inventory_update_items [frame_simps, simp]: "inv_items (inventory_update E pr j k s) = inv_items s"
  by (simp add: inventory_update_def Let_def)

lemma remove_ptr_keeps: "i \<in> set is \<Longrightarrow> i_node i \<noteq> n \<Longrightarrow> i \<in> set (remove_ptr n is)"
  by (induction "is") auto

lemma key_kept:
  assumes "inj_on i_node (set (inv_items s))" "k \<in> set (inv_items s)" "\<not> str_ieq E (i_type k) ''Throwable''"
  shows "k \<in> set (inv_items (inv_used E pr s u))"
proof (cases u)
  case U_Throw
  show ?thesis
  proof (cases "find (\<lambda>i. str_ieq E (i_type i) ''Throwable'') (inv_items s)")
    case (Some i)
    then have i: "i \<in> set (inv_items s)" "str_ieq E (i_type i) ''Throwable''" by (auto simp: find_Some_iff)
    then have "i_node k \<noteq> i_node i" using assms inj_onD by metis
    then show ?thesis using U_Throw Some assms(2) by (simp add: get_item_of_type_def remove_ptr_keeps)
  qed (use U_Throw assms(2) in \<open>simp add: get_item_of_type_def\<close>)
qed (use assms(2) in \<open>auto simp: add_item_def v_push_def\<close>)

fun new_items :: "inv_use list \<Rightarrow> item list" where
  "new_items [] = []"
| "new_items (U_Pickup i # us) = i # new_items us"
| "new_items (_ # us) = new_items us"

lemma set_remove_ptr: "set (remove_ptr n is) \<subseteq> set is"
  by (induction "is") auto

lemma inv_used_items: "set (inv_items (inv_used E pr s u)) \<subseteq> set (inv_items s) \<union> set (new_items [u])"
  using set_remove_ptr
  by (cases u) (auto simp: add_item_def v_push_def get_item_of_type_def Let_def split: option.splits)

lemma new_items_Cons: "set (new_items (u # us)) = set (new_items [u]) \<union> set (new_items us)"
  by (cases u) auto

lemma key_kept_run:
  "inj_on i_node (set (inv_items s) \<union> set (new_items us)) \<Longrightarrow> k \<in> set (inv_items s) \<Longrightarrow>
   \<not> str_ieq E (i_type k) ''Throwable'' \<Longrightarrow> k \<in> set (inv_items (foldl (inv_used E pr) s us))"
proof (induction us arbitrary: s)
  case (Cons u us)
  have "inj_on i_node (set (inv_items (inv_used E pr s u)) \<union> set (new_items us))"
    by (rule inj_on_subset [OF Cons.prems(1)]) (use inv_used_items [of E pr s u] new_items_Cons [of u us] in auto)
  moreover have "k \<in> set (inv_items (inv_used E pr s u))"
    by (rule key_kept) (use Cons.prems in \<open>auto intro: inj_on_subset\<close>)
  ultimately show ?case using Cons.IH Cons.prems(3) by simp
qed simp

section \<open>Properties\<close>

text \<open>A padlock opens, and removes itself with its panel, exactly when the player is within
  reach and carries an item of the padlock's type; otherwise it stays, with its panel shown
  exactly while the player is within reach. The frame is undefined only without a panel.\<close>

theorem padlock_opens_iff:
  "case padlock_update E sc self screen gw gh iv l of
     None \<Rightarrow> pl_panel l = None
   | Some (l', es) \<Rightarrow> pl_panel l \<noteq> None \<and>
       (if vec_len2 E (vec_sub E (person_pos sc) (world_pos sc self)) \<le> 1 \<and>
           (\<exists>i. i \<in> set (inv_items iv) \<and> str_ieq E (i_type i) (pl_type l))
        then Remove_Node self \<in> set es \<and> pl_panel l' = None
        else es = [] \<and> map_option pn_visible (pl_panel l') =
               Some (vec_len2 E (vec_sub E (person_pos sc) (world_pos sc self)) \<le> 1))"
proof (cases "pl_panel l")
  case (Some pn)
  obtain r iv' where g: "get_item_of_type E (pl_type l) False iv = (r, iv')"
    by (cases "get_item_of_type E (pl_type l) False iv")
  have "r = None \<longleftrightarrow> \<not> (\<exists>i. i \<in> set (inv_items iv) \<and> str_ieq E (i_type i) (pl_type l))"
    using store.look_None [where E = E and t = "pl_type l" and s = iv] g by auto
  then show ?thesis using Some g
    by (cases r) (auto simp: padlock_update_def padlock_can_interact_def padlock_stop_def
        panel_show_def PADLOCK_DISTANCE_def Let_def)
qed (simp add: padlock_update_def)

text \<open>A key is never used up: once the player carries an item that opens a padlock and
  cannot be thrown, then after any number of pickups, throws, lookups and drawn panels the
  padlock opens in the first frame in which the player is within reach.\<close>

theorem key_opens_padlock:
  assumes "inj_on i_node (set (inv_items iv) \<union> set (new_items us))" "k \<in> set (inv_items iv)"
    and "str_ieq E (i_type k) (pl_type l)" "\<not> str_ieq E (i_type k) ''Throwable''"
    and "pl_panel l \<noteq> None" "vec_len2 E (vec_sub E (person_pos sc) (world_pos sc self)) \<le> 1"
  shows "\<exists>l' es. padlock_update E sc self screen gw gh (foldl (inv_used E pr) iv us) l = Some (l', es) \<and>
    Remove_Node self \<in> set es \<and> pl_panel l' = None"
proof -
  have "k \<in> set (inv_items (foldl (inv_used E pr) iv us))" using key_kept_run assms by blast
  then have "fst (get_item_of_type E (pl_type l) False (foldl (inv_used E pr) iv us)) \<noteq> None"
    using store.look_None [where E = E and t = "pl_type l" and s = "foldl (inv_used E pr) iv us"] assms(3) by auto
  then obtain i where "get_item_of_type E (pl_type l) False (foldl (inv_used E pr) iv us) =
      (Some i, foldl (inv_used E pr) iv us)"
    by (metis get_item_keep prod.collapse option.exhaust)
  then show ?thesis using assms(5,6)
    by (auto simp: padlock_update_def padlock_can_interact_def padlock_stop_def PADLOCK_DISTANCE_def Let_def)
qed

text \<open>Values for the witnesses.\<close>

definition padlock0 :: padlock where
  "padlock0 = padlock_start engine32 1 (padlock_load engine32 (Xml ''padlock'' [(''type'', ''Key'')] [] [])
     (padlock_new \<lparr>pl_width = 0, pl_height = 0, pl_panel = None, pl_content = [], pl_type = []\<rparr>))"

definition key0 :: item where
  "key0 = \<lparr>i_node = 11, i_type = ''Key'', i_name = ''Key''\<rparr>"

theorem key_opens_padlock_witness:
  "\<exists>l' es. padlock_update engine32 scene0 0 (0, 0) 800 600
      (foldl (inv_used engine32 1) (add_item key0 (inv_new False)) [U_Throw, U_Pickup (key0\<lparr>i_node := 12\<rparr>), U_Lookup ''Key'']) padlock0 =
     Some (l', es) \<and> Remove_Node 0 \<in> set es \<and> pl_panel l' = None"
proof -
  let ?us = "[U_Throw, U_Pickup (key0\<lparr>i_node := 12\<rparr>), U_Lookup ''Key'']"
  let ?iv = "add_item key0 (inv_new False)"
  have a: "inj_on i_node (set (inv_items ?iv) \<union> set (new_items ?us))"
    by (auto simp: add_item_def v_push_def inv_new_def key0_def)
  have b: "key0 \<in> set (inv_items ?iv)" by (simp add: add_item_def v_push_def)
  have c: "str_ieq engine32 (i_type key0) (pl_type padlock0)" "\<not> str_ieq engine32 (i_type key0) ''Throwable''"
    by (simp_all add: key0_def padlock0_def padlock_start_def padlock_load_def padlock_new_def
        has_attr_def get_attr_def Let_def)
  have d: "pl_panel padlock0 \<noteq> None" by (simp add: padlock0_def padlock_start_def)
  have e: "vec_len2 engine32 (vec_sub engine32 (person_pos scene0) (world_pos scene0 0)) \<le> 1" by simp
  show ?thesis by (rule key_opens_padlock [OF a b c d e])
qed

end
