(* ===== verification/Lasers.thy ===== *)
theory Lasers
  imports Guard Timer
begin

text \<open>
  Alarms: laser beams (\<open>src/Laser.cpp\<close>) and security cameras (\<open>src/SecurityCamera.cpp\<close>), which
  send the guards of their room to the player. The locale \<open>beam\<close> is the timing that lasers and
  the lasers of the boss room share.
\<close>

section \<open>Beams\<close>

text \<open>The last multiple of a step that does not exceed a bound.\<close>

lemma last_multiple:
  assumes "0 < a" "0 < b" "int k * b \<le> a"
  shows "a < int (Suc k) * b \<longleftrightarrow> k = nat (a div b)"
proof
  assume "a < int (Suc k) * b"
  moreover have "(a div b) * b \<le> a" using pos_mod_sign [OF assms(2), of a] by (simp flip: minus_mod_eq_div_mult)
  ultimately have "(a div b) * b < int (Suc k) * b" by linarith
  then have "a div b < int (Suc k)" using assms(2) by (simp only: mult_less_cancel_right)
  moreover have "k \<le> nat (a div b)" using zdiv_mono1 [OF assms(3,2)] assms(2) by simp
  ultimately show "k = nat (a div b)" by linarith
next
  assume "k = nat (a div b)"
  then have "int k = a div b" using assms(1,2) by (simp add: pos_imp_zdiv_nonneg_iff)
  then have "int (Suc k) * b = a - a mod b + b" by (simp add: algebra_simps minus_mod_eq_mult_div)
  then show "a < int (Suc k) * b" using pos_mod_bound [OF assms(2), of a] by linarith
qed

text \<open>After a delay the beam is switched every time the interval has been exceeded.\<close>

locale beam = float_unit rnd
  for rnd :: "real \<Rightarrow> real" +
  fixes delay :: "'s \<Rightarrow> real"
    and elapsed :: "'s \<Rightarrow> real"
    and interval :: "'s \<Rightarrow> real"
    and on :: "'s \<Rightarrow> bool"
    and upd :: "real \<Rightarrow> 's \<Rightarrow> 's"
  assumes upd_delay: "0 < delay s \<Longrightarrow> delay (upd dt s) = rnd (delay s - dt) \<and>
      elapsed (upd dt s) = elapsed s \<and> interval (upd dt s) = interval s \<and> on (upd dt s) = on s"
    and upd_run: "\<not> 0 < delay s \<Longrightarrow> 0 < interval s \<Longrightarrow>
      delay (upd dt s) = delay s \<and> interval (upd dt s) = interval s \<and>
      elapsed (upd dt s) = (if interval s < rnd (elapsed s + dt) then 0 else rnd (elapsed s + dt)) \<and>
      on (upd dt s) = (if interval s < rnd (elapsed s + dt) then \<not> on s else on s)"

sublocale beam \<subseteq> fuse: countdown rnd delay upd
  by unfold_locales (simp add: upd_delay)

context beam
begin

text \<open>On a grid of binary fractions: the interval is \<open>a / 2^m\<close>, a frame takes \<open>b / 2^m\<close>.\<close>

definition running :: "int \<Rightarrow> int \<Rightarrow> nat \<Rightarrow> 's \<Rightarrow> bool" where
  "running a b m s \<longleftrightarrow> delay s \<le> 0 \<and> interval s = of_int a / 2 ^ m \<and>
     (\<exists>k. int k * b \<le> a \<and> elapsed s = of_int (int k * b) / 2 ^ m)"

definition phase :: "int \<Rightarrow> nat \<Rightarrow> 's \<Rightarrow> nat" where
  "phase b m s = nat \<lfloor>elapsed s * 2 ^ m / of_int b\<rfloor>"

lemma phase_eq: "elapsed s = of_int (int k * b) / 2 ^ m \<Longrightarrow> 0 < b \<Longrightarrow> phase b m s = k"
  by (simp add: phase_def)

lemma running_step:
  assumes "running a b m s" "0 < a" "0 < b" "a + b \<le> 2 ^ 24" "m \<le> 149"
  shows "running a b m (upd (of_int b / 2 ^ m) s) \<and>
    phase b m s < Suc (nat (a div b)) \<and>
    phase b m (upd (of_int b / 2 ^ m) s) = Suc (phase b m s) mod Suc (nat (a div b)) \<and>
    on (upd (of_int b / 2 ^ m) s) = (if Suc (phase b m s) = Suc (nat (a div b)) then \<not> on s else on s)"
proof -
  obtain k where k: "int k * b \<le> a" "elapsed s = of_int (int k * b) / 2 ^ m"
    and s: "\<not> 0 < delay s" "interval s = of_int a / 2 ^ m"
    using assms(1) by (auto simp: running_def)
  have "\<bar>int (Suc k) * b\<bar> \<le> 2 ^ 24" using k(1) assms(3,4) by (simp add: algebra_simps)
  then have "rnd (of_int (int (Suc k) * b) / 2 ^ m) = of_int (int (Suc k) * b) / 2 ^ m"
    using rnd_dyadic assms(5) by blast
  moreover have "elapsed s + of_int b / 2 ^ m = of_int (int (Suc k) * b) / 2 ^ m"
    by (simp add: k(2) add_divide_distrib algebra_simps)
  ultimately have r: "rnd (elapsed s + of_int b / 2 ^ m) = of_int (int (Suc k) * b) / 2 ^ m" by simp
  have kb: "k \<le> nat (a div b)" using zdiv_mono1 [OF k(1) assms(3)] assms(3) by simp
  note lt = last_multiple [OF assms(2,3) k(1)]
  have pos: "0 < interval s" using s(2) assms(2) by simp
  note u = upd_run [OF s(1) pos, of "of_int b / 2 ^ m"]
  have ilt: "interval s < rnd (elapsed s + of_int b / 2 ^ m) \<longleftrightarrow> k = nat (a div b)"
    unfolding r s(2) lt [symmetric] by (simp only: divide_less_cancel of_int_less_iff) simp
  have ph: "phase b m s = k" using phase_eq [OF k(2) assms(3)] .
  show ?thesis
  proof (cases "k = nat (a div b)")
    case True
    then have e: "elapsed (upd (of_int b / 2 ^ m) s) = of_int (int 0 * b) / 2 ^ m" "on (upd (of_int b / 2 ^ m) s) = (\<not> on s)"
      using u ilt by auto
    have "running a b m (upd (of_int b / 2 ^ m) s)"
      unfolding running_def using u s e(1) assms(2) by (intro conjI exI [of _ 0]) auto
    then show ?thesis using True ph phase_eq [OF e(1) assms(3)] e(2) by simp
  next
    case False
    then have e: "elapsed (upd (of_int b / 2 ^ m) s) = of_int (int (Suc k) * b) / 2 ^ m" "on (upd (of_int b / 2 ^ m) s) = on s"
      using u ilt r by auto
    have "running a b m (upd (of_int b / 2 ^ m) s)"
      unfolding running_def using u s e(1) lt False by (intro conjI exI [of _ "Suc k"]) auto
    then show ?thesis using False kb ph phase_eq [OF e(1) assms(3)] e(2) by simp
  qed
qed

lemma beam_periodic:
  assumes "0 < a" "0 < b" "a + b \<le> 2 ^ 24" "m \<le> 149"
  shows "periodic (running a b m) (upd (of_int b / 2 ^ m)) (phase b m) on Not (Suc (nat (a div b)))"
  using running_step [OF _ assms] by unfold_locales auto

lemma delayed:
  assumes "delay s = of_int d / 2 ^ m" "m \<le> 149" "d \<le> 2 ^ 24" "0 < b" "b \<le> 2 ^ 24"
    "(int n - 1) * b < d" "d \<le> int n * b" "k \<le> n"
  shows "elapsed ((upd (of_int b / 2 ^ m) ^^ k) s) = elapsed s \<and>
    interval ((upd (of_int b / 2 ^ m) ^^ k) s) = interval s \<and> on ((upd (of_int b / 2 ^ m) ^^ k) s) = on s"
  using assms(8)
proof (induction k)
  case (Suc k)
  then have "0 < delay ((upd (of_int b / 2 ^ m) ^^ k) s)"
    using fuse.runs_out(2) [OF assms(1-7), of k] by simp
  then show ?case using Suc upd_delay by simp
qed simp

text \<open>The whole schedule: nothing while the delay runs, then a switch every \<open>a div b + 1\<close>
  frames.\<close>

lemma beam_schedule:
  assumes "delay s = of_int d / 2 ^ m" "interval s = of_int a / 2 ^ m" "elapsed s = 0"
    and "d \<le> 2 ^ 24" "0 < a" "0 < b" "a + b \<le> 2 ^ 24" "m \<le> 149"
    and "(int n0 - 1) * b < d" "d \<le> int n0 * b"
  shows "on ((upd (of_int b / 2 ^ m) ^^ (n + n0)) s) = (on s \<noteq> odd (n div Suc (nat (a div b))))"
proof -
  have b: "b \<le> 2 ^ 24" using assms(5,7) by simp
  let ?s = "(upd (of_int b / 2 ^ m) ^^ n0) s"
  have e: "elapsed ?s = 0" "interval ?s = of_int a / 2 ^ m" "on ?s = on s"
    using delayed [OF assms(1,8,4,6) b assms(9,10), of n0] assms(2,3) by auto
  have "delay ?s \<le> 0" using fuse.runs_out(1) [OF assms(1,8,4,6) b assms(9,10)] .
  then have r: "running a b m ?s" unfolding running_def using e assms(5) by (intro conjI exI [of _ 0]) auto
  have "phase b m ?s = 0" by (simp add: phase_def e(1))
  then have "on ((upd (of_int b / 2 ^ m) ^^ n) ?s) = (Not ^^ (n div Suc (nat (a div b)))) (on ?s)"
    using periodic.schedule [OF beam_periodic [OF assms(5-8)] r, of n] by simp
  moreover have "(Not ^^ k) x = (x \<noteq> odd k)" for k x by (induction k) auto
  ultimately show ?thesis by (simp add: funpow_add e(3))
qed

end

section \<open>Lasers\<close>

text \<open>\<open>l_on\<close>: whether the laser's model is enabled.\<close>

record laser =
  l_pulse :: bool
  l_lightTime :: real
  l_time :: real
  l_interval :: real
  l_delay :: real
  l_on :: bool
  l_trigger :: bool

text \<open>A light of the room.\<close>

record room_light =
  rl_point :: bool
  rl_color :: color
  rl_brightness :: real

definition laser_new :: "laser \<Rightarrow> laser" where
  "laser_new l = l\<lparr>l_pulse := False, l_lightTime := 0, l_time := 0, l_interval := 0, l_delay := 0\<rparr>"

definition laser_load :: "urho \<Rightarrow> xml \<Rightarrow> laser \<Rightarrow> laser" where
  "laser_load E x l = l\<lparr>l_interval := parse_float E (get_attr x ''interval''),
     l_delay := parse_float E (get_attr x ''delay'')\<rparr>"

definition laser_start :: "laser \<Rightarrow> laser" where
  "laser_start l = l\<lparr>l_on := False, l_trigger := True\<rparr>"

text \<open>The beam of a frame, then the alarm light of the room.\<close>

definition laser_switch :: "urho \<Rightarrow> real \<Rightarrow> laser \<Rightarrow> laser" where
  "laser_switch E dt l =
     (if 0 < l_interval l
      then (let l1 = l\<lparr>l_time := fadd E (l_time l) dt\<rparr>
            in if l_interval l1 < l_time l1 then l1\<lparr>l_on := \<not> l_on l1, l_time := 0\<rparr> else l1)
      else l)"

definition laser_light :: "urho \<Rightarrow> laser \<Rightarrow> room_light \<Rightarrow> room_light" where
  "laser_light E l rl =
     (if \<not> rl_point rl then rl
      else if l_pulse l
      then rl\<lparr>rl_color := RED, rl_brightness := fmul E \<bar>u_sin E (fmul E (l_lightTime l) 360)\<bar> (flt E (2 / 5))\<rparr>
      else rl\<lparr>rl_color := WHITE, rl_brightness := flt E (1 / 5)\<rparr>)"

definition laser_update ::
  "urho \<Rightarrow> real \<Rightarrow> laser \<Rightarrow> room_light list \<Rightarrow> laser \<times> room_light list \<times> effect list" where
  "laser_update E dt l lights =
     (if 0 < l_delay l then (l\<lparr>l_delay := fsub E (l_delay l) dt\<rparr>, lights, [])
      else (let l1 = laser_switch E dt l in
            if \<not> l_pulse l1 then (l1, lights, [Stop_Sound])
            else (let l2 = l1\<lparr>l_lightTime := fadd E (l_lightTime l1) (fmul E dt (1 / 2))\<rparr>;
                      l3 = (if 5 < l_lightTime l2 then l2\<lparr>l_pulse := False, l_lightTime := 0\<rparr> else l2)
                  in (l3, map (laser_light E l3) lights, []))))"

definition laser_alarm :: "bool \<Rightarrow> effect list" where
  "laser_alarm playing = (if \<not> playing then [Play_Sound ''Audio/Alarm.ogg''] else [])"

definition laser_collision ::
  "scene \<Rightarrow> node \<Rightarrow> bool \<Rightarrow> laser \<Rightarrow> (node \<times> guard) list \<Rightarrow> laser \<times> (node \<times> guard) list \<times> effect list" where
  "laser_collision sc other playing l gs =
     (if \<not> l_on l then (l, gs, [])
      else if other \<noteq> person_node sc then (l, gs, [])
      else (l\<lparr>l_pulse := True\<rparr>, send_guards sc gs, laser_alarm playing))"

section \<open>Security cameras\<close>

record security_camera =
  s_back :: bool
  s_start :: quat
  s_pitch :: real
  s_yaw :: real
  s_rot :: quat
  s_color :: color

definition sec_new :: "security_camera \<Rightarrow> security_camera" where
  "sec_new c = c\<lparr>s_back := False, s_pitch := - 55, s_yaw := 0\<rparr>"

definition sec_start :: "security_camera \<Rightarrow> security_camera" where
  "sec_start c = c\<lparr>s_start := s_rot c, s_color := WHITE\<rparr>"

definition sec_sweep :: "urho \<Rightarrow> real \<Rightarrow> security_camera \<Rightarrow> security_camera" where
  "sec_sweep E dt c =
     (let c1 = c\<lparr>s_yaw := fadd E (s_yaw c) (fmul E ((if s_back c then - 1 else 1) * 10) dt)\<rparr>
      in if 45 \<le> \<bar>s_yaw c1\<bar> then c1\<lparr>s_back := \<not> s_back c1\<rparr> else c1)"

definition sec_search ::
  "urho \<Rightarrow> scene \<Rightarrow> node \<Rightarrow> security_camera \<Rightarrow> (node \<times> guard) list \<Rightarrow> security_camera \<times> (node \<times> guard) list \<times> bool" where
  "sec_search E sc self c gs =
     (let cameraPosition = world_pos sc self;
          cameraDirection = node_dir E (s_rot c);
          difference = vec_norm E (vec_sub E (person_pos sc) cameraPosition)
      in if vec_dot E cameraDirection difference < u_cos E (fdiv E 30 2)
         then (c\<lparr>s_color := WHITE\<rparr>, gs, False)
         else (let origin = vec_add E cameraPosition (vec_scale E cameraDirection (1 / 2));
                   direction = vec_add E difference (V3 0 (flt E (1 / 100)) 0);
                   blocked = (case raycast sc origin direction 10 of
                                None \<Rightarrow> False | Some body \<Rightarrow> body \<noteq> person_node sc)
               in if blocked then (c\<lparr>s_color := WHITE\<rparr>, gs, False)
                  else (c\<lparr>s_color := RED\<rparr>, send_guards sc gs, True)))"

definition sec_update ::
  "urho \<Rightarrow> scene \<Rightarrow> real \<Rightarrow> node \<Rightarrow> security_camera \<Rightarrow> (node \<times> guard) list \<Rightarrow> security_camera \<times> (node \<times> guard) list" where
  "sec_update E sc dt self c gs =
     (let c1 = sec_sweep E dt c;
          c2 = c1\<lparr>s_rot := n_rotate E (n_rotate E (s_start c1) (q_axis E (s_yaw c1) vec_UP))
                                (q_axis E (s_pitch c1) vec_LEFT)\<rparr>
      in case sec_search E sc self c2 gs of (c3, gs1, _) \<Rightarrow> (c3, gs1))"

section \<open>Lemmas\<close>

definition laser_tick :: "urho \<Rightarrow> real \<Rightarrow> laser \<Rightarrow> laser" where
  "laser_tick E dt l = fst (laser_update E dt l [])"

lemma laser_beam: "float_unit (flt E) \<Longrightarrow> beam (flt E) l_delay l_time l_interval l_on (laser_tick E)"
  by (intro beam.intro beam_axioms.intro)
    (auto simp: laser_tick_def laser_update_def laser_switch_def Let_def)

interpretation laser: beam fl32 l_delay l_time l_interval l_on "laser_tick engine32"
  using laser_beam [of engine32] binary32.float_unit_axioms by simp

interpretation laser_second: periodic "laser.running 64 1 6" "laser_tick engine32 (of_int 1 / 2 ^ 6)"
  "laser.phase 1 6" l_on Not "Suc (nat (64 div 1))"
  by (rule laser.beam_periodic) simp_all

lemma sec_search_cases:
  "sec_search E sc self c gs = (c', gs', b) \<Longrightarrow>
     gs' = (if b then send_guards sc gs else gs) \<and> s_color c' = (if b then RED else WHITE) \<and>
     s_yaw c' = s_yaw c \<and> s_back c' = s_back c"
  by (auto simp: sec_search_def Let_def split: if_splits)

lemma sec_update_sweep:
  "s_yaw (fst (sec_update E sc dt self c gs)) = s_yaw (sec_sweep E dt c)"
  "s_back (fst (sec_update E sc dt self c gs)) = s_back (sec_sweep E dt c)"
  using sec_search_cases by (auto simp: sec_update_def Let_def split: prod.split)

lemma sec_sweep_grid:
  assumes "float_unit (flt E)" "s_yaw c = of_int y / 2 ^ m" "\<bar>y\<bar> + 10 * b \<le> 2 ^ 24" "0 < b" "m \<le> 149"
  shows "s_yaw (sec_sweep E (of_int b / 2 ^ m) c) = of_int (if s_back c then y - 10 * b else y + 10 * b) / 2 ^ m"
    and "s_back (sec_sweep E (of_int b / 2 ^ m) c) =
      (s_back c \<noteq> (45 * 2 ^ m \<le> \<bar>if s_back c then y - 10 * b else y + 10 * b\<bar>))"
proof -
  let ?d = "if s_back c then - 10 * b else 10 * b"
  note rd = float_unit.rnd_dyadic [OF assms(1) _ assms(5)]
  have "\<bar>?d\<bar> \<le> 2 ^ 24" "\<bar>y + ?d\<bar> \<le> 2 ^ 24" using assms(3,4) by auto
  note rd [OF this(1)] rd [OF this(2)]
  then have y: "s_yaw (sec_sweep E (of_int b / 2 ^ m) c) = of_int (y + ?d) / 2 ^ m"
    by (cases "s_back c") (auto simp: sec_sweep_def Let_def assms(2) diff_divide_distrib add_divide_distrib)
  then show "s_yaw (sec_sweep E (of_int b / 2 ^ m) c) = of_int (if s_back c then y - 10 * b else y + 10 * b) / 2 ^ m"
    by auto
  have "s_back (sec_sweep E (of_int b / 2 ^ m) c) = (s_back c \<noteq> (45 \<le> \<bar>s_yaw (sec_sweep E (of_int b / 2 ^ m) c)\<bar>))"
    by (auto simp: sec_sweep_def Let_def)
  also have "45 \<le> \<bar>s_yaw (sec_sweep E (of_int b / 2 ^ m) c)\<bar> \<longleftrightarrow> 45 * 2 ^ m \<le> \<bar>of_int (y + ?d) :: real\<bar>"
    unfolding y by (simp add: le_divide_eq)
  also have "\<dots> \<longleftrightarrow> 45 * 2 ^ m \<le> \<bar>y + ?d\<bar>"
    using of_int_le_iff [of "45 * 2 ^ m" "\<bar>y + ?d\<bar>", where 'a = real]
    by (simp only: of_int_abs of_int_mult of_int_numeral of_int_power)
  finally show "s_back (sec_sweep E (of_int b / 2 ^ m) c) =
      (s_back c \<noteq> (45 * 2 ^ m \<le> \<bar>if s_back c then y - 10 * b else y + 10 * b\<bar>))"
    by auto
qed

text \<open>Frames of a camera's motion, and of a laser with the lights of its room.\<close>

definition sec_sweeps :: "urho \<Rightarrow> real list \<Rightarrow> security_camera \<Rightarrow> security_camera" where
  "sec_sweeps E dts c = foldl (\<lambda>c dt. sec_sweep E dt c) c dts"

definition laser_frame :: "urho \<Rightarrow> real \<Rightarrow> laser \<times> room_light list \<Rightarrow> laser \<times> room_light list" where
  "laser_frame E dt s = (case s of (l, rls) \<Rightarrow> case laser_update E dt l rls of (l', rls', _) \<Rightarrow> (l', rls'))"

lemma sec_sweeps_simps [simp]:
  "sec_sweeps E [] c = c" "sec_sweeps E (dt # dts) c = sec_sweeps E dts (sec_sweep E dt c)"
  "sec_sweeps E (xs @ ys) c = sec_sweeps E ys (sec_sweeps E xs c)"
  by (simp_all add: sec_sweeps_def)

text \<open>A camera under way at angle \<open>y / 2^m\<close>.\<close>

definition sec_at :: "nat \<Rightarrow> int \<Rightarrow> bool \<Rightarrow> security_camera \<Rightarrow> bool" where
  "sec_at m y bk c \<longleftrightarrow> s_yaw c = of_int y / 2 ^ m \<and> s_back c = bk"

lemma sec_at_step:
  assumes "float_unit (flt E)" "sec_at m y bk c" "\<bar>y\<bar> + 10 * b \<le> 2 ^ 24" "0 < b" "m \<le> 149"
    and "y' = (if bk then y - 10 * b else y + 10 * b)" "bk' = (bk \<noteq> (45 * 2 ^ m \<le> \<bar>y'\<bar>))"
    and "dt = of_int b / 2 ^ m"
  shows "sec_at m y' bk' (sec_sweep E dt c)"
  using sec_sweep_grid [OF assms(1) _ assms(3-5)] assms(2,6-8) by (simp add: sec_at_def)

lemma sec_sweep_inv:
  assumes "float_unit (flt E)" "0 < b" "45 * 2 ^ m + 20 * b \<le> 2 ^ 24" "m \<le> 149"
    and "sec_at m y bk c" "45 * 2 ^ m \<le> y \<Longrightarrow> bk \<and> y - 10 * b < 45 * 2 ^ m"
    "y \<le> - (45 * 2 ^ m) \<Longrightarrow> \<not> bk \<and> - (45 * 2 ^ m) < y + 10 * b"
  shows "\<exists>y. s_yaw (sec_sweeps E (replicate n (of_int b / 2 ^ m)) c) = of_int y / 2 ^ m \<and>
    \<bar>y\<bar> < 45 * 2 ^ m + 10 * b"
  using assms(5-7)
proof (induction n arbitrary: y bk c)
  case 0
  have "\<bar>y\<bar> < 45 * 2 ^ m + 10 * b" using 0(2,3) assms(2) by linarith
  then show ?case using 0(1) by (auto simp: sec_at_def)
next
  case (Suc n)
  define y' where "y' = (if bk then y - 10 * b else y + 10 * b)"
  define bk' where "bk' = (bk \<noteq> (45 * 2 ^ m \<le> \<bar>y'\<bar>))"
  have b: "\<bar>y\<bar> < 45 * 2 ^ m + 10 * b" using Suc.prems(2,3) assms(2) by linarith
  then have "\<bar>y\<bar> + 10 * b \<le> 2 ^ 24" using assms(3) by linarith
  then have cur: "sec_at m y' bk' (sec_sweep E (of_int b / 2 ^ m) c)"
    by (rule sec_at_step [OF assms(1) Suc.prems(1) _ assms(2,4) y'_def bk'_def refl])
  have hi: "45 * 2 ^ m \<le> y' \<Longrightarrow> bk' \<and> y' - 10 * b < 45 * 2 ^ m"
    and lo: "y' \<le> - (45 * 2 ^ m) \<Longrightarrow> \<not> bk' \<and> - (45 * 2 ^ m) < y' + 10 * b"
    using Suc.prems(2,3) assms(2) zero_less_power [of "2 :: int" m]
    by (cases bk; simp add: bk'_def y'_def; linarith)+
  show ?case using Suc.IH [OF cur hi lo] by simp
qed

section \<open>Properties\<close>


text \<open>C30. A camera that starts in the middle never turns further than one frame's step past
  45 degrees, when all frames take the same time (a binary fraction of a second).\<close>

theorem camera_sweep_bounded:
  assumes "float_unit (flt E)" "s_yaw c = 0" "\<not> s_back c" "0 < b" "45 * 2 ^ m + 20 * b \<le> 2 ^ 24" "m \<le> 149"
  shows "\<bar>s_yaw (sec_sweeps E (replicate n (of_int b / 2 ^ m)) c)\<bar> < 45 + 10 * (of_int b / 2 ^ m)"
proof -
  have "sec_at m 0 False c" using assms(2,3) by (simp add: sec_at_def)
  then obtain y where y: "s_yaw (sec_sweeps E (replicate n (of_int b / 2 ^ m)) c) = of_int y / 2 ^ m"
    "\<bar>y\<bar> < 45 * 2 ^ m + 10 * b"
    using sec_sweep_inv [OF assms(1,4-6), of 0 False c n] assms(4) zero_less_power [of "2 :: int" m] by force
  have "of_int \<bar>y\<bar> < (of_int (45 * 2 ^ m + 10 * b) :: real)" using y(2) of_int_less_iff by blast
  then show ?thesis by (simp add: y(1) field_simps)
qed

text \<open>C31. With frames of different lengths a camera can turn away without limit: the test
  flips the direction in every frame beyond 45 degrees, so a short frame back followed by a long
  frame out carries it 35/32 of a degree further each time.\<close>

theorem camera_drifts:
  assumes "float_unit (flt E)" "s_yaw c = 0" "\<not> s_back c" "n \<le> 10000"
  shows "s_yaw (sec_sweeps E (1 / 64 # replicate 36 (1 / 8) @ concat (replicate n [1 / 64, 1 / 8])) c) =
    45 + 5 / 32 + of_nat n * (35 / 32)"
proof -
  have out: "k \<le> 35 \<Longrightarrow> sec_at 6 (10 + 80 * int k) False (sec_sweeps E (1 / 64 # replicate k (1 / 8)) c)" for k
  proof (induction k)
    case 0
    show ?case
      by (simp, rule sec_at_step [OF assms(1), of 6 0 False c 1]) (use assms in \<open>auto simp: sec_at_def\<close>)
  next
    case (Suc k)
    have "replicate (Suc k) (1 / 8) = replicate k (1 / 8) @ [1 / 8 :: real]" by (simp add: replicate_append_same)
    moreover have "sec_at 6 (10 + 80 * int (Suc k)) False (sec_sweep E (1 / 8) (sec_sweeps E (1 / 64 # replicate k (1 / 8)) c))"
      by (rule sec_at_step [OF assms(1) Suc.IH, where b = 8]) (use Suc.prems in auto)
    ultimately show ?case by (simp del: replicate.simps)
  qed
  have start: "sec_at 6 2890 True (sec_sweeps E (1 / 64 # replicate 36 (1 / 8)) c)"
  proof -
    have "replicate 36 (1 / 8) = replicate 35 (1 / 8) @ [1 / 8 :: real]"
      by (simp add: replicate_append_same flip: replicate_Suc)
    moreover have "sec_at 6 2890 True (sec_sweep E (1 / 8) (sec_sweeps E (1 / 64 # replicate 35 (1 / 8)) c))"
      by (rule sec_at_step [OF assms(1) out [of 35], where b = 8]) auto
    ultimately show ?thesis by (simp del: replicate.simps)
  qed
  have "sec_at 6 (2890 + 70 * int n) True
      (sec_sweeps E (concat (replicate n [1 / 64, 1 / 8])) (sec_sweeps E (1 / 64 # replicate 36 (1 / 8)) c))"
    using assms(4)
  proof (induction n)
    case (Suc n)
    let ?c = "sec_sweeps E (concat (replicate n [1 / 64, 1 / 8])) (sec_sweeps E (1 / 64 # replicate 36 (1 / 8)) c)"
    have "sec_at 6 (2880 + 70 * int n) False (sec_sweep E (1 / 64) ?c)"
      by (rule sec_at_step [OF assms(1) Suc.IH, where b = 1]) (use Suc.prems in auto)
    then have "sec_at 6 (2890 + 70 * int (Suc n)) True (sec_sweep E (1 / 8) (sec_sweep E (1 / 64) ?c))"
      by (rule sec_at_step [OF assms(1), where b = 8]) (use Suc.prems in auto)
    moreover have "concat (replicate (Suc n) [1 / 64, 1 / 8]) = concat (replicate n [1 / 64, 1 / 8]) @ [1 / 64, 1 / 8 :: real]"
      by (induction n) auto
    ultimately show ?case by (simp del: replicate.simps)
  qed (use start in simp)
  then show ?thesis by (simp add: sec_at_def field_simps)
qed

text \<open>The alarm of a laser whose delay is over: the pulse counts its own time.\<close>

lemma laser_frame_pulse:
  assumes "float_unit (flt E)" "l_delay l \<le> 0" "l_pulse l" "l_lightTime l = of_int (int k * b) / 2 ^ Suc m"
    and "int (Suc k) * b \<le> 2 ^ 24" "0 < b" "b \<le> 2 ^ 24" "m \<le> 148"
  shows "case laser_frame E (of_int b / 2 ^ m) (l, rls) of (l', rls') \<Rightarrow>
    l_delay l' \<le> 0 \<and> l_pulse l' = (int (Suc k) * b \<le> 10 * 2 ^ m) \<and>
    (l_pulse l' \<longrightarrow> l_lightTime l' = of_int (int (Suc k) * b) / 2 ^ Suc m) \<and>
    rls' = map (laser_light E l') rls"
proof -
  note rd = float_unit.rnd_dyadic [OF assms(1), where k = "Suc m"]
  have "\<bar>int (Suc k) * b\<bar> \<le> 2 ^ 24" "\<bar>b\<bar> \<le> 2 ^ 24" using assms(5-7) by auto
  note r = rd [OF this(1)] rd [OF this(2)]
  have s: "l_lightTime l + of_int b / 2 ^ Suc m = of_int (int (Suc k) * b) / 2 ^ Suc m"
    by (simp add: assms(4) add_divide_distrib algebra_simps)
  have half: "of_int b / 2 ^ m * (1 / 2) = (of_int b / 2 ^ Suc m :: real)" and m: "Suc m \<le> 149"
    using assms(8) by simp_all
  have t: "fadd E (l_lightTime l) (fmul E (of_int b / 2 ^ m) (1 / 2)) = of_int (int (Suc k) * b) / 2 ^ Suc m"
    unfolding half r(2) [OF m] s r(1) [OF m] ..
  have "(5 :: real) < of_int (int (Suc k) * b) / 2 ^ Suc m \<longleftrightarrow> of_int (10 * 2 ^ m) < (of_int (int (Suc k) * b) :: real)"
    by (simp add: less_divide_eq)
  then have five: "5 < fadd E (l_lightTime l) (fmul E (of_int b / 2 ^ m) (1 / 2)) \<longleftrightarrow> 10 * 2 ^ m < int (Suc k) * b"
    unfolding t of_int_less_iff .
  have sw: "l_pulse (laser_switch E dt l)" "l_delay (laser_switch E dt l) \<le> 0"
    "l_lightTime (laser_switch E dt l) = l_lightTime l" for dt
    using assms(2,3) by (simp_all add: laser_switch_def Let_def)
  show ?thesis using assms(2) sw five t
    by (simp add: laser_frame_def laser_update_def Let_def not_less not_le)
qed

lemma laser_frame_quiet:
  "l_delay l \<le> 0 \<Longrightarrow> \<not> l_pulse l \<Longrightarrow>
   case laser_frame E dt (l, rls) of (l', rls') \<Rightarrow> l_delay l' \<le> 0 \<and> \<not> l_pulse l' \<and> rls' = rls"
  by (auto simp: laser_frame_def laser_update_def laser_switch_def Let_def)


section \<open>Witnesses\<close>

definition laser0 :: laser where
  "laser0 = \<lparr>l_pulse = False, l_lightTime = 0, l_time = 0, l_interval = 1, l_delay = 1 / 2, l_on = True,
     l_trigger = False\<rparr>"

definition camera0 :: security_camera where
  "camera0 = sec_new \<lparr>s_back = True, s_start = quat0, s_pitch = 0, s_yaw = 0, s_rot = quat0, s_color = RED\<rparr>"

lemma camera0_sel [simp]: "s_yaw camera0 = 0" "\<not> s_back camera0"
  by (simp_all add: camera0_def sec_new_def)


theorem camera_sweep_bounded_witness:
  "\<bar>s_yaw (sec_sweeps engine32 (replicate 100000 (1 / 64)) camera0)\<bar> < 45 + 10 / 64"
  using camera_sweep_bounded [of engine32 camera0 1 6 100000] binary32.float_unit_axioms
  by (simp del: replicate.simps)

theorem camera_drifts_witness:
  "s_yaw (sec_sweeps engine32 (1 / 64 # replicate 36 (1 / 8) @ concat (replicate 3200 [1 / 64, 1 / 8])) camera0) =
     45 + 5 / 32 + 3500"
  using camera_drifts [of engine32 camera0 3200] binary32.float_unit_axioms
  by (simp del: replicate.simps sec_sweeps_simps)


end
