(* ===== verification/Bertha.thy ===== *)
theory Bertha
  imports Person AudioQueue Lasers
begin

text \<open>
  The first boss (\<open>src/BossBertha.cpp\<close>), who charges at the player, and the lasers of her room
  (\<open>src/BossLaser.cpp\<close>), which hurt both. Taking damage is the \<open>damageable\<close> contract of
  the player, the beams are the \<open>beam\<close> contract of the lasers, and the clips that end the level
  go to the \<open>audio_queue\<close>.
\<close>

section \<open>Bertha\<close>

record bertha =
  b_rot :: quat
  b_velocity :: vec3
  b_material :: string
  b_target :: vec3
  b_timer :: real
  b_health :: real
  b_bar :: "health_label option"
  b_mass :: real
  b_friction :: real
  b_angular :: vec3

definition CHARGE_SPEED :: real where "CHARGE_SPEED = 4"

definition CHARGE_INTERVAL :: real where "CHARGE_INTERVAL = 5"

definition bertha_new :: "bertha \<Rightarrow> bertha" where
  "bertha_new b = b\<lparr>b_timer := 0, b_health := 1, b_bar := None\<rparr>"

definition bertha_start :: "urho \<Rightarrow> bertha \<Rightarrow> bertha" where
  "bertha_start E b = b\<lparr>b_mass := 100, b_friction := flt E (1 / 10), b_angular := vec_ZERO\<rparr>"

text \<open>The health bar, shown while the player is in her room.\<close>

definition bertha_bar :: "urho \<Rightarrow> bool \<Rightarrow> bertha \<Rightarrow> bertha" where
  "bertha_bar E inRoom b =
     (let b1 = (if inRoom \<and> b_bar b = None then b\<lparr>b_bar := Some Health_Unknown\<rparr>
                else if b_bar b \<noteq> None \<and> \<not> inRoom then b\<lparr>b_bar := None\<rparr>
                else b)
      in if b_bar b1 \<noteq> None
         then b1\<lparr>b_bar := Some (Health_Percent (c_round (fmul E (b_health b1) 100)))\<rparr>
         else b1)"

text \<open>The part of a frame in which she stands or starts a charge; \<open>difference\<close> is the way
  from her to the player.\<close>

definition bertha_charge :: "urho \<Rightarrow> real \<Rightarrow> vec3 \<Rightarrow> vec3 \<Rightarrow> bertha \<Rightarrow> bertha" where
  "bertha_charge E dt personPosition difference b =
     (let yaw = q_yaw E (q_between E (node_dir E (b_rot b)) difference) in
      if 1 < vec_len2 E (b_velocity b) then b
      else (let b1 = b\<lparr>b_velocity := vec_ZERO,
                       b_material := (if 90 \<le> \<bar>yaw\<bar> then ''BerthaFront'' else ''BerthaBack''),
                       b_timer := fadd E (b_timer b) dt\<rparr>
            in if b_timer b1 < CHARGE_INTERVAL then b1
               else b1\<lparr>b_timer := 0,
                       b_material := (if yaw < 0 then ''BerthaLeft'' else ''BerthaRight''),
                       b_target := personPosition,
                       b_velocity := vec_scale E (vec_norm E difference) CHARGE_SPEED\<rparr>))"

definition bertha_update ::
  "urho \<Rightarrow> scene \<Rightarrow> real \<Rightarrow> real \<Rightarrow> node \<Rightarrow> bertha \<times> person \<Rightarrow> bertha \<times> person" where
  "bertha_update E sc dt camYaw self s =
     (case s of (b, p) \<Rightarrow>
        if b_health b \<le> 0 then (b, p)
        else (let b1 = b\<lparr>b_rot := q_axis E camYaw vec_UP\<rparr>;
                  position = world_pos sc self;
                  inRoom = (room_of E position = room_of E (person_pos sc));
                  b2 = bertha_bar E inRoom b1
              in if \<not> inRoom then (b2, p)
                 else (bertha_charge E dt (person_pos sc) (vec_sub E (person_pos sc) position) b2,
                       person_show_health p)))"

definition bertha_collision :: "scene \<Rightarrow> node \<Rightarrow> effect list" where
  "bertha_collision sc other = (if other \<noteq> person_node sc then [] else [End_Level True False])"

text \<open>\<open>GetResource\<close> of a sound: null when the file is missing.\<close>

definition clip :: "(string \<Rightarrow> bool) \<Rightarrow> string \<Rightarrow> audio_entry" where
  "clip loaded n = \<lparr>ae_sound = (if loaded n then Some n else None), ae_delay = 0\<rparr>"

definition end_clip :: audio_entry where
  "end_clip = \<lparr>ae_sound = None, ae_delay = 0\<rparr>"

definition bertha_clips :: "(string \<Rightarrow> bool) \<Rightarrow> audio_entry list" where
  "bertha_clips loaded =
     [end_clip,
      clip loaded ''Audio/VO/Black/29_Mav.wav'',
      clip loaded ''Audio/VO/Voice/29_IHaveWork.wav'',
      clip loaded ''Audio/VO/Black/28_YouInThere.wav'',
      clip loaded ''Audio/VO/Black/27_Faith.wav'',
      clip loaded ''Audio/VO/Voice/28_YouActuallyBeatHer.wav'',
      clip loaded ''Audio/VO/Black/26_BREATHE.wav'']"

definition bertha_take_damage ::
  "urho \<Rightarrow> (string \<Rightarrow> bool) \<Rightarrow> real \<Rightarrow> bertha \<times> audio_manager \<Rightarrow> bertha \<times> audio_manager" where
  "bertha_take_damage E loaded damage s =
     (case s of (b, am) \<Rightarrow>
        if b_health b \<le> 0 then (b, am)
        else (let b1 = b\<lparr>b_health := fsub E (b_health b) damage\<rparr>
              in if b_health b1 \<le> 0 then (b1\<lparr>b_health := 0\<rparr>, am_play (bertha_clips loaded) False am)
                 else (b1, am)))"

section \<open>The lasers of her room\<close>

record boss_laser =
  bl_time :: real
  bl_interval :: real
  bl_delay :: real
  bl_on :: bool
  bl_trigger :: bool

definition boss_laser_new :: "boss_laser \<Rightarrow> boss_laser" where
  "boss_laser_new l = l\<lparr>bl_time := 0, bl_interval := 0, bl_delay := 0\<rparr>"

definition boss_laser_load :: "urho \<Rightarrow> xml \<Rightarrow> boss_laser \<Rightarrow> boss_laser" where
  "boss_laser_load E x l = l\<lparr>bl_interval := parse_float E (get_attr x ''interval''),
     bl_delay := parse_float E (get_attr x ''delay'')\<rparr>"

definition boss_laser_start :: "boss_laser \<Rightarrow> boss_laser" where
  "boss_laser_start l = l\<lparr>bl_on := False, bl_trigger := True\<rparr>"

definition boss_laser_update :: "urho \<Rightarrow> real \<Rightarrow> boss_laser \<Rightarrow> boss_laser" where
  "boss_laser_update E dt l =
     (if 0 < bl_delay l then l\<lparr>bl_delay := fsub E (bl_delay l) dt\<rparr>
      else if 0 < bl_interval l
      then (let l1 = l\<lparr>bl_time := fadd E (bl_time l) dt\<rparr>
            in if bl_interval l1 < bl_time l1 then l1\<lparr>bl_on := \<not> bl_on l1, bl_time := 0\<rparr> else l1)
      else l)"

text \<open>\<open>isBertha\<close>: whether the other node has a \<open>BossBertha\<close>, whose state is then \<open>b\<close>.\<close>

definition boss_laser_collision ::
  "urho \<Rightarrow> (string \<Rightarrow> bool) \<Rightarrow> scene \<Rightarrow> node \<Rightarrow> bool \<Rightarrow> boss_laser \<Rightarrow> person \<times> bertha \<times> audio_manager
     \<Rightarrow> (person \<times> bertha \<times> audio_manager) \<times> effect list" where
  "boss_laser_collision E loaded sc other isBertha l s =
     (case s of (p, b, am) \<Rightarrow>
        if \<not> bl_on l then (s, [])
        else if other = person_node sc
        then (case person_take_damage E (flt E (5 / 1000)) p of (p', es) \<Rightarrow> ((p', b, am), es))
        else if isBertha
        then (case bertha_take_damage E loaded (flt E (5 / 1000)) (b, am) of
                (b', am') \<Rightarrow> ((p, b', am'), [Log_Error ''Bertha Collision'']))
        else (s, []))"

section \<open>Lemmas\<close>

definition bertha_hit ::
  "urho \<Rightarrow> (string \<Rightarrow> bool) \<Rightarrow> real \<Rightarrow> bertha \<times> audio_manager \<Rightarrow> (bertha \<times> audio_manager) \<times> bool" where
  "bertha_hit E loaded d s =
     (bertha_take_damage E loaded d s, 0 < b_health (fst s) \<and> b_health (fst (bertha_take_damage E loaded d s)) \<le> 0)"

lemma bertha_damageable:
  "float_unit (flt E) \<Longrightarrow> damageable (flt E) (\<lambda>s. b_health (fst s)) (bertha_hit E loaded)"
  by (intro damageable.intro damageable_axioms.intro)
    (auto simp: bertha_hit_def bertha_take_damage_def Let_def split: prod.splits)

interpretation boss: damageable fl32 "\<lambda>s. b_health (fst s)" "bertha_hit engine32 loaded" for loaded
  using bertha_damageable [of engine32] binary32.float_unit_axioms by simp

lemma boss_laser_beam:
  "float_unit (flt E) \<Longrightarrow> beam (flt E) bl_delay bl_time bl_interval bl_on (boss_laser_update E)"
  by (intro beam.intro beam_axioms.intro) (auto simp: boss_laser_update_def Let_def)

interpretation boss_beam: beam fl32 bl_delay bl_time bl_interval bl_on "boss_laser_update engine32"
  using boss_laser_beam [of engine32] binary32.float_unit_axioms by simp

text \<open>The clips are started once, by the hit that kills her; no other hit touches the queue.\<close>

lemma bertha_hit_audio:
  "snd (bertha_hit E loaded d s) \<Longrightarrow> snd (fst (bertha_hit E loaded d s)) = am_play (bertha_clips loaded) False (snd s)"
  "\<not> snd (bertha_hit E loaded d s) \<Longrightarrow> snd (fst (bertha_hit E loaded d s)) = snd s"
  by (auto simp: bertha_hit_def bertha_take_damage_def Let_def split: prod.splits if_splits)

lemma hits_audio:
  "snd (fst (hits (bertha_hit E loaded) ds s)) =
     (if snd (hits (bertha_hit E loaded) ds s) = 0 then snd s else am_play (bertha_clips loaded) False am_new)"
proof (induction ds arbitrary: s)
  case (Cons d ds)
  have "am_play xs False m = am_play xs False m'" for xs and m m' :: audio_manager
    by (simp add: am_play_def)
  then show ?case
    using Cons.IH [of "fst (bertha_hit E loaded d s)"] bertha_hit_audio [of E loaded d s]
    by (auto simp: case_prod_beta split: if_splits)
qed simp

section \<open>Properties\<close>

text \<open>It takes 200 or 201 collisions with a laser to kill Bertha or the player from full
  health, however \<open>float\<close> rounds: each takes 0.005 off, after 199 collisions both are alive and
  after 201 both are dead.\<close>

theorem laser_hits_to_kill:
  assumes "float_unit (flt E)" "p_health p = 1" "b_health b = 1"
  shows "0 < p_health (fst (hits (person_hit E) (replicate 199 (flt E (5 / 1000))) p)) \<and>
    p_health (fst (hits (person_hit E) (replicate 201 (flt E (5 / 1000))) p)) = 0 \<and>
    0 < b_health (fst (fst (hits (bertha_hit E loaded) (replicate 199 (flt E (5 / 1000))) (b, am)))) \<and>
    b_health (fst (fst (hits (bertha_hit E loaded) (replicate 201 (flt E (5 / 1000))) (b, am)))) = 0"
  using damageable.hits_200 [OF person_damageable [OF assms(1)], of p]
    damageable.hits_200 [OF bertha_damageable [OF assms(1)], of "(b, am)" loaded] assms(2,3)
  by simp

text \<open>C32. Beating Bertha ends the level as won: when hits have brought her health to 0, then
  in the frames in which no clip is playing her clips are started in their order, one per frame,
  and after the last of them the level ends. Hits after the first fatal one change nothing.\<close>

theorem bertha_beaten_ends_level:
  assumes "float_unit (flt E)" "b_health b = 1" "list_all (\<lambda>d. 0 \<le> d) ds"
    and "b_health (fst (fst (hits (bertha_hit E (\<lambda>_. True)) ds (b, am)))) = 0" "7 \<le> n"
  shows "snd (am.ticks E (replicate n (dt, False)) (snd (fst (hits (bertha_hit E (\<lambda>_. True)) ds (b, am))))) =
    [Play_Sound ''Audio/VO/Black/26_BREATHE.wav'', Play_Sound ''Audio/VO/Voice/28_YouActuallyBeatHer.wav'',
     Play_Sound ''Audio/VO/Black/27_Faith.wav'', Play_Sound ''Audio/VO/Black/28_YouInThere.wav'',
     Play_Sound ''Audio/VO/Voice/29_IHaveWork.wav'', Play_Sound ''Audio/VO/Black/29_Mav.wav'',
     End_Level False False]"
proof -
  note dm = bertha_damageable [OF assms(1), of "\<lambda>_. True"]
  have "damageable.healthy (flt E) (\<lambda>s. b_health (fst s)) (b, am)"
    using assms(2) float_unit.rnd_1 [OF assms(1)] by (simp add: damageable.healthy_def [OF dm])
  from damageable.hits_fire_once [OF dm this assms(3)]
  have "snd (hits (bertha_hit E (\<lambda>_. True)) ds (b, am)) = 1" using assms(2,4) by simp
  then have "snd (fst (hits (bertha_hit E (\<lambda>_. True)) ds (b, am))) = am_play (bertha_clips (\<lambda>_. True)) False am_new"
    by (simp add: hits_audio)
  then show ?thesis
    using am.ticks_silent [of "am_play (bertha_clips (\<lambda>_. True)) False am_new" n E dt] assms(5)
    by (simp add: am_play_def v_insert0_def bertha_clips_def clip_def end_clip_def emit_def)
qed

text \<open>The lasers of the boss room keep the same time as the others: a \<open>BossLaser\<close> and a
  \<open>Laser\<close> made from the same element are on in the same frames, whatever the lengths of the
  frames and whatever the arithmetic.\<close>

theorem boss_laser_like_laser:
  "bl_on (foldl (\<lambda>l dt. boss_laser_update E dt l) (boss_laser_start (boss_laser_load E x (boss_laser_new bl))) dts) =
   l_on (foldl (\<lambda>l dt. laser_tick E dt l) (laser_start (laser_load E x (laser_new l))) dts)"
proof -
  define same where "same b l \<longleftrightarrow> bl_time b = l_time l \<and> bl_interval b = l_interval l \<and>
    bl_delay b = l_delay l \<and> bl_on b = l_on l" for b :: boss_laser and l :: laser
  have step: "same b l \<Longrightarrow> same (boss_laser_update E dt b) (laser_tick E dt l)" for b l dt
    by (auto simp: same_def boss_laser_update_def laser_tick_def laser_update_def laser_switch_def Let_def)
  have "same b l \<Longrightarrow> same (foldl (\<lambda>l dt. boss_laser_update E dt l) b dts) (foldl (\<lambda>l dt. laser_tick E dt l) l dts)" for b l
    by (induction dts arbitrary: b l) (simp_all add: step)
  moreover have "same (boss_laser_start (boss_laser_load E x (boss_laser_new bl))) (laser_start (laser_load E x (laser_new l)))"
    by (simp add: same_def boss_laser_start_def boss_laser_load_def boss_laser_new_def
        laser_start_def laser_load_def laser_new_def)
  ultimately show ?thesis by (simp add: same_def)
qed

text \<open>Everything that happens to Bertha: frames, with any scene and time step, and hits.\<close>

datatype bertha_event = B_Update scene real real | B_Hit real

fun bertha_step :: "urho \<Rightarrow> (string \<Rightarrow> bool) \<Rightarrow> node \<Rightarrow> bertha_event \<Rightarrow> bertha \<times> person \<times> audio_manager \<Rightarrow> bertha \<times> person \<times> audio_manager" where
  "bertha_step E loaded self (B_Update sc dt yaw) (b, p, am) =
     (case bertha_update E sc dt yaw self (b, p) of (b', p') \<Rightarrow> (b', p', am))"
| "bertha_step E loaded self (B_Hit d) (b, p, am) =
     (case bertha_take_damage E loaded d (b, am) of (b', am') \<Rightarrow> (b', p, am'))"

fun bertha_event_ok :: "bertha_event \<Rightarrow> bool" where
  "bertha_event_ok (B_Update sc dt yaw) \<longleftrightarrow> 0 \<le> dt"
| "bertha_event_ok (B_Hit d) \<longleftrightarrow> 0 \<le> d"

definition bertha_inv :: "urho \<Rightarrow> bertha \<Rightarrow> bool" where
  "bertha_inv E b \<longleftrightarrow> 0 \<le> b_health b \<and> b_health b \<le> 1 \<and> flt E (b_health b) = b_health b \<and>
     0 \<le> b_timer b \<and> b_timer b < 5 \<and>
     (case b_bar b of Some (Health_Percent k) \<Rightarrow> 0 \<le> k \<and> k \<le> 100 | Some Health_Unknown \<Rightarrow> False | None \<Rightarrow> True)"

lemma percent_range:
  assumes "float_unit (flt E)" "0 \<le> h" "h \<le> 1"
  shows "0 \<le> c_round (fmul E h 100) \<and> c_round (fmul E h 100) \<le> 100"
proof -
  have "0 \<le> fmul E h 100" using float_unit.rnd_nonneg [OF assms(1)] assms(2) by simp
  then have "c_round 0 \<le> c_round (fmul E h 100)" by (rule c_round_mono)
  moreover have "flt E 100 = 100" using float_unit.rnd_numeral [OF assms(1)] by simp
  then have "fmul E h 100 \<le> 100" using float_unit.rnd_le_float [OF assms(1)] assms(3) by simp
  then have "c_round (fmul E h 100) \<le> c_round 100" by (rule c_round_mono)
  moreover have "c_round 0 = 0" "c_round 100 = 100" using c_round_of_int [of 0] c_round_of_int [of 100] by simp_all
  ultimately show ?thesis by simp
qed

lemma bertha_bar_inv:
  assumes "float_unit (flt E)" "bertha_inv E b"
  shows "bertha_inv E (bertha_bar E r b) \<and> (b_bar (bertha_bar E r b) \<noteq> None \<longleftrightarrow> r)"
  using assms(2) percent_range [OF assms(1), of "b_health b"]
  by (auto simp: bertha_inv_def bertha_bar_def Let_def)

lemma bertha_charge_inv:
  assumes "float_unit (flt E)" "bertha_inv E b" "0 \<le> dt"
  shows "bertha_inv E (bertha_charge E dt pp diff b) \<and> b_bar (bertha_charge E dt pp diff b) = b_bar b"
proof -
  have "0 \<le> fadd E (b_timer b) dt"
    using float_unit.rnd_nonneg [OF assms(1)] assms(2,3) by (simp add: bertha_inv_def)
  then show ?thesis using assms(2) by (auto simp: bertha_inv_def bertha_charge_def Let_def CHARGE_INTERVAL_def)
qed

lemma bertha_step_inv:
  assumes "float_unit (flt E)" "bertha_inv E b" "bertha_event_ok e"
  shows "case bertha_step E loaded self e (b, p, am) of (b', p', am') \<Rightarrow> bertha_inv E b'"
proof (cases e)
  case (B_Update sc dt yaw)
  let ?b = "b\<lparr>b_rot := q_axis E yaw vec_UP\<rparr>"
  have "bertha_inv E ?b" using assms(2) by (simp add: bertha_inv_def)
  note i = bertha_bar_inv [OF assms(1) this]
  show ?thesis
    using B_Update assms i bertha_charge_inv [OF assms(1)]
    by (auto simp: bertha_update_def Let_def)
next
  case (B_Hit d)
  have "fsub E (b_health b) d \<le> b_health b"
    using float_unit.sub_le [OF assms(1)] assms B_Hit by (simp add: bertha_inv_def)
  then show ?thesis using B_Hit assms(2) float_unit.rnd_idem [OF assms(1)] float_unit.rnd_0 [OF assms(1)]
    by (auto simp: bertha_take_damage_def bertha_inv_def Let_def split: option.splits)
qed

text \<open>Whatever frames and hits Bertha goes through, her health stays between 0 and 1, the
  time since her last charge stays below the charge interval, and the health bar, when it is
  shown, reads a percentage between 0 and 100.\<close>

theorem bertha_bounds:
  assumes "float_unit (flt E)" "list_all bertha_event_ok es"
  shows "case foldl (\<lambda>s e. bertha_step E loaded self e s) (bertha_new b, p, am) es of (b', _) \<Rightarrow>
    0 \<le> b_health b' \<and> b_health b' \<le> 1 \<and> 0 \<le> b_timer b' \<and> b_timer b' < 5 \<and>
    b_bar b' \<in> {None} \<union> Some ` Health_Percent ` {0..100}"
proof -
  have run: "case foldl (\<lambda>s e. bertha_step E loaded self e s) (b, p, am) es of (b', _) \<Rightarrow> bertha_inv E b'"
    if "bertha_inv E b" for b p am
    using assms(2) that
  proof (induction es arbitrary: b p am)
    case (Cons e es)
    obtain b1 p1 am1 where s: "bertha_step E loaded self e (b, p, am) = (b1, p1, am1)" by (metis prod_cases3)
    then have "bertha_inv E b1" using bertha_step_inv [OF assms(1) Cons.prems(2), of e loaded self p am] Cons.prems(1) by simp
    then show ?case using Cons.IH [of b1 p1 am1] Cons.prems(1) by (simp add: s)
  qed simp
  have init: "bertha_inv E (bertha_new b)"
    using float_unit.rnd_1 [OF assms(1)] by (simp add: bertha_inv_def bertha_new_def)
  have "case foldl (\<lambda>s e. bertha_step E loaded self e s) (bertha_new b, p, am) es of (b', _) \<Rightarrow> bertha_inv E b'"
    by (rule run [OF init])
  moreover have "b_bar b' \<in> {None} \<union> Some ` Health_Percent ` {0..100}" if "bertha_inv E b'" for b'
    using that by (cases "b_bar b'"; cases "the (b_bar b')") (auto simp: bertha_inv_def)
  ultimately show ?thesis by (auto simp: bertha_inv_def split: prod.splits)
qed

section \<open>Witnesses\<close>

definition bertha0 :: bertha where
  "bertha0 = bertha_new \<lparr>b_rot = quat0, b_velocity = vec_ZERO, b_material = [], b_target = vec_ZERO, b_timer = 0,
     b_health = 0, b_bar = None, b_mass = 1, b_friction = 0, b_angular = vec_ZERO\<rparr>"

lemma bertha0_sel [simp]: "b_health bertha0 = 1"
  by (simp add: bertha0_def bertha_new_def)

theorem laser_hits_to_kill_witness:
  "0 < p_health (fst (hits (person_hit engine32) (replicate 199 (fl32 (5 / 1000))) person0)) \<and>
   b_health (fst (fst (hits (bertha_hit engine32 (\<lambda>_. True)) (replicate 201 (fl32 (5 / 1000))) (bertha0, am_new)))) = 0"
  using laser_hits_to_kill [of engine32 person0 bertha0 "\<lambda>_. True" am_new] binary32.float_unit_axioms
  by (simp del: replicate.simps)

theorem bertha_beaten_ends_level_witness:
  "last (snd (am.ticks engine32 (replicate 7 (1, False)) (snd (fst (hits (bertha_hit engine32 (\<lambda>_. True)) [1] (bertha0, am_new)))))) =
   End_Level False False"
proof -
  have "b_health (fst (fst (hits (bertha_hit engine32 (\<lambda>_. True)) [1] (bertha0, am_new)))) = 0"
    by (simp add: bertha_hit_def bertha_take_damage_def)
  moreover have "float_unit (flt engine32)" by (simp add: binary32.float_unit_axioms)
  ultimately show ?thesis
    using bertha_beaten_ends_level [of engine32 bertha0 "[1]" am_new 7 1] by (simp del: hits.simps am.ticks.simps)
qed

theorem bertha_bounds_witness:
  "b_timer (fst (foldl (\<lambda>s e. bertha_step engine32 (\<lambda>_. True) 3 e s) (bertha_new bertha0, person0, am_new)
      (replicate 1000 (B_Update scene0 (1 / 64) 0)))) < 5"
proof -
  have "list_all bertha_event_ok (replicate 1000 (B_Update scene0 (1 / 64) 0))" by (simp add: list_all_iff)
  from bertha_bounds [OF _ this, of engine32 "\<lambda>_. True" 3 bertha0 person0 am_new]
  show ?thesis by (simp add: case_prod_beta binary32.float_unit_axioms del: replicate.simps)
qed

end
