(* ===== verification/Sequences.thy ===== *)
theory Sequences
  imports Person AudioQueue "HOL-Library.Multiset" "HOL-Library.Sublist"
begin

text \<open>
  The two puzzles: Mr Wright's glyphs (\<open>src/MrWright.cpp\<close>) and the terminals of the last
  level (\<open>src/Wife.cpp\<close>). Both are locks that the player opens by touching things in the
  right order, the contract of the locale \<open>sequence_lock\<close>, and both shuffle with the same loop.

  \<open>Random(n)\<close> is the engine's: \<open>pick c n\<close> is what the \<open>c\<close>-th call returns for the bound \<open>n\<close>,
  and by its documentation is below \<open>n\<close> when \<open>n\<close> is positive.
\<close>

definition fair :: "(nat \<Rightarrow> nat \<Rightarrow> nat) \<Rightarrow> bool" where
  "fair pick \<longleftrightarrow> (\<forall>c n. 0 < n \<longrightarrow> pick c n < n)"

section \<open>Shuffling\<close>

text \<open>\<open>while (m > 0) { int n = Random(0, m--); Swap(xs[m], xs[n]); }\<close>\<close>

fun shuffle :: "(nat \<Rightarrow> nat \<Rightarrow> nat) \<Rightarrow> nat \<Rightarrow> nat \<Rightarrow> 'a list \<Rightarrow> 'a list" where
  "shuffle pick c 0 xs = xs"
| "shuffle pick c (Suc m) xs = shuffle pick (Suc c) m (v_swap xs m (pick c (Suc m)))"

lemma mset_v_swap: "i < length xs \<Longrightarrow> j < length xs \<Longrightarrow> mset (v_swap xs i j) = mset xs"
  by (simp add: v_swap_def mset_swap)

lemma shuffle_perm: "fair pick \<Longrightarrow> m \<le> length xs \<Longrightarrow> mset (shuffle pick c m xs) = mset xs"
proof (induction m arbitrary: c xs)
  case (Suc m)
  have j: "pick c (Suc m) < Suc m" using Suc.prems(1) by (auto simp: fair_def)
  then have "mset (v_swap xs m (pick c (Suc m))) = mset xs" using Suc.prems(2) by (intro mset_v_swap) auto
  then show ?case using Suc by simp
qed simp

lemma shuffle_keeps: "fair pick \<Longrightarrow> m \<le> i \<Longrightarrow> i < length xs \<Longrightarrow> shuffle pick c m xs ! i = xs ! i"
proof (induction m arbitrary: c xs)
  case (Suc m)
  have "pick c (Suc m) < Suc m" using Suc.prems(1) by (auto simp: fair_def)
  then have "v_swap xs m (pick c (Suc m)) ! i = xs ! i" using Suc.prems(2,3) by (simp add: v_swap_def)
  then show ?case using Suc by simp
qed simp

lemma length_shuffle [simp]: "length (shuffle pick c m xs) = length xs"
  by (induction m arbitrary: c xs) simp_all

lemma shuffle_cong: "(\<And>i n. c \<le> i \<Longrightarrow> pick i n = pick' i n) \<Longrightarrow> shuffle pick c m xs = shuffle pick' c m xs"
proof (induction m arbitrary: c xs)
  case (Suc m)
  have "shuffle pick (Suc c) m (v_swap xs m j) = shuffle pick' (Suc c) m (v_swap xs m j)" for j
    by (rule Suc.IH) (use Suc.prems in simp)
  then show ?case using Suc.prems by simp
qed simp

lemma shuffle_complete:
  "m \<le> length xs \<Longrightarrow> mset (take m ys) = mset (take m xs) \<Longrightarrow> drop m ys = drop m xs \<Longrightarrow> length ys = length xs \<Longrightarrow>
   \<exists>pick. fair pick \<and> shuffle pick c m xs = ys"
proof (induction m arbitrary: c xs)
  case 0
  then show ?case by (intro exI [of _ "\<lambda>_ _. 0"]) (simp add: fair_def)
next
  case (Suc m)
  have "ys ! m \<in> set (take (Suc m) xs)"
  proof -
    have "ys ! m \<in> set (take (Suc m) ys)" using Suc.prems(1,4) by (simp add: take_Suc_conv_app_nth)
    then show ?thesis using Suc.prems(2) by (metis set_mset_mset)
  qed
  then obtain j where j: "j \<le> m" "xs ! j = ys ! m"
    using Suc.prems(1) by (auto simp: in_set_conv_nth less_Suc_eq_le)
  let ?xs = "v_swap xs m j"
  have l: "m < length xs" "j < length xs" using Suc.prems(1) j(1) by auto
  have sw: "mset (take (Suc m) ?xs) = mset (take (Suc m) xs)"
  proof -
    have "take (Suc m) ?xs = v_swap (take (Suc m) xs) m j"
      using j(1) l by (simp add: v_swap_def take_update_swap)
    then show ?thesis using j(1) l by (simp add: mset_v_swap)
  qed
  have m': "?xs ! m = ys ! m" using l j by (cases "j = m") (auto simp: v_swap_def)
  have "mset (take m ys) + {#ys ! m#} = mset (take m ?xs) + {#?xs ! m#}"
    using Suc.prems(2,4) sw l by (simp add: take_Suc_conv_app_nth)
  then have a: "mset (take m ys) = mset (take m ?xs)" using m' by simp
  have b: "drop m ys = drop m ?xs"
  proof -
    have "drop (Suc m) ?xs = drop (Suc m) xs" using j(1) by (simp add: v_swap_def)
    then have "drop (Suc m) ys = drop (Suc m) ?xs" using Suc.prems(3) by simp
    then show ?thesis using m' l Suc.prems(4) by (metis Cons_nth_drop_Suc length_v_swap)
  qed
  obtain pick where p: "fair pick" "shuffle pick (Suc c) m ?xs = ys"
    using Suc.IH [of ?xs "Suc c"] a b Suc.prems(1,4) by auto
  let ?pick = "\<lambda>i n. if i = c then min j (n - 1) else pick i n"
  have "fair ?pick" using p(1) by (auto simp: fair_def)
  moreover have "shuffle ?pick (Suc c) m ?xs = ys"
    using p(2) shuffle_cong [of "Suc c" pick ?pick m ?xs] by simp
  moreover have "?pick c (Suc m) = j" using j(1) by simp
  ultimately show ?case by (intro exI [of _ ?pick]) simp
qed

section \<open>Locks\<close>

text \<open>What is left to touch; a wrong touch changes nothing.\<close>

fun matched :: "'k list \<Rightarrow> 'k \<Rightarrow> 'k list" where
  "matched [] k = []"
| "matched (x # xs) k = (if k = x then xs else x # xs)"

locale sequence_lock =
  fixes ok :: "'s \<Rightarrow> bool"
    and rest :: "'s \<Rightarrow> 'k list"
    and touch :: "'k \<Rightarrow> 's \<Rightarrow> 's"
  assumes touch_ok: "ok s \<Longrightarrow> ok (touch k s)"
    and touch_rest: "ok s \<Longrightarrow> rest (touch k s) = matched (rest s) k"
begin

lemma touches_ok: "ok s \<Longrightarrow> ok (foldl (\<lambda>s k. touch k s) s ks)"
  by (induction ks arbitrary: s) (simp_all add: touch_ok)

lemma touches_rest: "ok s \<Longrightarrow> rest (foldl (\<lambda>s k. touch k s) s ks) = foldl matched (rest s) ks"
  by (induction ks arbitrary: s) (simp_all add: touch_ok touch_rest)

lemma matched_subseq: "foldl matched xs ks = [] \<longleftrightarrow> subseq xs ks"
proof (induction ks arbitrary: xs)
  case (Cons k ks)
  then show ?case by (cases xs) auto
qed (auto dest: list_emb_Nil2)

text \<open>The lock is open exactly when the sequence has been touched in order, with anything in
  between.\<close>

lemma opens: "ok s \<Longrightarrow> rest (foldl (\<lambda>s k. touch k s) s ks) = [] \<longleftrightarrow> subseq (rest s) ks"
  by (simp add: touches_rest matched_subseq)

end

section \<open>Mr Wright\<close>

text \<open>A \<open>Material *\<close> is a number; a displayed glyph is a clone of a material with a colour of
  its own, \<open>None\<close> while it is the material's.\<close>

type_synonym mat = nat

record glyph =
  gl_material :: "mat option"
  gl_color :: "color option"
  gl_pos :: vec3

record wright =
  w_timer :: real
  w_sequences :: "mat list list"
  w_glyphs :: "glyph list"

text \<open>Where a poster or terminal is touched: a trigger in front of it.\<close>

record interaction =
  in_pos :: vec3
  in_rot :: quat
  in_target :: node

definition interaction_at :: "urho \<Rightarrow> real \<Rightarrow> node \<times> vec3 \<times> quat \<Rightarrow> interaction" where
  "interaction_at E off x =
     (case x of (n, pos, rot) \<Rightarrow>
        \<lparr>in_pos = (vec_sub E pos (vec_scale E (node_dir E rot) off))\<lparr>vy := 0\<rparr>, in_rot = rot, in_target = n\<rparr>)"

text \<open>One sequence: \<open>n\<close> glyphs drawn from the pool without replacement. The pool is indexed
  even when it is empty.\<close>

fun wright_sequence :: "(nat \<Rightarrow> nat \<Rightarrow> nat) \<Rightarrow> nat \<Rightarrow> nat \<Rightarrow> mat list \<Rightarrow> mat list option" where
  "wright_sequence pick c 0 pool = Some []"
| "wright_sequence pick c (Suc n) pool =
     (let k = pick c (length pool) in
      case v_at pool k of
        None \<Rightarrow> None
      | Some g \<Rightarrow> map_option ((#) g) (wright_sequence pick (Suc c) n (v_erase k pool)))"

fun wright_sequences :: "(nat \<Rightarrow> nat \<Rightarrow> nat) \<Rightarrow> nat \<Rightarrow> nat \<Rightarrow> nat \<Rightarrow> mat list \<Rightarrow> mat list list option" where
  "wright_sequences pick c 0 glyphCount glyphs = Some []"
| "wright_sequences pick c (Suc i) glyphCount glyphs =
     (case wright_sequence pick c glyphCount glyphs of
        None \<Rightarrow> None
      | Some sq \<Rightarrow> map_option ((#) sq) (wright_sequences pick (c + glyphCount) i (glyphCount + 2) glyphs))"

text \<open>The loop that brings the display to the length of the sequence, then the glyphs.\<close>

definition new_glyph :: glyph where
  "new_glyph = \<lparr>gl_material = None, gl_color = None, gl_pos = vec_ZERO\<rparr>"

function resize_glyphs :: "nat \<Rightarrow> glyph list \<Rightarrow> glyph list" where
  "resize_glyphs n gs =
     (if length gs = n then gs
      else if length gs < n then resize_glyphs n (v_push gs new_glyph)
      else resize_glyphs n (v_pop gs))"
  by auto
termination
  by (relation "measure (\<lambda>(n, gs). (n - length gs) + (length gs - n))") (auto simp: v_push_def v_pop_def)

declare resize_glyphs.simps [simp del]

definition set_glyph :: "urho \<Rightarrow> vec3 \<Rightarrow> nat \<Rightarrow> mat list \<Rightarrow> nat \<Rightarrow> glyph" where
  "set_glyph E position n sq i =
     \<lparr>gl_material = Some (sq ! i),
      gl_color = (if 0 < i then Some GRAY else None),
      gl_pos = vec_add E position
        (V3 (fadd E (fdiv E (fmul E (of_nat (n - 1)) (flt E (6 / 10))) (- 2)) (fmul E (of_nat i) (flt E (6 / 10)))) 0 (- 1))\<rparr>"

definition update_display :: "urho \<Rightarrow> vec3 \<Rightarrow> wright \<Rightarrow> wright" where
  "update_display E position w =
     (case w_sequences w of
        [] \<Rightarrow> w\<lparr>w_glyphs := []\<rparr>
      | sq # _ \<Rightarrow>
          (let updateGlyphs = (length (w_glyphs w) \<noteq> length sq);
               gs = resize_glyphs (length sq) (w_glyphs w)
           in if updateGlyphs then w\<lparr>w_glyphs := map (set_glyph E position (length gs) sq) [0..<length gs]\<rparr>
              else w\<lparr>w_glyphs := gs\<rparr>))"

text \<open>\<open>posters\<close>: the room's posters with their materials, which are all loaded: a poster whose material
  is missing, and with it a null glyph, is not covered. Three sequences, of 2, 4 and 6.\<close>

definition wright_start ::
  "urho \<Rightarrow> (nat \<Rightarrow> nat \<Rightarrow> nat) \<Rightarrow> vec3 \<Rightarrow> ((node \<times> vec3 \<times> quat) \<times> mat) list \<Rightarrow> wright
     \<Rightarrow> (wright \<times> interaction list) option" where
  "wright_start E pick position posters w =
     (case wright_sequences pick 0 3 2 (map snd posters) of
        None \<Rightarrow> None
      | Some sqs \<Rightarrow> Some (update_display E position (w\<lparr>w_sequences := sqs, w_glyphs := []\<rparr>),
          map (\<lambda>(p, _). interaction_at E (3 / 2) p) posters))"

text \<open>Every ten seconds the posters' materials are shuffled.\<close>

definition wright_update ::
  "urho \<Rightarrow> (nat \<Rightarrow> nat \<Rightarrow> nat) \<Rightarrow> nat \<Rightarrow> real \<Rightarrow> wright \<times> mat list \<Rightarrow> wright \<times> mat list" where
  "wright_update E pick c dt s =
     (case s of (w, posters) \<Rightarrow>
        (let w1 = w\<lparr>w_timer := fadd E (w_timer w) dt\<rparr> in
         if w_timer w1 < 10 then (w1, posters)
         else (w1\<lparr>w_timer := 0\<rparr>, shuffle pick c (length posters) posters)))"

definition wright_clips :: "(string \<Rightarrow> bool) \<Rightarrow> audio_entry list" where
  "wright_clips loaded =
     \<lparr>ae_sound = None, ae_delay = 0\<rparr> #
     map (\<lambda>n. \<lparr>ae_sound = (if loaded n then Some n else None), ae_delay = 0\<rparr>)
       [''Audio/VO/Black/16_Sigh.wav'', ''Audio/VO/Voice/16_KeepItSecure.wav'',
        ''Audio/VO/Black/15_Why.wav'', ''Audio/VO/Voice/15_CatFlap.wav'',
        ''Audio/VO/Black/14_Keys.wav'', ''Audio/VO/Voice/14_No.wav'',
        ''Audio/VO/Black/13_Petty.wav'', ''Audio/VO/Voice/13_CheckPockets.wav'']"

definition color_glyph :: "nat \<Rightarrow> color \<Rightarrow> glyph list \<Rightarrow> glyph list" where
  "color_glyph i c gs = gs[i := (gs ! i)\<lparr>gl_color := Some c\<rparr>]"

text \<open>\<open>posterMaterial\<close>: the material that the touched poster has now.\<close>

definition wright_collision ::
  "urho \<Rightarrow> (string \<Rightarrow> bool) \<Rightarrow> scene \<Rightarrow> vec3 \<Rightarrow> node \<Rightarrow> mat \<Rightarrow> wright \<times> audio_manager
     \<Rightarrow> (wright \<times> audio_manager) option" where
  "wright_collision E loaded sc position other posterMaterial s =
     (case s of (w, am) \<Rightarrow>
        case w_sequences w of
          [] \<Rightarrow> Some (w, am)
        | currentSequence # later \<Rightarrow>
            if other \<noteq> person_node sc then Some (w, am)
            else (case v_front currentSequence of
                    None \<Rightarrow> None
                  | Some currentMaterial \<Rightarrow>
                      if posterMaterial \<noteq> currentMaterial then Some (w, am)
                      else (let index = length (w_glyphs w) - length currentSequence in
                            if length (w_glyphs w) < length currentSequence \<or> length (w_glyphs w) \<le> index then None
                            else (let gs = color_glyph index GREEN (w_glyphs w);
                                      gs = (if index + 1 < length gs then color_glyph (index + 1) WHITE gs else gs);
                                      sq = v_erase 0 currentSequence;
                                      w1 = w\<lparr>w_sequences := sq # later, w_glyphs := gs\<rparr>;
                                      w2 = (if sq = [] then update_display E position (w1\<lparr>w_sequences := later\<rparr>) else w1)
                                  in Some (w2, if w_sequences w2 = [] then am_play (wright_clips loaded) False am else am)))))"

section \<open>The wife\<close>

text \<open>\<open>wf_lit\<close>: the terminals whose material has been replaced by a bright one.\<close>

record wife =
  wf_sequence :: "node list"
  wf_time :: real
  wf_lit :: "node list"

definition wife_start ::
  "urho \<Rightarrow> (nat \<Rightarrow> nat \<Rightarrow> nat) \<Rightarrow> (node \<times> vec3 \<times> quat) list \<Rightarrow> wife \<Rightarrow> wife \<times> interaction list \<times> effect list" where
  "wife_start E pick terminals w =
     (let sq = map fst terminals
      in (w\<lparr>wf_sequence := shuffle pick 0 (length sq) sq\<rparr>, map (interaction_at E (3 / 4)) terminals,
          [Log_Error ''WIFE CLASS!'']))"

definition wife_update :: "urho \<Rightarrow> scene \<Rightarrow> real \<Rightarrow> node \<Rightarrow> wife \<times> person \<Rightarrow> (wife \<times> person) \<times> effect list" where
  "wife_update E sc dt self s =
     (case s of (w, p) \<Rightarrow>
        if room_of E (world_pos sc self) \<noteq> room_of E (person_pos sc) then ((w, p), [])
        else (let p1 = person_show_health p in
              if wf_sequence w = [] then ((w, p1), [End_Level False True])
              else ((w\<lparr>wf_time := fadd E (wf_time w) dt\<rparr>, p1), [])))"

definition wife_collision :: "scene \<Rightarrow> node \<Rightarrow> node \<Rightarrow> wife \<Rightarrow> wife \<times> effect list" where
  "wife_collision sc other terminal w =
     (case wf_sequence w of
        [] \<Rightarrow> (w, [])
      | front # _ \<Rightarrow>
          if other \<noteq> person_node sc then (w, [])
          else if terminal \<noteq> front
          then (w, [Log_Error ''No Match!'', Play_Sound ''Audio/Windows Hardware Fail.wav''])
          else (w\<lparr>wf_lit := terminal # wf_lit w, wf_sequence := v_erase 0 (wf_sequence w)\<rparr>,
                [Log_Error ''Match!'', Play_Sound ''Audio/Windows Hardware Insert.wav'']))"

section \<open>Lemmas\<close>

lemma length_resize [simp]: "length (resize_glyphs n gs) = n"
proof (induction n gs rule: resize_glyphs.induct)
  case (1 n gs)
  then show ?case by (subst resize_glyphs.simps) auto
qed

lemma length_color [simp]: "length (color_glyph i c gs) = length gs"
  by (simp add: color_glyph_def)

lemma update_display_sel [simp]:
  "w_sequences (update_display E pos w) = w_sequences w"
  "w_timer (update_display E pos w) = w_timer w"
  "length (w_glyphs (update_display E pos w)) = (case w_sequences w of [] \<Rightarrow> 0 | sq # _ \<Rightarrow> length sq)"
  by (simp_all add: update_display_def Let_def split: list.split)

lemma wright_sequence_None:
  "fair pick \<Longrightarrow> wright_sequence pick c n pool = None \<longleftrightarrow> length pool < n"
proof (induction n arbitrary: c pool)
  case (Suc n)
  show ?case
  proof (cases "pool = []")
    case False
    then have "pick c (length pool) < length pool" using Suc.prems by (auto simp: fair_def)
    then show ?thesis using Suc by (auto simp: Let_def v_at_def length_v_erase)
  qed (simp add: Let_def v_at_def)
qed simp

lemma mset_v_erase: "k < length xs \<Longrightarrow> mset xs = add_mset (xs ! k) (mset (v_erase k xs))"
  unfolding v_erase_def by (metis id_take_nth_drop mset.simps(2) mset_append union_mset_add_mset_right)

lemma wright_sequence_Some:
  "wright_sequence pick c n pool = Some sq \<Longrightarrow> length sq = n \<and> mset sq \<subseteq># mset pool"
proof (induction n arbitrary: c pool sq)
  case (Suc n)
  then obtain g r where g: "v_at pool (pick c (length pool)) = Some g" "sq = g # r"
    "wright_sequence pick (Suc c) n (v_erase (pick c (length pool)) pool) = Some r"
    by (auto simp: Let_def split: option.splits)
  then have k: "pick c (length pool) < length pool" "pool ! pick c (length pool) = g"
    by (auto simp: v_at_def split: if_splits)
  then show ?case using Suc.IH [OF g(3)] g(2) mset_v_erase [OF k(1)] by simp
qed simp

lemma wright_sequences_None:
  "fair pick \<Longrightarrow> wright_sequences pick c (Suc i) n glyphs = None \<longleftrightarrow> length glyphs < n + 2 * i"
proof (induction i arbitrary: c n)
  case 0
  then show ?case using wright_sequence_None [of pick c n glyphs] by (auto split: option.split)
next
  case (Suc i)
  have "wright_sequences pick c (Suc (Suc i)) n glyphs = None \<longleftrightarrow>
      wright_sequence pick c n glyphs = None \<or> wright_sequences pick (c + n) (Suc i) (n + 2) glyphs = None"
    unfolding wright_sequences.simps(2) [of pick c "Suc i"] by (auto split: option.split simp del: wright_sequences.simps)
  also have "\<dots> \<longleftrightarrow> length glyphs < n \<or> length glyphs < n + 2 + 2 * i"
    unfolding Suc.IH [OF Suc.prems] wright_sequence_None [OF Suc.prems] ..
  finally show ?case by auto
qed

lemma wright_sequences_Some:
  "wright_sequences pick c i n glyphs = Some sqs \<Longrightarrow>
   map length sqs = map (\<lambda>j. n + 2 * j) [0..<i] \<and> list_all (\<lambda>sq. mset sq \<subseteq># mset glyphs) sqs"
proof (induction i arbitrary: c n sqs)
  case (Suc i)
  then obtain a r where r: "wright_sequence pick c n glyphs = Some a" "sqs = a # r"
    "wright_sequences pick (c + n) i (n + 2) glyphs = Some r"
    by (auto split: option.splits)
  have "[0..<Suc i] = 0 # map Suc [0..<i]" by (simp add: upt_conv_Cons map_Suc_upt del: upt_Suc)
  then show ?case using Suc.IH [OF r(3)] wright_sequence_Some [OF r(1)] r(2) by (simp del: upt_Suc)
qed simp

lemma wright_sequences_spec:
  assumes "fair pick"
  shows "wright_sequences pick 0 3 2 glyphs = None \<longleftrightarrow> length glyphs < 6"
    and "wright_sequences pick 0 3 2 glyphs = Some sqs \<Longrightarrow>
      map length sqs = [2, 4, 6] \<and> list_all (\<lambda>sq. mset sq \<subseteq># mset glyphs) sqs"
proof -
  show "wright_sequences pick 0 3 2 glyphs = None \<longleftrightarrow> length glyphs < 6"
    using wright_sequences_None [OF assms, of 0 2 2 glyphs] by (simp add: numeral_3_eq_3 del: wright_sequences.simps)
  show "wright_sequences pick 0 3 2 glyphs = Some sqs \<Longrightarrow>
      map length sqs = [2, 4, 6] \<and> list_all (\<lambda>sq. mset sq \<subseteq># mset glyphs) sqs"
    using wright_sequences_Some [of pick 0 3 2 glyphs sqs] by (simp add: numeral_3_eq_3)
qed

text \<open>Mr Wright as a lock: the sequences are not empty and the display is as long as the current
  one.\<close>

definition wright_ok :: "wright \<times> audio_manager \<Rightarrow> bool" where
  "wright_ok s \<longleftrightarrow> list_all (\<lambda>sq. sq \<noteq> []) (w_sequences (fst s)) \<and>
     (case w_sequences (fst s) of [] \<Rightarrow> True | sq # _ \<Rightarrow> length sq \<le> length (w_glyphs (fst s)))"

definition wright_touch ::
  "urho \<Rightarrow> (string \<Rightarrow> bool) \<Rightarrow> scene \<Rightarrow> vec3 \<Rightarrow> mat \<Rightarrow> wright \<times> audio_manager \<Rightarrow> wright \<times> audio_manager" where
  "wright_touch E loaded sc pos k s =
     (case wright_collision E loaded sc pos (person_node sc) k s of None \<Rightarrow> s | Some s' \<Rightarrow> s')"

lemma wright_touch_step:
  assumes "wright_ok s"
  shows "wright_collision E loaded sc pos (person_node sc) k s = Some (wright_touch E loaded sc pos k s) \<and>
    wright_ok (wright_touch E loaded sc pos k s) \<and>
    concat (w_sequences (fst (wright_touch E loaded sc pos k s))) = matched (concat (w_sequences (fst s))) k \<and>
    snd (wright_touch E loaded sc pos k s) =
      (if w_sequences (fst s) \<noteq> [] \<and> w_sequences (fst (wright_touch E loaded sc pos k s)) = []
       then am_play (wright_clips loaded) False (snd s) else snd s)"
proof (cases "w_sequences (fst s)")
  case Nil
  then show ?thesis using assms
    by (simp add: wright_touch_def wright_collision_def case_prod_beta)
next
  case (Cons sq later)
  then obtain x xs where sq: "sq = x # xs" using assms by (cases sq) (auto simp: wright_ok_def)
  have l: "Suc (length xs) \<le> length (w_glyphs (fst s))" using assms Cons sq by (simp add: wright_ok_def)
  have ok: "list_all (\<lambda>sq. sq \<noteq> []) later" using assms Cons by (simp add: wright_ok_def)
  show ?thesis
  proof (cases "k = x")
    case False
    then show ?thesis using assms Cons sq
      by (simp add: wright_touch_def wright_collision_def case_prod_beta)
  next
    case True
    have i: "length (w_glyphs (fst s)) - Suc (length xs) < length (w_glyphs (fst s))" using l by simp
    show ?thesis
    proof (cases later)
      case Nil
      then show ?thesis using Cons sq True l i ok
        by (simp add: wright_touch_def wright_collision_def case_prod_beta Let_def wright_ok_def)
    next
      case (Cons sq2 more)
      then obtain y ys where "sq2 = y # ys" using ok by (cases sq2) auto
      then show ?thesis using \<open>w_sequences (fst s) = sq # later\<close> sq True l i ok Cons
        by (simp add: wright_touch_def wright_collision_def case_prod_beta Let_def wright_ok_def)
    qed
  qed
qed

interpretation wright_lock: sequence_lock wright_ok "\<lambda>s. concat (w_sequences (fst s))"
  "wright_touch E loaded sc pos" for E loaded sc pos
  by unfold_locales (simp_all add: wright_touch_step)

text \<open>The wife as a lock.\<close>

definition wife_touch :: "scene \<Rightarrow> node \<Rightarrow> wife \<Rightarrow> wife" where
  "wife_touch sc terminal w = fst (wife_collision sc (person_node sc) terminal w)"

interpretation wife_lock: sequence_lock "\<lambda>_. True" wf_sequence "wife_touch sc" for sc
  by unfold_locales (auto simp: wife_touch_def wife_collision_def split: list.split)

text \<open>Touches of any nodes, through the handler itself.\<close>

fun wright_run ::
  "urho \<Rightarrow> (string \<Rightarrow> bool) \<Rightarrow> scene \<Rightarrow> vec3 \<Rightarrow> mat list \<Rightarrow> wright \<times> audio_manager \<Rightarrow> (wright \<times> audio_manager) option" where
  "wright_run E loaded sc pos [] s = Some s"
| "wright_run E loaded sc pos (k # ks) s =
     (case wright_collision E loaded sc pos (person_node sc) k s of
        None \<Rightarrow> None | Some s1 \<Rightarrow> wright_run E loaded sc pos ks s1)"

lemma wright_run_touches:
  "wright_ok s \<Longrightarrow> wright_run E loaded sc pos ks s = Some (foldl (\<lambda>s k. wright_touch E loaded sc pos k s) s ks)"
  by (induction ks arbitrary: s) (simp_all add: wright_touch_step)

lemma concat_empty: "list_all (\<lambda>sq. sq \<noteq> []) sqs \<Longrightarrow> concat sqs = [] \<longleftrightarrow> sqs = []"
  by (cases sqs) auto

lemma wright_audio:
  "wright_ok s \<Longrightarrow> snd (foldl (\<lambda>s k. wright_touch E loaded sc pos k s) s ks) =
     (if w_sequences (fst s) \<noteq> [] \<and> w_sequences (fst (foldl (\<lambda>s k. wright_touch E loaded sc pos k s) s ks)) = []
      then am_play (wright_clips loaded) False (snd s) else snd s)"
proof (induction ks arbitrary: s)
  case (Cons k ks)
  let ?s = "wright_touch E loaded sc pos k s"
  have st: "wright_ok ?s" "concat (w_sequences (fst ?s)) = matched (concat (w_sequences (fst s))) k"
    "snd ?s = (if w_sequences (fst s) \<noteq> [] \<and> w_sequences (fst ?s) = []
       then am_play (wright_clips loaded) False (snd s) else snd s)"
    using wright_touch_step [OF Cons.prems] by auto
  have "wright_ok (foldl (\<lambda>s k. wright_touch E loaded sc pos k s) ?s ks)" using st(1) by (rule wright_lock.touches_ok)
  moreover have "concat (w_sequences (fst (foldl (\<lambda>s k. wright_touch E loaded sc pos k s) ?s ks))) = []"
    if "w_sequences (fst ?s) = []"
    using wright_lock.touches_rest [OF st(1)] that wright_lock.matched_subseq [of "[]"] by simp
  moreover have "w_sequences (fst ?s) = []" if "w_sequences (fst s) = []"
    using st(1,2) that concat_empty [of "w_sequences (fst ?s)"] by (simp add: wright_ok_def)
  ultimately show ?case
    using Cons.IH [OF st(1)] st(3) concat_empty by (auto simp: wright_ok_def)
qed simp

section \<open>Properties\<close>

lemma wright_start_shape:
  assumes "fair pick" "wright_start E pick pos posters w = Some (w0, ts)"
  shows "map length (w_sequences w0) = [2, 4, 6] \<and> length (w_glyphs w0) = 2"
proof -
  obtain sqs where sqs: "wright_sequences pick 0 3 2 (map snd posters) = Some sqs"
    "w0 = update_display E pos (w\<lparr>w_sequences := sqs, w_glyphs := []\<rparr>)"
    using assms(2) by (auto simp: wright_start_def split: option.splits)
  then have "map length sqs = [2, 4, 6]" using wright_sequences_spec(2) [OF assms(1) sqs(1)] by simp
  then show ?thesis by (cases sqs) (auto simp: sqs(2))
qed

text \<open>C33. Mr Wright's puzzle is defined exactly when his room has at least six posters (with
  fewer he draws a glyph from an empty pool), and then consists of three sequences of 2, 4 and 6
  glyphs, none of which asks for the same poster twice.\<close>

theorem wright_start_defined:
  assumes "fair pick"
  shows "case wright_start E pick pos posters w of
      None \<Rightarrow> length posters < 6
    | Some (w', ts) \<Rightarrow> 6 \<le> length posters \<and> map length (w_sequences w') = [2, 4, 6] \<and>
        list_all (\<lambda>sq. mset sq \<subseteq># mset (map snd posters)) (w_sequences w') \<and>
        length (w_glyphs w') = 2 \<and> map in_target ts = map (fst \<circ> fst) posters"
proof (cases "wright_sequences pick 0 3 2 (map snd posters)")
  case None
  then show ?thesis using wright_sequences_spec(1) [OF assms, of "map snd posters"] by (simp add: wright_start_def)
next
  case (Some sqs)
  have "\<not> length posters < 6" using Some wright_sequences_spec(1) [OF assms, of "map snd posters"] by simp
  moreover have sq: "map length sqs = [2, 4, 6]" "list_all (\<lambda>sq. mset sq \<subseteq># mset (map snd posters)) sqs"
    using wright_sequences_spec(2) [OF assms Some] by auto
  moreover have "(case sqs of [] \<Rightarrow> 0 | sq # _ \<Rightarrow> length sq) = 2" using sq(1) by (cases sqs) auto
  ultimately show ?thesis
    by (auto simp: wright_start_def Some interaction_at_def case_prod_beta)
qed

text \<open>C34. Mr Wright's puzzle is solved exactly when the player has touched the glyphs of the
  three sequences in order, with any other touches in between: until then nothing happens, then
  his clips are queued, once, and with them the end of the level; no touch is undefined, whatever
  the posters show.\<close>

theorem wright_solved_iff:
  assumes "fair pick" "wright_start E pick pos posters w = Some (w0, ts)"
  shows "\<exists>w' am'. wright_run E loaded sc pos ks (w0, am) = Some (w', am') \<and>
    (w_sequences w' = [] \<longleftrightarrow> subseq (concat (w_sequences w0)) ks) \<and>
    am' = (if subseq (concat (w_sequences w0)) ks then am_play (wright_clips loaded) False am else am)"
proof -
  have w0: "map length (w_sequences w0) = [2, 4, 6]" "length (w_glyphs w0) = 2"
    using wright_start_shape [OF assms] by simp_all
  then have ok: "wright_ok (w0, am)"
    by (cases "w_sequences w0") (auto simp: wright_ok_def)
  let ?s = "foldl (\<lambda>s k. wright_touch E loaded sc pos k s) (w0, am) ks"
  have ok': "wright_ok ?s" using ok by (rule wright_lock.touches_ok)
  have "w_sequences (fst ?s) = [] \<longleftrightarrow> concat (w_sequences (fst ?s)) = []"
    using ok' concat_empty by (auto simp: wright_ok_def)
  also have "\<dots> \<longleftrightarrow> subseq (concat (w_sequences w0)) ks"
    using wright_lock.opens [OF ok, of E loaded sc pos ks] by simp
  finally have op: "w_sequences (fst ?s) = [] \<longleftrightarrow> subseq (concat (w_sequences w0)) ks" .
  have "snd ?s = (if subseq (concat (w_sequences w0)) ks then am_play (wright_clips loaded) False am else am)"
    using wright_audio [OF ok, of E loaded sc pos ks] w0(1) op by auto
  moreover obtain w' am' where "?s = (w', am')" by fastforce
  ultimately show ?thesis using wright_run_touches [OF ok, of E loaded sc pos ks] op by simp
qed

text \<open>C35. The order in which Mr Wright's posters are rearranged, and in which the wife's
  terminals must be touched, is a rearrangement of what there was, and every rearrangement can
  come up: the loop is a fair shuffle as far as the engine's random numbers are.\<close>

theorem shuffle_reaches_exactly_permutations:
  "(\<exists>pick. fair pick \<and> shuffle pick c (length xs) xs = ys) \<longleftrightarrow> mset ys = mset xs"
proof
  assume "\<exists>pick. fair pick \<and> shuffle pick c (length xs) xs = ys"
  then show "mset ys = mset xs" using shuffle_perm [of _ "length xs" xs c] by auto
next
  assume m: "mset ys = mset xs"
  then have "length ys = length xs" by (rule mset_eq_length)
  then show "\<exists>pick. fair pick \<and> shuffle pick c (length xs) xs = ys"
    using shuffle_complete [of "length xs" xs ys c] m by simp
qed

text \<open>C36. The last level is won, in the first frame in the wife's room, exactly when the player
  has touched all terminals of her room in her order, with any other touches in between; the
  terminals still to touch are what those touches have left. Entering the room shows the
  player's health.\<close>

theorem wife_beaten_iff:
  assumes "room_of E (world_pos sc self) = room_of E (person_pos sc)"
  shows "case wife_start E pick terminals w of (w0, ts, _) \<Rightarrow>
    case wife_update E sc dt self (foldl (\<lambda>w k. fst (wife_collision sc' (person_node sc') k w)) w0 ks, p) of
      ((w', p'), es) \<Rightarrow> p_showHealth p' \<and>
        es = (if subseq (wf_sequence w0) ks then [End_Level False True] else []) \<and>
        wf_sequence w' = foldl matched (wf_sequence w0) ks"
proof -
  have "wf_sequence (foldl (\<lambda>w k. wife_touch sc' k w) w0 ks) = foldl matched (wf_sequence w0) ks" for w0
    by (rule wife_lock.touches_rest) simp
  moreover have "wf_sequence (foldl (\<lambda>w k. wife_touch sc' k w) w0 ks) = [] \<longleftrightarrow> subseq (wf_sequence w0) ks" for w0
    by (rule wife_lock.opens) simp
  ultimately show ?thesis
    using assms by (simp add: wife_touch_def wife_update_def person_show_health_def Let_def split: prod.split)
qed

section \<open>Witnesses\<close>

definition wright0 :: wright where
  "wright0 = \<lparr>w_timer = 0, w_sequences = [], w_glyphs = []\<rparr>"

definition posters0 :: "((node \<times> vec3 \<times> quat) \<times> mat) list" where
  "posters0 = map (\<lambda>i. ((i, V3 (of_nat i) 0 0, quat0), 10 + i)) [0..<6]"

definition pick0 :: "nat \<Rightarrow> nat \<Rightarrow> nat" where
  "pick0 c n = 0"

lemma fair_pick0: "fair pick0"
  by (simp add: fair_def pick0_def)

lemma wright_start0:
  "\<exists>w0 ts. wright_start engine32 pick0 vec_ZERO posters0 wright0 = Some (w0, ts) \<and>
     concat (w_sequences w0) = [10, 11, 10, 11, 12, 13, 10, 11, 12, 13, 14, 15]"
proof -
  have "map snd posters0 = [10, 11, 12, 13, 14, 15]"
    by (simp add: posters0_def upt_rec)
  then have "wright_sequences pick0 0 3 2 (map snd posters0) =
      Some [[10, 11], [10, 11, 12, 13], [10, 11, 12, 13, 14, 15]]"
    by (simp add: numeral_eq_Suc pick0_def Let_def v_at_def)
  then show ?thesis by (simp add: wright_start_def wright0_def)
qed

theorem wright_start_defined_witness:
  "\<exists>w0 ts. wright_start engine32 pick0 vec_ZERO posters0 wright0 = Some (w0, ts) \<and>
     map length (w_sequences w0) = [2, 4, 6]"
  using wright_start_defined [OF fair_pick0, where E = engine32 and pos = vec_ZERO and posters = posters0 and w = wright0]
    wright_start0 by auto

theorem wright_solved_iff_witness:
  "\<exists>w0 ts. wright_start engine32 pick0 vec_ZERO posters0 wright0 = Some (w0, ts) \<and>
     (\<exists>w'. wright_run engine32 (\<lambda>_. True) scene0 vec_ZERO
         [10, 11, 15, 10, 11, 12, 13, 10, 11, 12, 13, 14, 15] (w0, am_new) =
       Some (w', am_play (wright_clips (\<lambda>_. True)) False am_new) \<and> w_sequences w' = [])"
proof -
  obtain w0 ts where w0: "wright_start engine32 pick0 vec_ZERO posters0 wright0 = Some (w0, ts)"
    "concat (w_sequences w0) = [10, 11, 10, 11, 12, 13, 10, 11, 12, 13, 14, 15]"
    using wright_start0 by blast
  have "subseq (concat (w_sequences w0)) [10, 11, 15, 10, 11, 12, 13, 10, 11, 12, 13, 14, 15]"
    by (simp add: w0(2))
  then show ?thesis
    using wright_solved_iff [OF fair_pick0 w0(1), where loaded = "\<lambda>_. True" and sc = scene0 and am = am_new
        and ks = "[10, 11, 15, 10, 11, 12, 13, 10, 11, 12, 13, 14, 15]"] w0(1)
    by (auto simp del: wright_run.simps)
qed

theorem wife_beaten_iff_witness:
  "snd (wife_update engine32 scene0 1 3
     (foldl (\<lambda>w k. fst (wife_collision scene0 3 k w))
        (fst (wife_start engine32 pick0 [(20, vec_ZERO, quat0), (21, vec_ZERO, quat0)]
           \<lparr>wf_sequence = [], wf_time = 0, wf_lit = []\<rparr>)) [20, 21, 20], person0)) = [End_Level False True]"
  using wife_beaten_iff [where E = engine32 and sc = scene0 and self = 3 and pick = pick0
      and terminals = "[(20, vec_ZERO, quat0), (21, vec_ZERO, quat0)]"
      and w = "\<lparr>wf_sequence = [], wf_time = 0, wf_lit = []\<rparr>" and dt = 1 and sc' = scene0
      and ks = "[20, 21, 20]" and p = person0]
  by (simp add: case_prod_beta wife_start_def Let_def pick0_def v_swap_def numeral_eq_Suc)

end
