(* ===== verification/World.thy ===== *)
theory World
  imports SceneTyping Throwing Door Interactables Lasers Bertha Sequences
begin

text \<open>
  The world of a running level: the components of a loaded scene together, with what they share, the
  player, the inventory, the audio manager and the guards. The components are those that the loader
  created, each made by its constructor and what the loader gives it (an XML element, waypoints, a
  queue, a trigger node), and started. A step is one call of the engine: the update of one component
  or a collision it is told of; which comes when is the engine's, so a run is any sequence of calls.
\<close>

section \<open>From the scene to its components\<close>

text \<open>Nodes are numbered in the order of the tree; beside its number a node has that of the top-level
  node it is in, which for the contents of a room is the room's.\<close>

definition numbered :: "level_scene \<Rightarrow> (node \<times> nat \<times> snode) list" where
  "numbered sc = enumerate 0 (concat (map (\<lambda>(k, t). map (Pair k) (all_nodes t)) (enumerate 0 (sc_nodes sc))))"

definition instances :: "string \<Rightarrow> (node \<Rightarrow> snode \<Rightarrow> comp \<Rightarrow> 'a) \<Rightarrow> level_scene \<Rightarrow> (node \<times> 'a) list" where
  "instances cls f sc =
     concat (map (\<lambda>(i, _, n). map (\<lambda>c. (i, f i n c)) (filter (\<lambda>c. cp_type c = cls) (sn_comps n))) (numbered sc))"

text \<open>What the loader passed to a component.\<close>

definition comp_xml :: "comp \<Rightarrow> xml" where
  "comp_xml c = (case map_of (cp_attrs c) ''LoadFromXML'' of Some (A_xml x) \<Rightarrow> x | _ \<Rightarrow> Xml [] [] [] [])"

definition comp_path :: "comp \<Rightarrow> vec3 list option" where
  "comp_path c = (case map_of (cp_attrs c) ''Waypoints'' of Some (A_path ws) \<Rightarrow> Some ws | _ \<Rightarrow> None)"

definition comp_zone :: "comp \<Rightarrow> audio_zone" where
  "comp_zone c = (case map_of (cp_attrs c) ''Queue'' of Some (A_zone z) \<Rightarrow> z | _ \<Rightarrow> az_new)"

text \<open>\<open>InteractableComponent::LoadFromXML\<close>, which the classes without one of their own inherit.\<close>

definition interactable_load :: "xml \<Rightarrow> 'a \<Rightarrow> 'a" where
  "interactable_load x a = a"

declare interactable_load_def [simp]

text \<open>The memory that the constructors leave as it is.\<close>

record memory =
  mem_person :: person
  mem_dirty :: bool
  mem_guard :: guard
  mem_padlock :: padlock
  mem_laser :: laser
  mem_camera :: security_camera
  mem_door :: door
  mem_bertha :: bertha
  mem_boss_laser :: boss_laser
  mem_wright :: wright
  mem_wife :: wife

definition pickup_new :: "node \<Rightarrow> snode \<Rightarrow> pickup" where
  "pickup_new i n = \<lparr>pk_item = \<lparr>i_node = i, i_type = [], i_name = []\<rparr>, pk_height = 0, pk_rot = sn_rot n, pk_pos = sn_pos n,
     pk_enabled = sn_enabled n, pk_component_on = True, pk_trigger = False, pk_keys = []\<rparr>"

definition make_pickup :: "urho \<Rightarrow> node \<Rightarrow> snode \<Rightarrow> comp \<Rightarrow> pickup" where
  "make_pickup E i n c = pickup_delayed_start E (pickup_load (comp_xml c) (pickup_new i n))"

definition make_guard :: "memory \<Rightarrow> node \<Rightarrow> snode \<Rightarrow> comp \<Rightarrow> guard" where
  "make_guard m i n c =
     (case comp_path c of None \<Rightarrow> guard_new (mem_guard m) | Some ws \<Rightarrow> guard_set_waypoints ws (guard_new (mem_guard m)))"

definition make_padlock :: "urho \<Rightarrow> real \<Rightarrow> memory \<Rightarrow> node \<Rightarrow> snode \<Rightarrow> comp \<Rightarrow> padlock" where
  "make_padlock E pr m i n c = padlock_start E pr (padlock_load E (comp_xml c) (padlock_new (mem_padlock m)))"

definition make_laser :: "urho \<Rightarrow> memory \<Rightarrow> node \<Rightarrow> snode \<Rightarrow> comp \<Rightarrow> laser" where
  "make_laser E m i n c = laser_start (laser_load E (comp_xml c) (laser_new (mem_laser m)))"

definition make_camera :: "memory \<Rightarrow> node \<Rightarrow> snode \<Rightarrow> comp \<Rightarrow> security_camera" where
  "make_camera m i n c = sec_start (interactable_load (comp_xml c) ((sec_new (mem_camera m))\<lparr>s_rot := sn_rot n\<rparr>))"

text \<open>The trigger of a door is the node that the loader creates after the door's.\<close>

definition make_door :: "memory \<Rightarrow> node \<Rightarrow> snode \<Rightarrow> comp \<Rightarrow> door" where
  "make_door m i n c =
     (case map_of (cp_attrs c) ''TriggerNode'' of None \<Rightarrow> door_new (mem_door m)
      | Some _ \<Rightarrow> set_trigger_node (Some (Suc i)) (door_new (mem_door m)))"

definition make_bertha :: "urho \<Rightarrow> memory \<Rightarrow> node \<Rightarrow> snode \<Rightarrow> comp \<Rightarrow> bertha" where
  "make_bertha E m i n c = bertha_start E (interactable_load (comp_xml c) (bertha_new (mem_bertha m)))"

definition make_boss_laser :: "urho \<Rightarrow> memory \<Rightarrow> node \<Rightarrow> snode \<Rightarrow> comp \<Rightarrow> boss_laser" where
  "make_boss_laser E m i n c = boss_laser_start (boss_laser_load E (comp_xml c) (boss_laser_new (mem_boss_laser m)))"

text \<open>A poster is its material, a number for each resource; \<open>mat\<close> numbers them.\<close>

definition make_poster :: "(string option \<Rightarrow> mat) \<Rightarrow> node \<Rightarrow> snode \<Rightarrow> comp \<Rightarrow> mat" where
  "make_poster mat i n c =
     mat (case find (\<lambda>k. cp_type k = ''StaticModel'') (sn_comps n) of
            None \<Rightarrow> None
          | Some k \<Rightarrow> (case map_of (cp_attrs k) ''Material'' of Some (A_res r) \<Rightarrow> r | _ \<Rightarrow> None))"

definition make_wright :: "memory \<Rightarrow> node \<Rightarrow> snode \<Rightarrow> comp \<Rightarrow> wright" where
  "make_wright m i n c = interactable_load (comp_xml c) ((mem_wright m)\<lparr>w_sequences := [], w_glyphs := []\<rparr>)"

definition make_wife :: "memory \<Rightarrow> node \<Rightarrow> snode \<Rightarrow> comp \<Rightarrow> wife" where
  "make_wife m i n c = interactable_load (comp_xml c) ((mem_wife m)\<lparr>wf_sequence := []\<rparr>)"

section \<open>The world\<close>

text \<open>\<open>wd_room\<close>: the room of a node; \<open>wd_ids\<close>: the nodes with a pickup; \<open>wd_thrown\<close>: the pickups in the
  air or on the ground after a throw; \<open>wd_posters\<close>: the posters with the materials they show;
  \<open>wd_terminals\<close>, \<open>wd_stairs\<close>: the terminals and the stairs; \<open>wd_started\<close>, \<open>wd_wife_started\<close>: whose \<open>DelayedStart\<close> has been called, of
  Mr Wright and the wife, who draw their puzzles in it (the other components are started when the
  world begins).\<close>

record world =
  wd_room :: "node \<Rightarrow> nat option"
  wd_person :: person
  wd_inv :: inventory
  wd_audio :: audio_manager
  wd_ids :: "node list"
  wd_pickup :: "node \<Rightarrow> pickup"
  wd_thrown :: "thrown list"
  wd_guards :: "(node \<times> guard) list"
  wd_padlocks :: "(node \<times> padlock) list"
  wd_lasers :: "(node \<times> laser) list"
  wd_cameras :: "(node \<times> security_camera) list"
  wd_doors :: "(node \<times> door) list"
  wd_zones :: "(node \<times> audio_zone) list"
  wd_berthas :: "(node \<times> bertha) list"
  wd_boss_lasers :: "(node \<times> boss_laser) list"
  wd_wrights :: "(node \<times> wright) list"
  wd_posters :: "(node \<times> mat) list"
  wd_wives :: "(node \<times> wife) list"
  wd_terminals :: "(node \<times> unit) list"
  wd_stairs :: "(node \<times> unit) list"
  wd_started :: "node set"
  wd_wife_started :: "node set"

definition blank_pickup :: "node \<Rightarrow> pickup" where
  "blank_pickup i = \<lparr>pk_item = \<lparr>i_node = i, i_type = [], i_name = []\<rparr>, pk_height = 0, pk_rot = q_IDENTITY, pk_pos = vec_ZERO,
     pk_enabled = False, pk_component_on = False, pk_trigger = False, pk_keys = []\<rparr>"

definition new_world :: "urho \<Rightarrow> real \<Rightarrow> int \<Rightarrow> (string option \<Rightarrow> mat) \<Rightarrow> memory \<Rightarrow> level_scene \<Rightarrow> world" where
  "new_world E pr panel mat m sc =
     (let pickups = instances ''Pickup'' (make_pickup E) sc in
      \<lparr>wd_room = map_of (map (\<lambda>(i, k, _). (i, k)) (numbered sc)),
       wd_person = person_new (mem_person m), wd_inv = inv_delayed_start panel (inv_new (mem_dirty m)), wd_audio = am_new,
       wd_ids = map fst pickups,
       wd_pickup = (\<lambda>i. case map_of pickups i of None \<Rightarrow> blank_pickup i | Some p \<Rightarrow> p),
       wd_thrown = [],
       wd_guards = instances ''Guard'' (make_guard m) sc,
       wd_padlocks = instances ''Padlock'' (make_padlock E pr m) sc,
       wd_lasers = instances ''Laser'' (make_laser E m) sc,
       wd_cameras = instances ''SecurityCamera'' (make_camera m) sc,
       wd_doors = instances ''Door'' (make_door m) sc,
       wd_zones = instances ''AudioZone'' (\<lambda>_ _ c. comp_zone c) sc,
       wd_berthas = instances ''BossBertha'' (make_bertha E m) sc,
       wd_boss_lasers = instances ''BossLaser'' (make_boss_laser E m) sc,
       wd_wrights = instances ''MrWright'' (make_wright m) sc,
       wd_posters = instances ''InteractablePoster'' (make_poster mat) sc,
       wd_wives = instances ''Wife'' (make_wife m) sc,
       wd_terminals = instances ''Terminal'' (\<lambda>_ _ _. ()) sc,
       wd_stairs = instances ''Stairs'' (\<lambda>_ _ _. ()) sc,
       wd_started = {},
       wd_wife_started = {}\<rparr>)"

section \<open>Steps\<close>

definition upd :: "node \<Rightarrow> 'a \<Rightarrow> (node \<times> 'a) list \<Rightarrow> (node \<times> 'a) list" where
  "upd n a xs = map (\<lambda>(m, b). (m, if m = n then a else b)) xs"

definition drop_node :: "node \<Rightarrow> (node \<times> 'a) list \<Rightarrow> (node \<times> 'a) list" where
  "drop_node n xs = filter (\<lambda>(m, _). m \<noteq> n) xs"

definition put_back :: "(node \<times> 'a) list \<Rightarrow> (node \<times> 'a) list \<Rightarrow> (node \<times> 'a) list" where
  "put_back new xs = map (\<lambda>(m, b). (m, case map_of new m of None \<Rightarrow> b | Some a \<Rightarrow> a)) xs"

text \<open>\<open>roomNode->GetChildrenWithComponent<Guard>\<close>; the posters and the terminals of a room.\<close>

definition in_room :: "world \<Rightarrow> node \<Rightarrow> (node \<times> 'a) list \<Rightarrow> (node \<times> 'a) list" where
  "in_room w n xs = filter (\<lambda>(g, _). wd_room w g = wd_room w n) xs"

definition room_guards :: "world \<Rightarrow> node \<Rightarrow> (node \<times> guard) list" where
  "room_guards w n = in_room w n (wd_guards w)"

datatype world_event =
    Ev_Person real person_in
  | Ev_Inventory real "bool option" bool
  | Ev_Throw "bool option" bool self_destroy vec3 vec3
  | Ev_Pickup node real "node list" "vec3 \<Rightarrow> vec3"
  | Ev_Fuse node real
  | Ev_Landed node bool
  | Ev_Padlock node "real \<times> real" int int
  | Ev_Guard node real real quat
  | Ev_Guard_Touch node node
  | Ev_Laser node real "room_light list"
  | Ev_Laser_Touch node node bool
  | Ev_Camera node real
  | Ev_Door_Touch node node vec3 vec3
  | Ev_Door_Leave node node
  | Ev_Zone node node
  | Ev_Audio real bool
  | Ev_Stairs node
  | Ev_Bertha node real real
  | Ev_Bertha_Touch node node
  | Ev_Boss_Laser node real
  | Ev_Boss_Laser_Touch node node
  | Ev_Wright_Start node "nat \<Rightarrow> nat \<Rightarrow> nat" "node \<Rightarrow> quat"
  | Ev_Wright node "nat \<Rightarrow> nat \<Rightarrow> nat" nat real
  | Ev_Wright_Touch node node node
  | Ev_Wife_Start node "nat \<Rightarrow> nat \<Rightarrow> nat" "node \<Rightarrow> quat"
  | Ev_Wife node real
  | Ev_Wife_Touch node node node

text \<open>The calls, one at a time; a call for a node without the component does nothing, and the engine
  calls \<open>Update\<close> after \<open>DelayedStart\<close> only. The last node of a
  touch of Mr Wright or the wife is the poster or the terminal before which the trigger stands.\<close>

fun world_step :: "urho \<Rightarrow> (string \<Rightarrow> bool) \<Rightarrow> scene \<Rightarrow> world_event \<Rightarrow> world \<Rightarrow> (world \<times> effect list) option" where
  "world_step E loaded sc (Ev_Person dt inp) w =
     map_option (\<lambda>(p, es). (w\<lparr>wd_person := p\<rparr>, es)) (person_update E sc dt inp (wd_person w))"
| "world_step E loaded sc (Ev_Inventory pr joyTab keyTab) w =
     Some (w\<lparr>wd_inv := inventory_update E pr joyTab keyTab (wd_inv w)\<rparr>, [])"
| "world_step E loaded sc (Ev_Throw joyThrow keyT fresh com nodeScale) w =
     (case thrower_update E joyThrow keyT (person_pos sc) (p_direction (wd_person w)) fresh com nodeScale (wd_inv w, wd_pickup w) of
        ((iv, pk), t, es) \<Rightarrow>
          Some (w\<lparr>wd_inv := iv, wd_pickup := pk, wd_thrown := wd_thrown w @ (case t of None \<Rightarrow> [] | Some x \<Rightarrow> [x])\<rparr>, es))"
| "world_step E loaded sc (Ev_Pickup n dt colliders toWorld) w =
     (if n \<in> set (wd_ids w) \<and> pk_enabled (wd_pickup w n) \<and> pk_component_on (wd_pickup w n)
      then (case pickup_update E sc dt colliders toWorld (wd_pickup w n) (wd_inv w) of
              (p, iv, es) \<Rightarrow> Some (w\<lparr>wd_inv := iv, wd_pickup := (wd_pickup w)(n := p)\<rparr>, es))
      else Some (w, []))"
| "world_step E loaded sc (Ev_Fuse n dt) w =
     (case find (\<lambda>t. th_node t = n) (wd_thrown w) of
        None \<Rightarrow> Some (w, [])
      | Some t \<Rightarrow>
          (case sd_update E dt n (world_pos sc n) (th_destroy t) of
             (d, es) \<Rightarrow>
               Some (w\<lparr>wd_thrown := (if Remove_Node n \<in> set es then filter (\<lambda>x. th_node x \<noteq> n) (wd_thrown w)
                                    else map (\<lambda>x. if th_node x = n then x\<lparr>th_destroy := d\<rparr> else x) (wd_thrown w))\<rparr>, es)))"
| "world_step E loaded sc (Ev_Landed n playing) w =
     (if n \<in> th_node ` set (wd_thrown w)
      then (case thrown_collision E sc n playing (wd_guards w) of (gs, es) \<Rightarrow> Some (w\<lparr>wd_guards := gs\<rparr>, es))
      else Some (w, []))"
| "world_step E loaded sc (Ev_Padlock n screen gw gh) w =
     (case map_of (wd_padlocks w) n of
        None \<Rightarrow> Some (w, [])
      | Some l \<Rightarrow>
          map_option
            (\<lambda>(l', es). (w\<lparr>wd_padlocks := (if Remove_Node n \<in> set es then drop_node n (wd_padlocks w) else upd n l' (wd_padlocks w))\<rparr>, es))
            (padlock_update E sc n screen gw gh (wd_inv w) l))"
| "world_step E loaded sc (Ev_Guard n dt camYaw lightWorld) w =
     (case map_of (wd_guards w) n of
        None \<Rightarrow> Some (w, [])
      | Some g \<Rightarrow> map_option (\<lambda>g'. (w\<lparr>wd_guards := upd n g' (wd_guards w)\<rparr>, [])) (guard_update E sc dt camYaw lightWorld n g))"
| "world_step E loaded sc (Ev_Guard_Touch n other) w =
     (if n \<in> fst ` set (wd_guards w) then Some (w, guard_collision sc other) else Some (w, []))"
| "world_step E loaded sc (Ev_Laser n dt lights) w =
     (case map_of (wd_lasers w) n of
        None \<Rightarrow> Some (w, [])
      | Some l \<Rightarrow> (case laser_update E dt l lights of (l', _, es) \<Rightarrow> Some (w\<lparr>wd_lasers := upd n l' (wd_lasers w)\<rparr>, es)))"
| "world_step E loaded sc (Ev_Laser_Touch n other playing) w =
     (case map_of (wd_lasers w) n of
        None \<Rightarrow> Some (w, [])
      | Some l \<Rightarrow>
          (case laser_collision sc other playing l (room_guards w n) of
             (l', gs, es) \<Rightarrow> Some (w\<lparr>wd_lasers := upd n l' (wd_lasers w), wd_guards := put_back gs (wd_guards w)\<rparr>, es)))"
| "world_step E loaded sc (Ev_Camera n dt) w =
     (case map_of (wd_cameras w) n of
        None \<Rightarrow> Some (w, [])
      | Some c \<Rightarrow>
          (case sec_update E sc dt n c (room_guards w n) of
             (c', gs) \<Rightarrow> Some (w\<lparr>wd_cameras := upd n c' (wd_cameras w), wd_guards := put_back gs (wd_guards w)\<rparr>, [])))"
| "world_step E loaded sc (Ev_Door_Touch n other personLocal doorway) w =
     (case map_of (wd_doors w) n of
        None \<Rightarrow> Some (w, [])
      | Some d \<Rightarrow>
          (case door_start E sc other personLocal doorway d (wd_person w) of
             (d', p, es) \<Rightarrow> Some (w\<lparr>wd_doors := upd n d' (wd_doors w), wd_person := p\<rparr>, es)))"
| "world_step E loaded sc (Ev_Door_Leave n other) w =
     (case map_of (wd_doors w) n of
        None \<Rightarrow> Some (w, [])
      | Some d \<Rightarrow> (case door_end sc other d of (d', es) \<Rightarrow> Some (w\<lparr>wd_doors := upd n d' (wd_doors w)\<rparr>, es)))"
| "world_step E loaded sc (Ev_Zone n other) w =
     (case map_of (wd_zones w) n of
        None \<Rightarrow> Some (w, [])
      | Some z \<Rightarrow>
          (case az_collision sc other z (wd_audio w) of
             (z', am) \<Rightarrow> Some (w\<lparr>wd_audio := am,
                wd_zones := (if az_removed z' then drop_node n (wd_zones w) else upd n z' (wd_zones w))\<rparr>, [])))"
| "world_step E loaded sc (Ev_Audio dt playing) w =
     (case am_scene_update E dt playing (wd_audio w) of (am, es) \<Rightarrow> Some (w\<lparr>wd_audio := am\<rparr>, es))"
| "world_step E loaded sc (Ev_Stairs n) w =
     (if n \<in> fst ` set (wd_stairs w) then Some (w, stairs_update E sc n) else Some (w, []))"
| "world_step E loaded sc (Ev_Bertha n dt camYaw) w =
     (case map_of (wd_berthas w) n of
        None \<Rightarrow> Some (w, [])
      | Some b \<Rightarrow>
          (case bertha_update E sc dt camYaw n (b, wd_person w) of
             (b', p) \<Rightarrow> Some (w\<lparr>wd_berthas := upd n b' (wd_berthas w), wd_person := p\<rparr>, [])))"
| "world_step E loaded sc (Ev_Bertha_Touch n other) w =
     (if n \<in> fst ` set (wd_berthas w) then Some (w, bertha_collision sc other) else Some (w, []))"
| "world_step E loaded sc (Ev_Boss_Laser n dt) w =
     (case map_of (wd_boss_lasers w) n of
        None \<Rightarrow> Some (w, [])
      | Some l \<Rightarrow> Some (w\<lparr>wd_boss_lasers := upd n (boss_laser_update E dt l) (wd_boss_lasers w)\<rparr>, []))"
| "world_step E loaded sc (Ev_Boss_Laser_Touch n other) w =
     (case map_of (wd_boss_lasers w) n of
        None \<Rightarrow> Some (w, [])
      | Some l \<Rightarrow>
          (case map_of (wd_berthas w) other of
             None \<Rightarrow>
               (case boss_laser_collision E loaded sc other False l (wd_person w, bertha0, wd_audio w) of
                  ((p, _, am), es) \<Rightarrow> Some (w\<lparr>wd_person := p, wd_audio := am\<rparr>, es))
           | Some b \<Rightarrow>
               (case boss_laser_collision E loaded sc other True l (wd_person w, b, wd_audio w) of
                  ((p, b', am), es) \<Rightarrow>
                    Some (w\<lparr>wd_person := p, wd_berthas := upd other b' (wd_berthas w), wd_audio := am\<rparr>, es))))"
| "world_step E loaded sc (Ev_Wright_Start n pick rot) w =
     (case map_of (wd_wrights w) n of
        None \<Rightarrow> Some (w, [])
      | Some r \<Rightarrow>
          if n \<in> wd_started w then Some (w, [])
          else map_option (\<lambda>(r', _). (w\<lparr>wd_wrights := upd n r' (wd_wrights w), wd_started := insert n (wd_started w)\<rparr>, []))
                 (wright_start E pick (world_pos sc n)
                    (map (\<lambda>(p, k). ((p, world_pos sc p, rot p), k)) (in_room w n (wd_posters w))) r))"
| "world_step E loaded sc (Ev_Wright n pick c dt) w =
     (case map_of (wd_wrights w) n of
        None \<Rightarrow> Some (w, [])
      | Some r \<Rightarrow>
          if n \<notin> wd_started w then Some (w, [])
          else (case wright_update E pick c dt (r, map snd (in_room w n (wd_posters w))) of
             (r', ks) \<Rightarrow> Some (w\<lparr>wd_wrights := upd n r' (wd_wrights w),
                wd_posters := put_back (zip (map fst (in_room w n (wd_posters w))) ks) (wd_posters w)\<rparr>, [])))"
| "world_step E loaded sc (Ev_Wright_Touch n other poster) w =
     (case (map_of (wd_wrights w) n, map_of (wd_posters w) poster) of
        (Some r, Some k) \<Rightarrow>
          map_option (\<lambda>(r', am). (w\<lparr>wd_wrights := upd n r' (wd_wrights w), wd_audio := am\<rparr>, []))
            (wright_collision E loaded sc (world_pos sc n) other k (r, wd_audio w))
      | _ \<Rightarrow> Some (w, []))"
| "world_step E loaded sc (Ev_Wife_Start n pick rot) w =
     (case map_of (wd_wives w) n of
        None \<Rightarrow> Some (w, [])
      | Some f \<Rightarrow>
          if n \<in> wd_wife_started w then Some (w, [])
          else (case wife_start E pick (map (\<lambda>(t, _). (t, world_pos sc t, rot t)) (in_room w n (wd_terminals w))) f of
                  (f', _, es) \<Rightarrow> Some (w\<lparr>wd_wives := upd n f' (wd_wives w), wd_wife_started := insert n (wd_wife_started w)\<rparr>, es)))"
| "world_step E loaded sc (Ev_Wife n dt) w =
     (case map_of (wd_wives w) n of
        None \<Rightarrow> Some (w, [])
      | Some f \<Rightarrow>
          if n \<notin> wd_wife_started w then Some (w, [])
          else (case wife_update E sc dt n (f, wd_person w) of
             ((f', p), es) \<Rightarrow> Some (w\<lparr>wd_wives := upd n f' (wd_wives w), wd_person := p\<rparr>, es)))"
| "world_step E loaded sc (Ev_Wife_Touch n other terminal) w =
     (case map_of (wd_wives w) n of
        None \<Rightarrow> Some (w, [])
      | Some f \<Rightarrow> (case wife_collision sc other terminal f of (f', es) \<Rightarrow> Some (w\<lparr>wd_wives := upd n f' (wd_wives w)\<rparr>, es)))"

text \<open>A run: what the engine calls, each time with the scene as it is then.\<close>

fun world_run :: "urho \<Rightarrow> (string \<Rightarrow> bool) \<Rightarrow> (scene \<times> world_event) list \<Rightarrow> world \<Rightarrow> (world \<times> effect list) option" where
  "world_run E loaded [] w = Some (w, [])"
| "world_run E loaded ((sc, ev) # evs) w =
     (case world_step E loaded sc ev w of
        None \<Rightarrow> None
      | Some (w1, es) \<Rightarrow> map_option (\<lambda>(w2, fs). (w2, es @ fs)) (world_run E loaded evs w1))"

section \<open>Invariants\<close>

text \<open>What every call keeps, every run keeps; the calls may be restricted.\<close>

locale kept_by_allowed =
  fixes E :: urho and loaded :: "string \<Rightarrow> bool" and allowed :: "scene \<times> world_event \<Rightarrow> bool" and keeps :: "world \<Rightarrow> bool"
  assumes allowed_step: "keeps w \<Longrightarrow> allowed (sc, ev) \<Longrightarrow> world_step E loaded sc ev w = Some (w', es) \<Longrightarrow> keeps w'"
begin

lemma allowed_run: "keeps w \<Longrightarrow> list_all allowed evs \<Longrightarrow> world_run E loaded evs w = Some (w', es) \<Longrightarrow> keeps w'"
proof (induction evs arbitrary: w es)
  case (Cons ev evs)
  from Cons.prems(3) obtain w1 es1 es2 where "world_step E loaded (fst ev) (snd ev) w = Some (w1, es1)"
    "world_run E loaded evs w1 = Some (w', es2)"
    by (cases ev) (auto split: option.splits)
  then show ?case using Cons.IH allowed_step [of w "fst ev" "snd ev"] Cons.prems(1,2) by simp
qed simp

end

locale kept_by_calls =
  fixes E :: urho and loaded :: "string \<Rightarrow> bool" and keeps :: "world \<Rightarrow> bool"
  assumes step: "keeps w \<Longrightarrow> world_step E loaded sc ev w = Some (w', es) \<Longrightarrow> keeps w'"

sublocale kept_by_calls \<subseteq> any: kept_by_allowed E loaded "\<lambda>_. True" keeps
  by unfold_locales (rule step)

context kept_by_calls
begin

lemma run: "keeps w \<Longrightarrow> world_run E loaded evs w = Some (w', es) \<Longrightarrow> keeps w'"
  using any.allowed_run [of w evs w' es] by (simp add: list_all_iff)

end

text \<open>Guards that have waypoints, padlocks that have their panel, sequences of Mr Wright that can be
  touched: nothing in the world is stuck.\<close>

definition walks :: "(node \<times> guard) list \<Rightarrow> bool" where
  "walks gs \<longleftrightarrow> (\<forall>x \<in> set gs. g_waypoints (snd x) \<noteq> [])"

definition drawn :: "(node \<times> wright) list \<Rightarrow> bool" where
  "drawn rs \<longleftrightarrow> (\<forall>x \<in> set rs. wright_ok (snd x, am_new))"

definition live :: "world \<Rightarrow> bool" where
  "live w \<longleftrightarrow> walks (wd_guards w) \<and> (\<forall>x \<in> set (wd_padlocks w). pl_panel (snd x) \<noteq> None) \<and> drawn (wd_wrights w)"

lemma set_upd: "x \<in> set (upd n a xs) \<Longrightarrow> x = (n, a) \<or> x \<in> set xs"
  by (auto simp: upd_def split: if_splits)

lemma set_drop: "x \<in> set (drop_node n xs) \<longleftrightarrow> x \<in> set xs \<and> fst x \<noteq> n"
  by (auto simp: drop_node_def)

lemma set_put_back: "x \<in> set (put_back new xs) \<Longrightarrow> x \<in> set new \<or> x \<in> set xs"
  by (auto simp: put_back_def split: option.splits dest: map_of_SomeD)

lemma walks_upd: "walks gs \<Longrightarrow> g_waypoints g \<noteq> [] \<Longrightarrow> walks (upd n g gs)"
  by (auto simp: walks_def dest: set_upd)

lemma walks_put_back: "walks new \<Longrightarrow> walks gs \<Longrightarrow> walks (put_back new gs)"
  by (auto simp: walks_def dest: set_put_back)

lemma walks_room: "walks (wd_guards w) \<Longrightarrow> walks (room_guards w n)"
  by (auto simp: walks_def room_guards_def in_room_def)

lemma walks_send: "walks gs \<Longrightarrow> walks (send_guards sc gs)"
  by (auto simp: walks_def send_guards_def guard_set_path_def)

lemma walks_distract: "walks gs \<Longrightarrow> walks (distract_guards E sc n gs)"
  by (auto simp: walks_def distract_guards_def Let_def guard_heard_sound_def split: if_splits)

lemma walks_laser: "walks gs \<Longrightarrow> laser_collision sc other playing l gs = (l', gs', es) \<Longrightarrow> walks gs'"
  by (auto simp: laser_collision_def walks_send split: if_splits)

lemma walks_camera: "walks gs \<Longrightarrow> sec_update E sc dt n c gs = (c', gs') \<Longrightarrow> walks gs'"
  by (auto simp: sec_update_def sec_search_def Let_def walks_send split: if_splits prod.splits option.splits)

lemma walks_guard: "map_of gs n = Some g \<Longrightarrow> walks gs \<Longrightarrow> g_waypoints g \<noteq> []"
  by (auto simp: walks_def dest!: map_of_SomeD)

lemma wright_ok_audio: "wright_ok (r, am) = wright_ok (r, am')"
  by (simp add: wright_ok_def split: list.split)

lemma drawn_get: "map_of rs n = Some r \<Longrightarrow> drawn rs \<Longrightarrow> wright_ok (r, am)"
  by (auto simp: drawn_def wright_ok_audio [of r am am_new] dest!: map_of_SomeD)

lemma drawn_upd: "drawn rs \<Longrightarrow> wright_ok (r, am) \<Longrightarrow> drawn (upd n r rs)"
  by (auto simp: drawn_def wright_ok_audio [of r am am_new] dest: set_upd)

lemma wright_touched:
  assumes "wright_ok (r, am)"
  shows "\<exists>r' am'. wright_collision E loaded sc pos other k (r, am) = Some (r', am') \<and> wright_ok (r', am')"
proof (cases "other = person_node sc")
  case True
  then show ?thesis using wright_touch_step [OF assms, of E loaded sc pos k]
    by (cases "wright_touch E loaded sc pos k (r, am)") simp
next
  case False
  then show ?thesis using assms by (auto simp: wright_collision_def split: list.split)
qed

lemma wright_started:
  assumes "wright_start E pick pos posters r = Some (r', ins)"
  shows "wright_ok (r', am)"
proof -
  obtain sqs where q: "wright_sequences pick 0 3 2 (map snd posters) = Some sqs"
    and r': "r' = update_display E pos (r\<lparr>w_sequences := sqs, w_glyphs := []\<rparr>)"
    using assms by (auto simp: wright_start_def split: option.splits)
  have "map length sqs = [2, 4, 6]" using wright_sequences_Some [OF q] by (simp add: numeral_3_eq_3)
  then have "list_all (\<lambda>sq. sq \<noteq> []) sqs" by (auto simp: map_eq_Cons_conv)
  then show ?thesis by (simp add: r' wright_ok_def split: list.split)
qed

lemma wright_updated: "wright_update E pick c dt (r, ks) = (r', ks') \<Longrightarrow> wright_ok (r, am) \<Longrightarrow> wright_ok (r', am)"
  by (auto simp: wright_update_def wright_ok_def Let_def split: if_splits list.splits)

lemma padlock_update_panel:
  "padlock_update E sc n screen gw gh iv l = Some (l', es) \<Longrightarrow> Remove_Node n \<notin> set es \<Longrightarrow> pl_panel l' \<noteq> None"
  by (auto simp: padlock_update_def Let_def split: option.splits if_splits prod.splits)

lemma live_step:
  assumes "live w" "world_step E loaded sc ev w = Some (w', es)"
  shows "live w'"
proof (cases ev)
  case (Ev_Guard n dt yaw lw)
  then show ?thesis using assms
    by (auto simp: live_def walks_upd dest: walks_guard dest!: guard_update_frame split: option.splits)
next
  case (Ev_Padlock n screen gw gh)
  show ?thesis
  proof (cases "map_of (wd_padlocks w) n")
    case None
    then show ?thesis using assms Ev_Padlock by simp
  next
    case (Some l)
    then obtain l' where u: "padlock_update E sc n screen gw gh (wd_inv w) l = Some (l', es)"
      and w': "w' = w\<lparr>wd_padlocks := (if Remove_Node n \<in> set es then drop_node n (wd_padlocks w) else upd n l' (wd_padlocks w))\<rparr>"
      using assms(2) Ev_Padlock by auto
    show ?thesis using assms(1) padlock_update_panel [OF u] unfolding w'
      by (auto simp: live_def set_drop dest: set_upd)
  qed
next
  case (Ev_Laser_Touch n other playing)
  then show ?thesis using assms
    by (auto simp: live_def intro!: walks_put_back dest: walks_laser [OF walks_room] split: option.splits prod.splits)
next
  case (Ev_Camera n dt)
  then show ?thesis using assms
    by (auto simp: live_def intro!: walks_put_back dest: walks_camera [OF walks_room] split: option.splits prod.splits)
next
  case (Ev_Landed n playing)
  then show ?thesis using assms by (auto simp: live_def thrown_collision_def walks_distract split: if_splits)
next
  case (Ev_Wright_Start n pick rot)
  show ?thesis
  proof (cases "w' = w")
    case False
    then obtain r r' ins where "wright_start E pick (world_pos sc n)
        (map (\<lambda>(p, k). ((p, world_pos sc p, rot p), k)) (in_room w n (wd_posters w))) r = Some (r', ins)"
      "w' = w\<lparr>wd_wrights := upd n r' (wd_wrights w), wd_started := insert n (wd_started w)\<rparr>"
      using assms(2) Ev_Wright_Start by (auto split: option.splits if_splits)
    then show ?thesis using assms(1) drawn_upd [OF _ wright_started, of "wd_wrights w"] by (simp add: live_def)
  qed (use assms in simp)
next
  case (Ev_Wright n pick c dt)
  show ?thesis
  proof (cases "map_of (wd_wrights w) n")
    case (Some r)
    obtain r' ks where u: "wright_update E pick c dt (r, map snd (in_room w n (wd_posters w))) = (r', ks)" by (rule prod.exhaust)
    have "wright_ok (r', am_new)" using wright_updated [OF u drawn_get [OF Some]] assms(1) by (simp add: live_def)
    then show ?thesis using assms Ev_Wright Some u drawn_upd [of "wd_wrights w" r' am_new n]
      by (cases "n \<in> wd_started w") (auto simp: live_def)
  qed (use assms Ev_Wright in simp)
next
  case (Ev_Wright_Touch n other poster)
  show ?thesis
  proof (cases "map_of (wd_wrights w) n")
    case (Some r)
    have ok: "wright_ok (r, wd_audio w)" using drawn_get [OF Some] assms(1) by (simp add: live_def)
    show ?thesis
    proof (cases "map_of (wd_posters w) poster")
      case (Some k)
      obtain r' am where "wright_collision E loaded sc (world_pos sc n) other k (r, wd_audio w) = Some (r', am)" "wright_ok (r', am)"
        using wright_touched [OF ok] by blast
      then show ?thesis using assms Ev_Wright_Touch Some \<open>map_of (wd_wrights w) n = Some r\<close> drawn_upd [of "wd_wrights w" r' am n]
        by (auto simp: live_def)
    qed (use assms Ev_Wright_Touch Some in simp)
  qed (use assms Ev_Wright_Touch in simp)
qed (use assms in \<open>force simp: live_def split: option.splits prod.splits if_splits\<close>)+

interpretation live: kept_by_calls E loaded live for E loaded
  by unfold_locales (rule live_step)

text \<open>Two calls can fail: the frame of a player who has left the floor, and the start of a Mr Wright in a
  room of fewer than six posters. Neither the rooms nor which nodes have which of these components
  changes in a run.\<close>

definition off_floor :: "urho \<Rightarrow> scene \<times> world_event \<Rightarrow> bool" where
  "off_floor E x =
     (case snd x of
        Ev_Person dt inp \<Rightarrow> roomDark inp (fst (room_of E (person_pos (fst x))) + 1, snd (room_of E (person_pos (fst x))) + 1) = None
      | _ \<Rightarrow> False)"

definition few_posters :: "world \<Rightarrow> scene \<times> world_event \<Rightarrow> bool" where
  "few_posters w x =
     (case snd x of
        Ev_Wright_Start n pick rot \<Rightarrow>
          n \<in> fst ` set (wd_wrights w) \<and> n \<notin> wd_started w \<and> length (in_room w n (wd_posters w)) < 6
      | _ \<Rightarrow> False)"

text \<open>\<open>Random\<close> keeps to its bounds.\<close>

definition fair_call :: "scene \<times> world_event \<Rightarrow> bool" where
  "fair_call x =
     (case snd x of
        Ev_Wright_Start n pick rot \<Rightarrow> fair pick
      | Ev_Wright n pick c dt \<Rightarrow> fair pick
      | Ev_Wife_Start n pick rot \<Rightarrow> fair pick
      | _ \<Rightarrow> True)"

lemma fst_upd [simp]: "map fst (upd n a xs) = map fst xs"
  by (simp add: upd_def case_prod_beta)

lemma fst_put_back [simp]: "map fst (put_back new xs) = map fst xs"
  by (simp add: put_back_def case_prod_beta)

lemma rooms_frame:
  assumes "world_step E loaded sc ev w = Some (w', es)"
  shows "wd_room w' = wd_room w \<and> map fst (wd_posters w') = map fst (wd_posters w) \<and>
    map fst (wd_wrights w') = map fst (wd_wrights w)"
  using assms by (cases ev) (force split: option.splits prod.splits if_splits)+

lemma length_in_room: "length (in_room w n xs) = length (filter (\<lambda>g. wd_room w g = wd_room w n) (map fst xs))"
  by (simp add: in_room_def filter_map comp_def case_prod_beta' split_def)

lemma started_frame:
  assumes "world_step E loaded sc ev w = Some (w', es)"
  shows "wd_started w' = (case ev of Ev_Wright_Start n pick rot \<Rightarrow> if n \<in> fst ` set (wd_wrights w) then insert n (wd_started w) else wd_started w
    | _ \<Rightarrow> wd_started w)"
proof (cases ev)
  case (Ev_Wright_Start n pick rot)
  have "map_of (wd_wrights w) n = None \<longleftrightarrow> n \<notin> fst ` set (wd_wrights w)" by (simp add: map_of_eq_None_iff)
  then show ?thesis using assms Ev_Wright_Start by (auto simp: insert_absorb split: option.splits if_splits)
qed (use assms in \<open>force split: option.splits prod.splits if_splits\<close>)+

lemma wright_start_None:
  "fair pick \<Longrightarrow> wright_start E pick pos posters r = None \<longleftrightarrow> length posters < 6"
  using wright_sequences_spec(1) [of pick "map snd posters"]
  by (cases "wright_sequences pick 0 3 2 (map snd posters)") (simp_all add: wright_start_def)

lemma step_None:
  assumes "live w" "fair_call (sc, ev)"
  shows "world_step E loaded sc ev w = None \<longleftrightarrow> off_floor E (sc, ev) \<or> few_posters w (sc, ev)"
proof (cases ev)
  case (Ev_Person dt inp)
  then show ?thesis by (simp add: off_floor_def few_posters_def person_update_def person_light_def Let_def split: option.splits prod.splits)
next
  case (Ev_Guard n dt yaw lw)
  then show ?thesis using assms walks_guard [of "wd_guards w" n] guard_update_defined
    by (auto simp: off_floor_def few_posters_def live_def split: option.splits)
next
  case (Ev_Padlock n screen gw gh)
  have "\<exists>pn. pl_panel l = Some pn" if "map_of (wd_padlocks w) n = Some l" for l
    using assms map_of_SomeD [OF that] by (auto simp: live_def)
  then show ?thesis
    by (auto simp: Ev_Padlock off_floor_def few_posters_def padlock_update_def Let_def split: option.split prod.split)
next
  case (Ev_Wright_Start n pick rot)
  have m: "map_of (wd_wrights w) n = None \<longleftrightarrow> n \<notin> fst ` set (wd_wrights w)" by (simp add: map_of_eq_None_iff)
  have "fair pick" using assms(2) by (simp add: Ev_Wright_Start fair_call_def)
  from wright_start_None [OF this] show ?thesis
    using m by (auto simp: Ev_Wright_Start off_floor_def few_posters_def split: option.split)
next
  case (Ev_Wright_Touch n other poster)
  have "wright_collision E loaded sc (world_pos sc n) other k (r, wd_audio w) \<noteq> None" if "map_of (wd_wrights w) n = Some r" for r k
    using wright_touched [OF drawn_get [OF that]] assms(1) by (fastforce simp: live_def)
  then show ?thesis by (auto simp: Ev_Wright_Touch off_floor_def few_posters_def split: option.split)
qed (simp_all add: off_floor_def few_posters_def split: option.splits prod.splits)

text \<open>A start that would fail is not undone by a call that succeeds.\<close>

lemma few_posters_step:
  assumes "world_step E loaded sc ev w = Some (w', es)" "live w" "fair_call (sc, ev)"
  shows "few_posters w' x = few_posters w x"
proof (cases "snd x")
  case (Ev_Wright_Start n pick rot)
  define wr where "wr = fst ` set (wd_wrights w)"
  have s: "n \<in> wd_started w' \<longleftrightarrow> n \<in> wd_started w \<or> n \<in> wr \<and> (\<exists>pick rot. ev = Ev_Wright_Start n pick rot)"
    using started_frame [OF assms(1)] unfolding wr_def [symmetric] by (auto split: world_event.splits)
  have "\<not> few_posters w (sc, ev)" using step_None [OF assms(2,3), of E loaded] assms(1) by simp
  then have "n \<in> wd_started w \<or> \<not> length (in_room w n (wd_posters w)) < 6" if "n \<in> wr" "n \<in> wd_started w'"
    using that s unfolding few_posters_def wr_def [symmetric] by auto
  moreover have "length (in_room w' n (wd_posters w')) = length (in_room w n (wd_posters w))" "fst ` set (wd_wrights w') = wr"
    using rooms_frame [OF assms(1)] by (simp_all add: length_in_room wr_def flip: set_map)
  ultimately show ?thesis using s unfolding few_posters_def Ev_Wright_Start wr_def [symmetric] by auto
qed (simp_all add: few_posters_def)

lemma run_None:
  "live w \<Longrightarrow> list_all fair_call evs \<Longrightarrow>
   world_run E loaded evs w = None \<longleftrightarrow> list_ex (off_floor E) evs \<or> list_ex (few_posters w) evs"
proof (induction evs arbitrary: w)
  case (Cons x evs)
  obtain sc ev where x: "x = (sc, ev)" by (cases x)
  have f: "fair_call (sc, ev)" "list_all fair_call evs" using Cons.prems(2) x by simp_all
  note n = step_None [OF Cons.prems(1) f(1), of E loaded]
  show ?case
  proof (cases "world_step E loaded sc ev w")
    case None
    then show ?thesis using n x by auto
  next
    case (Some r)
    obtain w1 es where w1: "r = (w1, es)" by (cases r)
    have "few_posters w1 = few_posters w" using few_posters_step [OF _ Cons.prems(1) f(1)] Some w1 by blast
    then show ?thesis using Cons.IH [OF live_step [OF Cons.prems(1)] f(2)] Some w1 n x by auto
  qed
qed simp

end
