(* ===== verification/WorldLoad.thy ===== *)
theory WorldLoad
  imports World
begin

text \<open>
  Where the components of a loaded level come from: every component of the scene is one that the
  loader gives to its own nodes, a guard with waypoints, or the interaction component of an object in
  a room file, and every such object has its component. So a world begins alive.
\<close>

section \<open>Where the components of a loaded level come from\<close>

definition loader_classes :: "string list" where
  "loader_classes = [''StaticModel'', ''RigidBody'', ''CollisionShape'', ''Navigable'', ''Light'', ''Text3D'', ''SoundSource3D'',
     ''AudioZone'', ''Door'', ''Person'', ''Inventory'', ''Thrower'', ''SoundListener'', ''CameraController'', ''Camera'']"

text \<open>A component is one of those the loader gives its own nodes, the component of a guard, or the
  interaction component of an object.\<close>

definition comp_from :: "urho \<Rightarrow> resources \<Rightarrow> xml list \<Rightarrow> snode \<Rightarrow> comp \<Rightarrow> bool" where
  "comp_from E rs objects n c \<longleftrightarrow> cp_type c \<in> set loader_classes \<or>
     (\<exists>ws. ws \<noteq> [] \<and> c = Comp ''Guard'' [(''Waypoints'', A_path ws)]) \<or>
     (\<exists>x \<in> set objects. has_attr x ''interaction'' \<and> n = fst (load_object E rs x) \<and> c \<in> set (fst (interaction_comp rs x)))"

definition tree_from :: "urho \<Rightarrow> resources \<Rightarrow> xml list \<Rightarrow> snode \<Rightarrow> bool" where
  "tree_from E rs objects t \<longleftrightarrow> (\<forall>n \<in> set (all_nodes t). \<forall>c \<in> set (sn_comps n). comp_from E rs objects n c)"

lemma tree_from_eq:
  "tree_from E rs objects t \<longleftrightarrow> (\<forall>c \<in> set (sn_comps t). comp_from E rs objects t c) \<and>
     (\<forall>u \<in> set (sn_children t). tree_from E rs objects u)"
  by (cases t) (auto simp: tree_from_def)

lemma tree_from_loader:
  "\<forall>c \<in> set (sn_comps t). cp_type c \<in> set loader_classes \<Longrightarrow> \<forall>u \<in> set (sn_children t). tree_from E rs objects u \<Longrightarrow>
   tree_from E rs objects t"
  by (subst tree_from_eq) (simp add: comp_from_def)

lemma tree_from_mono: "tree_from E rs xs t \<Longrightarrow> set xs \<subseteq> set ys \<Longrightarrow> tree_from E rs ys t"
  by (fastforce simp: tree_from_def comp_from_def)

lemma object_comps:
  "c \<in> set (sn_comps (fst (load_object E rs x))) \<Longrightarrow>
   cp_type c \<in> set loader_classes \<or> has_attr x ''interaction'' \<and> c \<in> set (fst (interaction_comp rs x))"
  by (simp add: load_object_def Let_def case_prod_beta loader_classes_def split: if_splits; (elim disjE)?; simp)

lemma object_from: "x \<in> set objects \<Longrightarrow> tree_from E rs objects (fst (load_object E rs x))"
proof -
  assume x: "x \<in> set objects"
  have "sn_children (fst (load_object E rs x)) = []" by (simp add: load_object_def Let_def case_prod_beta)
  then show ?thesis using x object_comps [of _ E rs x] by (subst tree_from_eq) (auto simp: comp_from_def)
qed

lemma light_from: "tree_from E rs objects (search_light E rs)" "tree_from E rs objects (disabled (search_light E rs))"
  by (rule tree_from_loader; simp add: search_light_def loader_classes_def)+

lemma guard_from:
  assumes "ws \<noteq> []"
  shows "tree_from E rs objects (guard_node E rs base ws)"
proof -
  have "cp_type c \<in> set loader_classes \<or> c = Comp ''Guard'' [(''Waypoints'', A_path ws)]" if "c \<in> set (sn_comps (guard_node E rs base ws))" for c
    using that by (simp add: guard_node_def person_plane_def person_body_def loader_classes_def; elim disjE; simp)
  then have "\<forall>c \<in> set (sn_comps (guard_node E rs base ws)). comp_from E rs objects (guard_node E rs base ws) c"
    using assms unfolding comp_from_def by blast
  moreover have "\<forall>u \<in> set (sn_children (guard_node E rs base ws)). tree_from E rs objects u"
    by (simp add: guard_node_def light_from)
  ultimately show ?thesis by (subst tree_from_eq) blast
qed

lemma door_from: "u \<in> set (door_nodes rs mat) \<Longrightarrow> tree_from E rs objects u"
  by (rule tree_from_loader; simp add: door_nodes_def; elim disjE; simp add: loader_classes_def)

lemma plain_from:
  "tree_from E rs objects (load_zone E rs x)" "tree_from E rs objects (wall_node E rs ls i j px)"
  "tree_from E rs objects (room_label E rs nm)"
  by (rule tree_from_loader; simp add: load_zone_def Let_def wall_node_def room_label_def loader_classes_def; blast intro: door_from)+

lemma lights_from: "u \<in> set (room_lights E b extra) \<Longrightarrow> tree_from E rs objects u"
  by (rule tree_from_loader; simp add: room_lights_def Let_def; elim disjE; simp add: loader_classes_def)

lemma people_from: "tree_from E rs objects (person_tree E rs p)" "tree_from E rs objects (camera_tree E rs p)"
proof -
  have "tree_from E rs objects u" if "u \<in> set (sn_children (person_tree E rs p))" for u
    using that by (simp add: person_tree_def; elim disjE) (simp_all add: light_from tree_from_loader loader_classes_def)
  then show "tree_from E rs objects (person_tree E rs p)"
    by (intro tree_from_loader) (simp_all add: person_tree_def person_plane_def person_body_def loader_classes_def)
  have "tree_from E rs objects (camera_light E rs)"
    by (rule tree_from_loader) (simp_all add: camera_light_def loader_classes_def)
  then have "tree_from E rs objects u" if "u \<in> set (sn_children (camera_tree E rs p))" for u
    using that by (intro tree_from_loader) (simp_all add: camera_tree_def loader_classes_def)
  then show "tree_from E rs objects (camera_tree E rs p)"
    by (intro tree_from_loader) (simp_all add: camera_tree_def loader_classes_def)
qed

lemma contents_from:
  assumes "room_contents E rs base q = Some (c, msgs)"
  shows "tree_from E rs (children_named ''object'' q) c"
proof -
  obtain gs where gs: "load_guards E rs base (children_named ''guard'' q) = Some gs"
    and c: "c = mk_node [] vec_ZERO q_IDENTITY []
        (map fst (map (load_object E rs) (children_named ''object'' q)) @ gs @ map (load_zone E rs) (children_named ''audiozone'' q))"
    using assms by (auto simp: room_contents_def Let_def split: option.splits)
  have "tree_from E rs os g" if "g \<in> set gs" for g os
    using that load_guards_nodes [OF gs] load_guards_returns [OF gs] guard_from by auto
  then show ?thesis by (subst tree_from_eq) (auto simp: c object_from plain_from)
qed

lemma room_from:
  assumes "load_room E rs dev level ls x y = Some (r, msgs)"
  shows "tree_from E rs (room_objects rs level x y) r"
proof (rule tree_from_loader)
  show "\<forall>c \<in> set (sn_comps r). cp_type c \<in> set loader_classes"
    using assms by (auto simp: load_room_def Let_def floor_comps_def loader_classes_def split: option.splits)
  show "\<forall>u \<in> set (sn_children r). tree_from E rs (room_objects rs level x y) u"
  proof (cases "room_xml rs level x y")
    case None
    then show ?thesis using assms by (auto simp: load_room_def Let_def intro: plain_from lights_from)
  next
    case (Some q)
    then show ?thesis using assms
      by (auto simp: load_room_def Let_def room_objects_def intro: plain_from lights_from contents_from)
  qed
qed

lemma load_rooms_all:
  "load_rooms E rs dev level ls cs = Some (rooms, msgs) \<Longrightarrow> (x, y) \<in> set cs \<Longrightarrow>
   \<exists>q \<in> set rooms. \<exists>m. load_room E rs dev level ls x y = Some (q, m)"
  by (induction cs arbitrary: rooms msgs) (fastforce split: option.splits)+

lemma level_from:
  assumes "build_level E rs dev level im = Some (sc, msgs)" "t \<in> set (sc_nodes sc)"
  shows "tree_from E rs (level_objects rs level im) t"
proof -
  let ?ls = "level_style E rs (rs_xml rs (''Levels/'' @ show_int (level + 1) @ ''.xml''))"
  obtain rooms where r: "load_rooms E rs dev level ?ls (floor_grid im) = Some (rooms, msgs)"
    and sc: "sc_nodes sc = rooms @ load_walls E rs ?ls im @
        [person_tree E rs (person_start E im), camera_tree E rs (person_start E im)]"
    using assms by (auto simp: build_level_def Let_def)
  have "tree_from E rs (level_objects rs level im) q" if q: "q \<in> set rooms" for q
  proof -
    obtain x y m where xy: "(x, y) \<in> set (floor_grid im)" "load_room E rs dev level ?ls x y = Some (q, m)"
      using load_rooms_each [OF r q] by blast
    have "set (room_objects rs level x y) \<subseteq> set (level_objects rs level im)" using xy(1) by (force simp: level_objects_def)
    then show ?thesis by (rule tree_from_mono [OF room_from [OF xy(2)]])
  qed
  then show ?thesis using assms(2) by (auto simp: sc load_walls_def plain_from people_from)
qed

lemma numbered_node: "(i, k, n) \<in> set (numbered sc) \<Longrightarrow> \<exists>t \<in> set (sc_nodes sc). n \<in> set (all_nodes t)"
proof -
  assume "(i, k, n) \<in> set (numbered sc)"
  then have "(k, n) \<in> set (concat (map (\<lambda>(k, t). map (Pair k) (all_nodes t)) (enumerate 0 (sc_nodes sc))))"
    unfolding numbered_def by (metis enumerate_eq_zip in_set_zipE)
  then show ?thesis by (auto simp: enumerate_eq_zip dest: set_zip_rightD)
qed

lemma instances_comp:
  "(i, a) \<in> set (instances cls f sc) \<Longrightarrow> \<exists>k n c. (i, k, n) \<in> set (numbered sc) \<and> c \<in> set (sn_comps n) \<and> cp_type c = cls \<and> a = f i n c"
  by (auto simp: instances_def)

lemma instances_intro:
  "(i, k, n) \<in> set (numbered sc) \<Longrightarrow> c \<in> set (sn_comps n) \<Longrightarrow> cp_type c = cls \<Longrightarrow> (i, f i n c) \<in> set (instances cls f sc)"
  unfolding instances_def set_concat set_map by (rule UN_I [OF imageI], assumption) auto

lemma instances_from:
  assumes "build_level E rs dev level im = Some (sc, msgs)" "(i, a) \<in> set (instances cls f sc)"
  shows "\<exists>n c. a = f i n c \<and> cp_type c = cls \<and> comp_from E rs (level_objects rs level im) n c"
proof -
  obtain k n c where c: "(i, k, n) \<in> set (numbered sc)" "c \<in> set (sn_comps n)" "cp_type c = cls" "a = f i n c"
    using instances_comp [OF assms(2)] by blast
  then obtain t where "t \<in> set (sc_nodes sc)" "n \<in> set (all_nodes t)" using numbered_node by blast
  then have "comp_from E rs (level_objects rs level im) n c" using level_from [OF assms(1)] c(2) by (simp add: tree_from_def)
  then show ?thesis using c(3,4) by blast
qed

lemma instances_interactable:
  assumes "build_level E rs dev level im = Some (sc, msgs)" "(i, a) \<in> set (instances cls f sc)" "cls \<in> set interactable"
  shows "\<exists>x \<in> set (level_objects rs level im). has_attr x ''interaction'' \<and> get_attr x ''interaction'' = cls \<and>
    a = f i (fst (load_object E rs x)) (Comp cls [(''LoadFromXML'', A_xml x)])"
proof -
  obtain n c where a: "a = f i n c" "cp_type c = cls" "comp_from E rs (level_objects rs level im) n c"
    using instances_from [OF assms(1,2)] by blast
  have "set interactable \<inter> set (''Guard'' # loader_classes) = {}" by (simp add: interactable_def loader_classes_def)
  then have "cls \<noteq> ''Guard''" "cls \<notin> set loader_classes" using assms(3) by auto
  then obtain x where x: "x \<in> set (level_objects rs level im)" "has_attr x ''interaction''" "n = fst (load_object E rs x)"
    "c \<in> set (fst (interaction_comp rs x))"
    using a(2,3) by (auto simp: comp_from_def)
  then have "get_attr x ''interaction'' = cls" using a(2) by (auto simp: interaction_comp_def Let_def split: if_splits)
  then show ?thesis using x a(1) assms(3) by (intro bexI [OF _ x(1)]) (auto simp: interaction_comp_def Let_def split: if_splits)
qed

text \<open>And the other way round: every object with such a class has its component.\<close>

lemma object_in_room:
  assumes "load_room E rs dev level ls x y = Some (r, msgs)" "q \<in> set (room_objects rs level x y)"
  shows "fst (load_object E rs q) \<in> set (all_nodes r)"
proof -
  obtain d where d: "room_xml rs level x y = Some d" "q \<in> set (children_named ''object'' d)"
    using assms(2) by (cases "room_xml rs level x y") (auto simp: room_objects_def)
  then obtain c m where c: "room_contents E rs (room_position E x y) d = Some (c, m)" "c \<in> set (sn_children r)"
    using assms(1) by (auto simp: load_room_def Let_def)
  have eq: "all_nodes t = t # concat (map all_nodes (sn_children t))" for t by (cases t) simp
  have "fst (load_object E rs q) \<in> set (sn_children c)"
    using c(1) d(2) by (auto simp: room_contents_def Let_def split: option.splits)
  then have "fst (load_object E rs q) \<in> set (all_nodes c)" using eq [of c] eq [of "fst (load_object E rs q)"] by force
  then show ?thesis using eq [of r] c(2) by force
qed

lemma numbered_iff: "(\<exists>i k. (i, k, n) \<in> set (numbered sc)) \<longleftrightarrow> (\<exists>t \<in> set (sc_nodes sc). n \<in> set (all_nodes t))"
proof
  assume "\<exists>t \<in> set (sc_nodes sc). n \<in> set (all_nodes t)"
  then obtain t where t: "t \<in> set (sc_nodes sc)" "n \<in> set (all_nodes t)" by blast
  then obtain k where "(k, t) \<in> set (enumerate 0 (sc_nodes sc))"
    by (metis in_set_impl_in_set_zip2 enumerate_eq_zip length_upt diff_zero add.left_neutral)
  then have "(k, n) \<in> set (concat (map (\<lambda>(k, t). map (Pair k) (all_nodes t)) (enumerate 0 (sc_nodes sc))))"
    using t(2) by force
  then show "\<exists>i k. (i, k, n) \<in> set (numbered sc)" unfolding numbered_def
    by (metis in_set_impl_in_set_zip2 enumerate_eq_zip length_upt diff_zero add.left_neutral)
qed (use numbered_node in blast)

lemma object_instance:
  assumes "build_level E rs dev level im = Some (sc, msgs)" "x \<in> set (level_objects rs level im)"
    "has_attr x ''interaction''" "get_attr x ''interaction'' = cls" "cls \<in> set interactable"
  shows "\<exists>i. (i, f i (fst (load_object E rs x)) (Comp cls [(''LoadFromXML'', A_xml x)])) \<in> set (instances cls f sc)"
proof -
  let ?n = "fst (load_object E rs x)"
  let ?ls = "level_style E rs (rs_xml rs (''Levels/'' @ show_int (level + 1) @ ''.xml''))"
  obtain rooms where r: "load_rooms E rs dev level ?ls (floor_grid im) = Some (rooms, msgs)"
    and sc: "sc_nodes sc = rooms @ load_walls E rs ?ls im @
        [person_tree E rs (person_start E im), camera_tree E rs (person_start E im)]"
    using assms(1) by (auto simp: build_level_def Let_def)
  obtain i j where ij: "(i, j) \<in> set (floor_grid im)" "x \<in> set (room_objects rs level i j)"
    using assms(2) by (auto simp: level_objects_def)
  obtain q m where q: "q \<in> set rooms" "load_room E rs dev level ?ls i j = Some (q, m)"
    using load_rooms_all [OF r ij(1)] by blast
  then have qs: "q \<in> set (sc_nodes sc)" using sc by simp
  then obtain l k where "(l, k, ?n) \<in> set (numbered sc)"
    using object_in_room [OF q(2) ij(2)] numbered_iff [of ?n sc] qs by blast
  moreover have "Comp cls [(''LoadFromXML'', A_xml x)] \<in> set (sn_comps ?n)"
  proof -
    have "set interactable \<subseteq> set registered" by (simp add: interactable_def registered_def)
    then have "cls \<in> set registered" using assms(5) by blast
    then have "interaction_comp rs x = ([Comp cls [(''LoadFromXML'', A_xml x)]], [])"
      using assms(4,5) by (simp add: interaction_comp_def)
    then show ?thesis using assms(3) by (simp add: load_object_def Let_def)
  qed
  ultimately have "(l, f l ?n (Comp cls [(''LoadFromXML'', A_xml x)])) \<in> set (instances cls f sc)"
    by (rule instances_intro) simp
  then show ?thesis by blast
qed

lemma new_world_live:
  assumes "build_level E rs dev level im = Some (sc, msgs)" "\<not> list_ex misplaced (level_objects rs level im)"
  shows "live (new_world E pr panel mat m sc)"
proof -
  have "g_waypoints g \<noteq> []" if g: "(i, g) \<in> set (instances ''Guard'' (make_guard m) sc)" for i g
  proof -
    obtain n c where a: "g = make_guard m i n c" "cp_type c = ''Guard''" "comp_from E rs (level_objects rs level im) n c"
      using instances_from [OF assms(1) g] by blast
    have "c \<notin> set (fst (interaction_comp rs x))" if "x \<in> set (level_objects rs level im)" "has_attr x ''interaction''" for x
      using assms(2) that a(2)
      by (auto simp: list_ex_iff misplaced_def not_for_objects_def interaction_comp_def Let_def split: if_splits)
    moreover have "''Guard'' \<notin> set loader_classes" by (simp add: loader_classes_def)
    ultimately obtain ws where "ws \<noteq> []" "c = Comp ''Guard'' [(''Waypoints'', A_path ws)]"
      using a(2,3) unfolding comp_from_def by auto
    then show ?thesis by (simp add: a(1) make_guard_def comp_path_def guard_set_waypoints_def)
  qed
  moreover have "pl_panel l \<noteq> None" if l: "(i, l) \<in> set (instances ''Padlock'' (make_padlock E pr m) sc)" for i l
    using instances_comp [OF l] by (auto simp: make_padlock_def padlock_start_def)
  moreover have "wright_ok (r, am)" if r: "(i, r) \<in> set (instances ''MrWright'' (make_wright m) sc)" for i r am
    using instances_comp [OF r] by (auto simp: make_wright_def wright_ok_def)
  ultimately show ?thesis by (auto simp: live_def walks_def drawn_def new_world_def Let_def)
qed

end
