(* ===== verification/WorldRun.thy ===== *)
theory WorldRun
  imports WorldLoad
begin

text \<open>
  What holds in every world that a loaded level runs through: no call but the frame of a player off
  the floor fails, no pickup is lost or doubled, padlocks open for the pickups of the level and for
  nothing else.
\<close>

section \<open>Items\<close>

definition lying :: "world \<Rightarrow> node \<Rightarrow> bool" where
  "lying w n \<longleftrightarrow> pk_enabled (wd_pickup w n) \<and> pk_component_on (wd_pickup w n)"

definition carried :: "world \<Rightarrow> node list" where
  "carried w = map i_node (inv_items (wd_inv w))"

definition gone :: "world \<Rightarrow> node \<Rightarrow> bool" where
  "gone w n \<longleftrightarrow> \<not> pk_component_on (wd_pickup w n)"

definition items_ok :: "world \<Rightarrow> bool" where
  "items_ok w \<longleftrightarrow> (\<forall>n. i_node (pk_item (wd_pickup w n)) = n) \<and> distinct (carried w) \<and>
     (\<forall>i \<in> set (inv_items (wd_inv w)). i_node i \<in> set (wd_ids w) \<and> i = pk_item (wd_pickup w (i_node i)) \<and>
        \<not> pk_enabled (wd_pickup w (i_node i)) \<and> pk_component_on (wd_pickup w (i_node i))) \<and>
     (\<forall>n \<in> set (wd_ids w). \<not> pk_enabled (wd_pickup w n) \<longrightarrow> n \<in> set (carried w))"

text \<open>The calls that have to do with items; what all calls leave alone.\<close>

lemma items_frame:
  assumes "world_step E loaded sc ev w = Some (w', es)"
    "\<nexists>j k f c s. ev = Ev_Throw j k f c s" "\<nexists>n dt cs tw. ev = Ev_Pickup n dt cs tw"
  shows "inv_items (wd_inv w') = inv_items (wd_inv w) \<and> wd_pickup w' = wd_pickup w \<and> wd_ids w' = wd_ids w"
  using assms by (cases ev) (force split: option.splits prod.splits if_splits)+

lemma remove_ptr_filter: "distinct (map i_node is) \<Longrightarrow> remove_ptr n is = filter (\<lambda>i. i_node i \<noteq> n) is"
proof (induction "is")
  case (Cons i "is")
  then show ?case by (auto intro!: filter_True [symmetric] simp: image_iff)
qed simp

lemma throw_step:
  assumes "items_ok w" "world_step E loaded sc (Ev_Throw j k f c s) w = Some (w', es)"
  shows "wd_ids w' = wd_ids w \<and>
    (wd_inv w' = wd_inv w \<and> wd_pickup w' = wd_pickup w \<or>
     (\<exists>i. i \<in> set (inv_items (wd_inv w)) \<and> str_ieq E (i_type i) ''Throwable'' \<and>
        inv_items (wd_inv w') = filter (\<lambda>x. i_node x \<noteq> i_node i) (inv_items (wd_inv w)) \<and>
        wd_pickup w' = (wd_pickup w)(i_node i := (wd_pickup w (i_node i))\<lparr>pk_enabled := True, pk_component_on := False, pk_trigger := False\<rparr>)))"
proof (cases "find (\<lambda>i. str_ieq E (i_type i) ''Throwable'') (inv_items (wd_inv w))")
  case None
  then show ?thesis using assms(2) by (auto simp: thrower_update_def get_item_of_type_def Let_def split: if_splits)
next
  case (Some i)
  then have "i \<in> set (inv_items (wd_inv w))" "str_ieq E (i_type i) ''Throwable''" by (auto simp: find_Some_iff)
  moreover have "remove_ptr (i_node i) (inv_items (wd_inv w)) = filter (\<lambda>x. i_node x \<noteq> i_node i) (inv_items (wd_inv w))"
    using assms(1) by (simp add: items_ok_def carried_def remove_ptr_filter)
  ultimately show ?thesis using assms(2) Some
    by (auto simp: thrower_update_def get_item_of_type_def Let_def split: if_splits)
qed

lemma pickup_step:
  assumes "world_step E loaded sc (Ev_Pickup n dt cs tw) w = Some (w', es)"
  shows "wd_ids w' = wd_ids w \<and>
    (\<exists>p. wd_pickup w' = (wd_pickup w)(n := p) \<and> pk_item p = pk_item (wd_pickup w n) \<and>
       pk_component_on p = pk_component_on (wd_pickup w n) \<and>
       (if n \<in> set (wd_ids w) \<and> lying w n \<and> cs \<noteq> [] \<and> v_front cs = Some (person_node sc)
        then \<not> pk_enabled p \<and> inv_items (wd_inv w') = inv_items (wd_inv w) @ [pk_item p]
        else pk_enabled p = pk_enabled (wd_pickup w n) \<and> inv_items (wd_inv w') = inv_items (wd_inv w)))"
proof (cases "n \<in> set (wd_ids w) \<and> lying w n")
  case True
  then show ?thesis using assms
    by (auto simp: lying_def pickup_update_def Let_def add_item_def v_push_def split: if_splits)
next
  case False
  then show ?thesis using assms by (auto simp: lying_def intro!: exI [of _ "wd_pickup w n"])
qed

lemma carried_iff: "items_ok w \<Longrightarrow> n \<in> set (wd_ids w) \<Longrightarrow> n \<in> set (carried w) \<longleftrightarrow> \<not> pk_enabled (wd_pickup w n)"
  by (auto simp: items_ok_def carried_def)

lemma items_ok_step:
  assumes ok: "items_ok w" and step: "world_step E loaded sc ev w = Some (w', es)"
  shows "items_ok w'"
proof -
  consider (throw) j k f c s where "ev = Ev_Throw j k f c s" | (pickup) n dt cs tw where "ev = Ev_Pickup n dt cs tw"
    | (other) "\<nexists>j k f c s. ev = Ev_Throw j k f c s" "\<nexists>n dt cs tw. ev = Ev_Pickup n dt cs tw"
    by blast
  then show ?thesis
  proof cases
    case throw
    from throw_step [OF ok step [unfolded throw]] show ?thesis
    proof (elim conjE disjE exE)
      fix i assume i: "wd_ids w' = wd_ids w" "i \<in> set (inv_items (wd_inv w))"
        "inv_items (wd_inv w') = filter (\<lambda>x. i_node x \<noteq> i_node i) (inv_items (wd_inv w))"
        "wd_pickup w' = (wd_pickup w)(i_node i := (wd_pickup w (i_node i))\<lparr>pk_enabled := True, pk_component_on := False, pk_trigger := False\<rparr>)"
      have "distinct (carried w')" using ok i(3) by (simp add: items_ok_def carried_def distinct_map_filter)
      then show ?thesis using ok i by (auto simp: items_ok_def carried_def)
    qed (use ok in \<open>simp add: items_ok_def carried_def\<close>)
  next
    case pickup
    from pickup_step [OF step [unfolded pickup]] obtain p where ids: "wd_ids w' = wd_ids w"
      and pk: "wd_pickup w' = (wd_pickup w)(n := p)" "pk_item p = pk_item (wd_pickup w n)"
        "pk_component_on p = pk_component_on (wd_pickup w n)"
      and c: "if n \<in> set (wd_ids w) \<and> lying w n \<and> cs \<noteq> [] \<and> v_front cs = Some (person_node sc)
        then \<not> pk_enabled p \<and> inv_items (wd_inv w') = inv_items (wd_inv w) @ [pk_item p]
        else pk_enabled p = pk_enabled (wd_pickup w n) \<and> inv_items (wd_inv w') = inv_items (wd_inv w)"
      by blast
    show ?thesis
    proof (cases "n \<in> set (wd_ids w) \<and> lying w n \<and> cs \<noteq> [] \<and> v_front cs = Some (person_node sc)")
      case True
      then have "n \<notin> set (carried w)" using carried_iff [OF ok] by (auto simp: lying_def)
      moreover have "pk_component_on p" using True pk(3) by (simp add: lying_def)
      ultimately show ?thesis using ok True c pk ids by (auto simp: items_ok_def carried_def)
    next
      case False
      then show ?thesis using ok c pk ids by (auto simp: items_ok_def carried_def)
    qed
  next
    case other
    from items_frame [OF step other] show ?thesis using ok by (simp add: items_ok_def carried_def)
  qed
qed

text \<open>What a run does to the items, seen from its start: the items and the pickups stay the same, what is
  not lying is never lying again, and what is carried and cannot be thrown is kept.\<close>

definition since :: "urho \<Rightarrow> world \<Rightarrow> world \<Rightarrow> bool" where
  "since E w0 w \<longleftrightarrow> items_ok w \<and> wd_ids w = wd_ids w0 \<and> (\<forall>n. pk_item (wd_pickup w n) = pk_item (wd_pickup w0 n)) \<and>
     (\<forall>n \<in> set (wd_ids w0). \<not> lying w0 n \<longrightarrow> \<not> lying w n) \<and>
     (\<forall>i \<in> set (inv_items (wd_inv w0)). \<not> str_ieq E (i_type i) ''Throwable'' \<longrightarrow> i \<in> set (inv_items (wd_inv w)))"

lemma since_refl: "items_ok w \<Longrightarrow> since E w w"
  by (simp add: since_def)

lemma since_trans: "since E w0 w1 \<Longrightarrow> since E w1 w2 \<Longrightarrow> since E w0 w2"
  by (auto simp: since_def)

lemma since_one:
  assumes ok: "items_ok w" and step: "world_step E loaded sc ev w = Some (w', es)"
  shows "since E w w'"
proof -
  note ok' = items_ok_step [OF ok step]
  consider (throw) j k f c s where "ev = Ev_Throw j k f c s" | (pickup) n dt cs tw where "ev = Ev_Pickup n dt cs tw"
    | (other) "\<nexists>j k f c s. ev = Ev_Throw j k f c s" "\<nexists>n dt cs tw. ev = Ev_Pickup n dt cs tw"
    by blast
  then show ?thesis
  proof cases
    case throw
    from throw_step [OF ok step [unfolded throw]] show ?thesis
    proof (elim conjE disjE exE)
      fix i assume i: "wd_ids w' = wd_ids w" "i \<in> set (inv_items (wd_inv w))" "str_ieq E (i_type i) ''Throwable''"
        "inv_items (wd_inv w') = filter (\<lambda>x. i_node x \<noteq> i_node i) (inv_items (wd_inv w))"
        "wd_pickup w' = (wd_pickup w)(i_node i := (wd_pickup w (i_node i))\<lparr>pk_enabled := True, pk_component_on := False, pk_trigger := False\<rparr>)"
      have "x = i" if "x \<in> set (inv_items (wd_inv w))" "i_node x = i_node i" for x
        using ok i(2) that by (metis items_ok_def)
      then show ?thesis using ok' i by (auto simp: since_def lying_def)
    qed (use ok' in \<open>simp add: since_def lying_def\<close>)
  next
    case pickup
    from pickup_step [OF step [unfolded pickup]] show ?thesis
      using ok' by (auto simp: since_def lying_def split: if_splits)
  next
    case other
    from items_frame [OF step other] show ?thesis using ok' by (simp add: since_def lying_def)
  qed
qed

interpretation since: kept_by_calls E loaded "since E w0" for E loaded w0
  by unfold_locales (meson since_def since_one since_trans)

text \<open>What the attributes of an object say of a pickup and of a padlock.\<close>

definition pickup_type :: "xml \<Rightarrow> string" where
  "pickup_type x = (if has_attr x ''type'' then get_attr x ''type'' else get_attr x ''model'')"

definition pickup_name :: "xml \<Rightarrow> string" where
  "pickup_name x = (if has_attr x ''name'' then get_attr x ''name'' else pickup_type x)"

definition lock_type :: "xml \<Rightarrow> string" where
  "lock_type x =
     (if has_attr x ''type'' then get_attr x ''type'' else if xml_value x \<noteq> [] then xml_value x else ''Lemons.'')"

text \<open>The pickups of a loaded level all lie.\<close>

lemma new_world_pickup:
  assumes "build_level E rs dev level im = Some (sc, msgs)" "n \<in> set (wd_ids (new_world E pr panel mat m sc))"
  shows "\<exists>x \<in> set (level_objects rs level im). has_attr x ''interaction'' \<and> get_attr x ''interaction'' = ''Pickup'' \<and>
    pk_item (wd_pickup (new_world E pr panel mat m sc) n) =
      \<lparr>i_node = n, i_type = pickup_type x, i_name = pickup_name x\<rparr> \<and>
    lying (new_world E pr panel mat m sc) n"
proof -
  obtain p where p: "map_of (instances ''Pickup'' (make_pickup E) sc) n = Some p"
    "wd_pickup (new_world E pr panel mat m sc) n = p"
    using assms(2) by (auto simp: new_world_def Let_def dest: weak_map_of_SomeI split: option.splits)
  obtain x where x: "x \<in> set (level_objects rs level im)" "has_attr x ''interaction''" "get_attr x ''interaction'' = ''Pickup''"
    "p = make_pickup E n (fst (load_object E rs x)) (Comp ''Pickup'' [(''LoadFromXML'', A_xml x)])"
    using instances_interactable [OF assms(1) map_of_SomeD [OF p(1)]] by (auto simp: interactable_def)
  have "sn_enabled (fst (load_object E rs x))"
    by (simp add: load_object_def Let_def case_prod_beta set_scale_def mk_node_def)
  then show ?thesis using x(1-3)
    by (intro bexI [OF _ x(1)])
      (simp add: p(2) x(4) lying_def make_pickup_def pickup_delayed_start_def pickup_load_def pickup_new_def comp_xml_def Let_def
          pickup_type_def pickup_name_def)
qed

lemma new_world_items_ok:
  assumes "build_level E rs dev level im = Some (sc, msgs)"
  shows "items_ok (new_world E pr panel mat m sc)"
proof -
  let ?w = "new_world E pr panel mat m sc"
  have "i_node (pk_item (wd_pickup ?w n)) = n" for n
  proof (cases "n \<in> set (wd_ids ?w)")
    case True
    from new_world_pickup [OF assms True] show ?thesis by auto
  next
    case False
    then have "map_of (instances ''Pickup'' (make_pickup E) sc) n = None"
      by (simp add: new_world_def Let_def map_of_eq_None_iff)
    then show ?thesis by (simp add: new_world_def Let_def blank_pickup_def)
  qed
  moreover have "carried ?w = []" "inv_items (wd_inv ?w) = []"
    by (simp_all add: carried_def new_world_def Let_def inv_delayed_start_def inv_new_def)
  moreover have "pk_enabled (wd_pickup ?w n)" if "n \<in> set (wd_ids ?w)" for n
    using new_world_pickup [OF assms that] by (auto simp: lying_def)
  ultimately show ?thesis by (simp add: items_ok_def)
qed

section \<open>Padlocks\<close>

text \<open>A padlock that is not there any more was opened by a pickup of its type, which somebody took.\<close>

definition keyed :: "urho \<Rightarrow> world \<Rightarrow> world \<Rightarrow> bool" where
  "keyed E w0 w \<longleftrightarrow> since E w0 w \<and>
     (\<forall>n l. map_of (wd_padlocks w0) n = Some l \<longrightarrow>
        (case map_of (wd_padlocks w) n of
           Some l' \<Rightarrow> pl_type l' = pl_type l
         | None \<Rightarrow> \<exists>m \<in> set (wd_ids w0). str_ieq E (i_type (pk_item (wd_pickup w0 m))) (pl_type l) \<and> \<not> lying w m))"

lemma keyed_gone:
  assumes "keyed E w0 w" "map_of (wd_padlocks w0) n = Some l" "map_of (wd_padlocks w) n = None"
  shows "\<exists>m \<in> set (wd_ids w0). str_ieq E (i_type (pk_item (wd_pickup w0 m))) (pl_type l) \<and> \<not> lying w m"
proof -
  have "case map_of (wd_padlocks w) n of
           Some l' \<Rightarrow> pl_type l' = pl_type l
         | None \<Rightarrow> \<exists>m \<in> set (wd_ids w0). str_ieq E (i_type (pk_item (wd_pickup w0 m))) (pl_type l) \<and> \<not> lying w m"
    using assms(1,2) unfolding keyed_def by blast
  then show ?thesis using assms(3) by simp
qed

lemma map_of_upd: "map_of (upd n a xs) k = (case map_of xs k of None \<Rightarrow> None | Some b \<Rightarrow> Some (if k = n then a else b))"
  by (induction xs) (auto simp: upd_def)

lemma map_of_drop: "map_of (drop_node n xs) k = (if k = n then None else map_of xs k)"
  by (induction xs) (auto simp: drop_node_def)

lemma padlocks_frame:
  "world_step E loaded sc ev w = Some (w', es) \<Longrightarrow> \<nexists>n s gw gh. ev = Ev_Padlock n s gw gh \<Longrightarrow> wd_padlocks w' = wd_padlocks w"
  by (cases ev) (force split: option.splits prod.splits if_splits)+

lemma padlock_update_key:
  assumes "padlock_update E sc n screen gw gh iv l = Some (l', es)"
  shows "pl_type l' = pl_type l" "Remove_Node n \<in> set es \<Longrightarrow> \<exists>i \<in> set (inv_items iv). str_ieq E (i_type i) (pl_type l)"
  using assms store.look_sound [of E "pl_type l" iv]
  by (auto simp: padlock_update_def padlock_stop_def Let_def split: option.splits if_splits prod.splits)

lemma keyed_padlock:
  assumes k: "keyed E w0 w" and step: "world_step E loaded sc (Ev_Padlock n screen gw gh) w = Some (w', es)"
  shows "keyed E w0 w'"
proof -
  have s: "since E w0 w" using k by (simp add: keyed_def)
  have s': "since E w0 w'" by (rule since.step [OF s step])
  have pk: "wd_pickup w' = wd_pickup w" using items_frame [OF step] by simp
  then have ly: "lying w' = lying w" by (simp add: fun_eq_iff lying_def)
  show ?thesis
  proof (cases "map_of (wd_padlocks w) n")
    case None
    then show ?thesis using k step by simp
  next
    case (Some l)
    then obtain l' where u: "padlock_update E sc n screen gw gh (wd_inv w) l = Some (l', es)"
      and w': "wd_padlocks w' = (if Remove_Node n \<in> set es then drop_node n (wd_padlocks w) else upd n l' (wd_padlocks w))"
      using step by auto
    have opened: "\<exists>m \<in> set (wd_ids w0). str_ieq E (i_type (pk_item (wd_pickup w0 m))) (pl_type l) \<and> \<not> lying w' m"
      if r: "Remove_Node n \<in> set es"
    proof -
      obtain i where i: "i \<in> set (inv_items (wd_inv w))" "str_ieq E (i_type i) (pl_type l)"
        using padlock_update_key(2) [OF u r] by blast
      then have "i_node i \<in> set (wd_ids w0)" "i = pk_item (wd_pickup w0 (i_node i))" "\<not> lying w' (i_node i)"
        using s pk by (auto simp: since_def items_ok_def lying_def)
      then show ?thesis using i(2) by metis
    qed
    show ?thesis unfolding keyed_def
    proof (intro conjI allI impI s')
      fix q l0 assume l0: "map_of (wd_padlocks w0) q = Some l0"
      then have old: "case map_of (wd_padlocks w) q of
           Some l' \<Rightarrow> pl_type l' = pl_type l0
         | None \<Rightarrow> \<exists>m \<in> set (wd_ids w0). str_ieq E (i_type (pk_item (wd_pickup w0 m))) (pl_type l0) \<and> \<not> lying w' m"
        using k unfolding keyed_def ly by blast
      show "case map_of (wd_padlocks w') q of
           Some l' \<Rightarrow> pl_type l' = pl_type l0
         | None \<Rightarrow> \<exists>m \<in> set (wd_ids w0). str_ieq E (i_type (pk_item (wd_pickup w0 m))) (pl_type l0) \<and> \<not> lying w' m"
      proof (cases "q = n")
        case True
        then have "pl_type l = pl_type l0" using old Some by simp
        then show ?thesis using True Some opened padlock_update_key(1) [OF u] by (simp add: w' map_of_upd map_of_drop)
      next
        case False
        then show ?thesis using old by (simp add: w' map_of_upd map_of_drop split: option.splits)
      qed
    qed
  qed
qed

lemma keyed_step:
  assumes k: "keyed E w0 w" and step: "world_step E loaded sc ev w = Some (w', es)"
  shows "keyed E w0 w'"
proof (cases "\<exists>n s gw gh. ev = Ev_Padlock n s gw gh")
  case True
  then show ?thesis using keyed_padlock k step by blast
next
  case False
  then have p: "wd_padlocks w' = wd_padlocks w" using padlocks_frame [OF step] by blast
  have s: "since E w0 w" using k by (simp add: keyed_def)
  then have "since E w w'" using since_one [OF _ step] by (simp add: since_def)
  then have m: "\<not> lying w' m" if "m \<in> set (wd_ids w0)" "\<not> lying w m" for m
    using s that by (simp add: since_def)
  show ?thesis unfolding keyed_def
  proof (intro conjI allI impI)
    show "since E w0 w'" by (rule since.step [OF s step])
    fix n l assume l: "map_of (wd_padlocks w0) n = Some l"
    then show "case map_of (wd_padlocks w') n of
           Some l' \<Rightarrow> pl_type l' = pl_type l
         | None \<Rightarrow> \<exists>m \<in> set (wd_ids w0). str_ieq E (i_type (pk_item (wd_pickup w0 m))) (pl_type l) \<and> \<not> lying w' m"
      using k m by (cases "map_of (wd_padlocks w) n") (fastforce simp: keyed_def p)+
  qed
qed

interpretation keyed: kept_by_calls E loaded "keyed E w0" for E loaded w0
  by unfold_locales (rule keyed_step)

text \<open>The frame of a padlock for whose type the player carries an item.\<close>

lemma padlock_opens:
  assumes "live w" "i \<in> set (inv_items (wd_inv w))" "str_ieq E (i_type i) (pl_type l)"
    "map_of (wd_padlocks w) n = Some l" "padlock_can_interact E sc n"
  shows "\<exists>w' es. world_step E loaded sc (Ev_Padlock n screen gw gh) w = Some (w', es) \<and>
    Remove_Node n \<in> set es \<and> map_of (wd_padlocks w') n = None"
proof -
  obtain pn where pn: "pl_panel l = Some pn" using assms(1) map_of_SomeD [OF assms(4)] by (auto simp: live_def)
  have "fst (get_item_of_type E (pl_type l) False (wd_inv w)) \<noteq> None"
    unfolding store.look_None using assms(2,3) by blast
  then obtain j where "get_item_of_type E (pl_type l) False (wd_inv w) = (Some j, wd_inv w)"
    using get_item_keep [of E "pl_type l" "wd_inv w"] by (cases "get_item_of_type E (pl_type l) False (wd_inv w)") auto
  then show ?thesis using assms(4,5) by (simp add: padlock_update_def pn Let_def map_of_drop)
qed

lemma count_list_distinct: "distinct xs \<Longrightarrow> count_list xs x = (if x \<in> set xs then 1 else 0)"
  by (induction xs) auto

lemma off_floor_person: "(\<exists>x \<in> set evs. off_floor E x) \<longleftrightarrow> (\<exists>sc dt inp. (sc, Ev_Person dt inp) \<in> set evs \<and> off_floor E (sc, Ev_Person dt inp))"
proof
  assume "\<exists>x \<in> set evs. off_floor E x"
  then obtain sc ev where x: "(sc, ev) \<in> set evs" "off_floor E (sc, ev)" by auto
  then show "\<exists>sc dt inp. (sc, Ev_Person dt inp) \<in> set evs \<and> off_floor E (sc, Ev_Person dt inp)"
    by (cases ev) (auto simp: off_floor_def)
qed auto

lemma few_posters_start:
  "(\<exists>x \<in> set evs. few_posters w x) \<longleftrightarrow>
   (\<exists>sc n pick rot. (sc, Ev_Wright_Start n pick rot) \<in> set evs \<and> few_posters w (sc, Ev_Wright_Start n pick rot))"
proof
  assume "\<exists>x \<in> set evs. few_posters w x"
  then obtain sc ev where x: "(sc, ev) \<in> set evs" "few_posters w (sc, ev)" by auto
  then show "\<exists>sc n pick rot. (sc, Ev_Wright_Start n pick rot) \<in> set evs \<and> few_posters w (sc, Ev_Wright_Start n pick rot)"
    by (cases ev) (auto simp: few_posters_def)
qed auto

section \<open>Properties\<close>


text \<open>C8. No item is lost, doubled or changed: however a loaded level has run, each of its pickups either
  lies, or is carried exactly once, or has been thrown, and only these are carried; it is
  of the type and the name that its room file gives it. What does not lie any more never lies again.\<close>

theorem items_conserved:
  assumes "build_level E rs dev level im = Some (lv, msgs)"
    "world_run E loaded evs (new_world E pr panel mat m lv) = Some (w, es)"
  shows "set (carried w) \<subseteq> set (wd_ids (new_world E pr panel mat m lv)) \<and>
    (\<forall>n \<in> set (wd_ids (new_world E pr panel mat m lv)).
       (count_list (carried w) n, lying w n, gone w n) \<in> {(0, True, False), (1, False, False), (0, False, True)} \<and>
       (\<exists>x \<in> set (level_objects rs level im). get_attr x ''interaction'' = ''Pickup'' \<and>
          pk_item (wd_pickup w n) = \<lparr>i_node = n, i_type = pickup_type x, i_name = pickup_name x\<rparr>) \<and>
       (world_run E loaded evs' w = Some (w', es') \<longrightarrow> \<not> lying w n \<longrightarrow> \<not> lying w' n))"
proof -
  let ?w0 = "new_world E pr panel mat m lv"
  have s: "since E ?w0 w" by (rule since.run [OF since_refl [OF new_world_items_ok [OF assms(1)]] assms(2)])
  then have ok: "items_ok w" and ids: "wd_ids w = wd_ids ?w0" by (simp_all add: since_def)
  have count: "count_list (carried w) n = (if n \<in> set (carried w) then 1 else 0)" for n
    using ok by (simp add: items_ok_def count_list_distinct)
  have on: "pk_component_on (wd_pickup w n)" if "n \<in> set (carried w)" for n
    using that ok by (auto simp: items_ok_def carried_def)
  show ?thesis
  proof (intro conjI ballI)
    show "set (carried w) \<subseteq> set (wd_ids ?w0)" using ok ids by (auto simp: items_ok_def carried_def)
    fix n assume n: "n \<in> set (wd_ids ?w0)"
    show "(count_list (carried w) n, lying w n, gone w n) \<in> {(0, True, False), (1, False, False), (0, False, True)}"
      using carried_iff [OF ok, of n] on [of n] n ids by (auto simp: count lying_def gone_def)
    show "\<exists>x \<in> set (level_objects rs level im). get_attr x ''interaction'' = ''Pickup'' \<and>
          pk_item (wd_pickup w n) = \<lparr>i_node = n, i_type = pickup_type x, i_name = pickup_name x\<rparr>"
      using new_world_pickup [OF assms(1) n] s by (auto simp: since_def)
    show "world_run E loaded evs' w = Some (w', es') \<longrightarrow> \<not> lying w n \<longrightarrow> \<not> lying w' n"
      using since.run [OF since_refl [OF ok]] n ids by (auto simp: since_def)
  qed
qed

text \<open>C9. A padlock opens for what lies in the level and for nothing else: if a padlock of a loaded level is
  gone after a run, then some room file of the level places a pickup whose type is the padlock's, in
  whatever case, and one of these pickups has been taken.\<close>

theorem padlock_needs_pickup:
  assumes "build_level E rs dev level im = Some (lv, msgs)"
    "world_run E loaded evs (new_world E pr panel mat m lv) = Some (w, es)"
    "map_of (wd_padlocks (new_world E pr panel mat m lv)) n = Some l" "map_of (wd_padlocks w) n = None"
  shows "\<exists>x \<in> set (level_objects rs level im). \<exists>y \<in> set (level_objects rs level im). \<exists>k \<in> set (wd_ids w).
    get_attr x ''interaction'' = ''Pickup'' \<and> get_attr y ''interaction'' = ''Padlock'' \<and> pl_type l = lock_type y \<and>
    str_ieq E (pickup_type x) (lock_type y) \<and> i_type (pk_item (wd_pickup w k)) = pickup_type x \<and> \<not> lying w k"
proof -
  let ?w0 = "new_world E pr panel mat m lv"
  have "keyed E ?w0 ?w0" using since_refl [OF new_world_items_ok [OF assms(1)]] by (simp add: keyed_def)
  then have k: "keyed E ?w0 w" by (rule keyed.run [OF _ assms(2)])
  then obtain q where q: "q \<in> set (wd_ids ?w0)" "str_ieq E (i_type (pk_item (wd_pickup ?w0 q))) (pl_type l)" "\<not> lying w q"
    using keyed_gone assms(3,4) by blast
  obtain x where x: "x \<in> set (level_objects rs level im)" "get_attr x ''interaction'' = ''Pickup''"
    "pk_item (wd_pickup ?w0 q) = \<lparr>i_node = q, i_type = pickup_type x, i_name = pickup_name x\<rparr>"
    using new_world_pickup [OF assms(1) q(1)] by blast
  have "(n, l) \<in> set (instances ''Padlock'' (make_padlock E pr m) lv)"
    using map_of_SomeD [OF assms(3)] by (simp add: new_world_def Let_def)
  from instances_interactable [OF assms(1) this] obtain y where y: "y \<in> set (level_objects rs level im)" "get_attr y ''interaction'' = ''Padlock''"
    "l = make_padlock E pr m n (fst (load_object E rs y)) (Comp ''Padlock'' [(''LoadFromXML'', A_xml y)])"
    by (auto simp: interactable_def)
  have t: "pl_type l = lock_type y"
    by (simp add: y(3) make_padlock_def padlock_start_def padlock_load_def padlock_new_def comp_xml_def Let_def lock_type_def
        split: prod.split)
  have w: "pk_item (wd_pickup w q) = pk_item (wd_pickup ?w0 q)" "q \<in> set (wd_ids w)"
    using k q(1) by (simp_all add: keyed_def since_def)
  show ?thesis
    by (rule bexI [OF _ x(1)], rule bexI [OF _ y(1)], rule bexI [OF _ w(2)]) (use x y t q(2,3) w(1) in simp)
qed

text \<open>C10. A key that has been taken opens its padlock whenever the player stands before it: in a loaded
  level, once the player has touched a lying pickup that cannot be thrown, then after any further run,
  whatever is collected, thrown and looked at, each padlock of its type that is still there opens in
  the next frame in which the player is within its reach, and is gone.\<close>

theorem taken_key_opens:
  assumes "build_level E rs dev level im = Some (lv, msgs)" "\<not> list_ex misplaced (level_objects rs level im)"
    "world_run E loaded evs (new_world E pr panel mat m lv) = Some (w1, es1)"
    "k \<in> set (wd_ids w1)" "lying w1 k"
    "world_step E loaded sc (Ev_Pickup k dt (person_node sc # cs) tw) w1 = Some (w2, es2)"
    "world_run E loaded evs' w2 = Some (w3, es3)" "map_of (wd_padlocks w3) n = Some l"
    "str_ieq E (i_type (pk_item (wd_pickup w1 k))) (pl_type l)"
    "\<not> str_ieq E (i_type (pk_item (wd_pickup w1 k))) ''Throwable''" "padlock_can_interact E sc' n"
  shows "\<exists>w4 es4. world_step E loaded sc' (Ev_Padlock n screen gw gh) w3 = Some (w4, es4) \<and>
    Remove_Node n \<in> set es4 \<and> map_of (wd_padlocks w4) n = None"
proof -
  let ?w0 = "new_world E pr panel mat m lv"
  have "since E ?w0 w1" by (rule since.run [OF since_refl [OF new_world_items_ok [OF assms(1)]] assms(3)])
  then have "items_ok w1" by (simp add: since_def)
  then have ok2: "items_ok w2" by (rule items_ok_step [OF _ assms(6)])
  have "pk_item (wd_pickup w1 k) \<in> set (inv_items (wd_inv w2))"
    using pickup_step [OF assms(6)] assms(4,5) by (auto simp: v_front_def)
  then have item: "pk_item (wd_pickup w1 k) \<in> set (inv_items (wd_inv w3))"
    using since.run [OF since_refl [OF ok2] assms(7)] assms(10) by (simp add: since_def)
  have "live w2" by (rule live_step [OF live.run [OF new_world_live [OF assms(1,2)] assms(3)] assms(6)])
  then have "live w3" by (rule live.run [OF _ assms(7)])
  from padlock_opens [OF this item assms(9,8,11)] show ?thesis by blast
qed

section \<open>Witnesses\<close>

text \<open>A level of one room with some objects.\<close>

definition res_room :: "xml list \<Rightarrow> resources" where
  "res_room xs = res0\<lparr>rs_xml := (\<lambda>n. if n = ''Levels/1/1x1.xml'' then Some (Xml ''room'' [] [] xs) else None)\<rparr>"

lemma res_room_xml: "room_xml (res_room xs) 0 0 0 = Some (Xml ''room'' [] [] xs)"
  by (simp add: room_xml_def res_room_def room_name_def show_int_def show_nat.simps num_simps)

lemma objects_one_room:
  assumes "list_all (\<lambda>x. xml_tag x = ''object'') xs"
  shows "level_objects (res_room xs) 0 plan0 = xs"
proof -
  have "filter (\<lambda>x. xml_tag x = ''object'') xs = xs" using assms by (simp add: list_all_iff)
  then show ?thesis by (simp add: level_objects_def floor_plan0 room_objects_def res_room_xml children_named_def)
qed

lemma build_one_room:
  assumes "list_all (\<lambda>x. xml_tag x = ''object'') xs"
  shows "\<exists>lv msgs. build_level engine32 (res_room xs) False 0 plan0 = Some (lv, msgs)"
proof -
  have "filter (\<lambda>x. xml_tag x = ''guard'') xs = []" using assms by (simp add: filter_empty_conv list_all_iff)
  then have "\<not> list_ex (bad_guards (res_room xs) 0) (floor_grid plan0)"
    by (simp add: floor_plan0 bad_guards_def res_room_xml children_named_def)
  then have "build_level engine32 (res_room xs) False 0 plan0 \<noteq> None"
    by (simp add: build_level_def Let_def load_rooms_None)
  then show ?thesis by auto
qed

text \<open>A key and its padlock.\<close>

definition xml_key :: xml where
  "xml_key = Xml ''object'' [(''interaction'', ''Pickup''), (''type'', ''Key'')] [] []"

definition xml_lock :: xml where
  "xml_lock = Xml ''object'' [(''interaction'', ''Padlock''), (''type'', ''Key'')] [] []"

definition res_world :: resources where
  "res_world = res_room [xml_key, xml_lock]"

lemma world_objects: "level_objects res_world 0 plan0 = [xml_key, xml_lock]"
  unfolding res_world_def by (rule objects_one_room) (simp add: xml_key_def xml_lock_def)

lemma world_misplaced: "\<not> list_ex misplaced (level_objects res_world 0 plan0)"
  by (simp add: world_objects misplaced_def xml_key_def xml_lock_def has_attr_def get_attr_def not_for_objects_def)

lemma build_world: "\<exists>lv msgs. build_level engine32 res_world False 0 plan0 = Some (lv, msgs)"
  unfolding res_world_def by (rule build_one_room) (simp add: xml_key_def xml_lock_def)

text \<open>The player stands where everything is.\<close>

definition scene1 :: scene where
  "scene1 = scene0\<lparr>world_pos := (\<lambda>_. vec_ZERO)\<rparr>"

lemma reach_scene1: "padlock_can_interact engine32 scene1 n"
  by (simp add: padlock_can_interact_def scene1_def scene0_def engine32_def PADLOCK_DISTANCE_def V3_def)

lemma world_key:
  assumes "build_level engine32 res_world False 0 plan0 = Some (lv, msgs)"
  obtains k n l where "k \<in> set (wd_ids (new_world engine32 1 0 mat m lv))" "lying (new_world engine32 1 0 mat m lv) k"
    "i_type (pk_item (wd_pickup (new_world engine32 1 0 mat m lv) k)) = ''Key''"
    "map_of (wd_padlocks (new_world engine32 1 0 mat m lv)) n = Some l" "pl_type l = ''Key''"
proof -
  let ?w = "new_world engine32 1 0 mat m lv"
  have "xml_key \<in> set (level_objects res_world 0 plan0)" "has_attr xml_key ''interaction''" "get_attr xml_key ''interaction'' = ''Pickup''"
    by (simp_all add: world_objects xml_key_def has_attr_def get_attr_def)
  from object_instance [OF assms this] obtain k where k: "k \<in> set (wd_ids ?w)"
    by (force simp: new_world_def Let_def interactable_def)
  have "xml_lock \<in> set (level_objects res_world 0 plan0)" "has_attr xml_lock ''interaction''" "get_attr xml_lock ''interaction'' = ''Padlock''"
    by (simp_all add: world_objects xml_lock_def has_attr_def get_attr_def)
  from object_instance [OF assms this] obtain n a where n: "(n, a) \<in> set (wd_padlocks ?w)"
    by (force simp: new_world_def Let_def interactable_def)
  then obtain l where l: "map_of (wd_padlocks ?w) n = Some l" by (metis weak_map_of_SomeI)
  then have "(n, l) \<in> set (instances ''Padlock'' (make_padlock engine32 1 m) lv)"
    using map_of_SomeD by (fastforce simp: new_world_def Let_def)
  from instances_interactable [OF assms this] have "pl_type l = ''Key''"
    by (auto simp: world_objects interactable_def xml_key_def xml_lock_def get_attr_def has_attr_def make_padlock_def padlock_start_def
        padlock_load_def padlock_new_def comp_xml_def Let_def split: prod.splits)
  moreover have "lying ?w k" "i_type (pk_item (wd_pickup ?w k)) = ''Key''"
    using new_world_pickup [OF assms k]
    by (auto simp: world_objects xml_key_def xml_lock_def get_attr_def has_attr_def pickup_type_def)
  ultimately show ?thesis using that k l by blast
qed

definition memory0 :: memory where
  "memory0 = \<lparr>mem_person = person0, mem_dirty = False, mem_guard = guard0, mem_padlock = padlock0,
     mem_laser = \<lparr>l_pulse = False, l_lightTime = 0, l_time = 0, l_interval = 0, l_delay = 0, l_on = False, l_trigger = False\<rparr>,
     mem_camera = \<lparr>s_back = False, s_start = quat0, s_pitch = 0, s_yaw = 0, s_rot = quat0, s_color = WHITE\<rparr>,
     mem_door = \<lparr>d_pos = vec_ZERO, d_trigger = None, d_subs = {}\<rparr>, mem_bertha = bertha0,
     mem_boss_laser = \<lparr>bl_time = 0, bl_interval = 0, bl_delay = 0, bl_on = False, bl_trigger = False\<rparr>,
     mem_wright = \<lparr>w_timer = 0, w_sequences = [], w_glyphs = []\<rparr>, mem_wife = \<lparr>wf_sequence = [], wf_time = 0, wf_lit = []\<rparr>\<rparr>"

abbreviation world1 :: "level_scene \<Rightarrow> world" where
  "world1 \<equiv> new_world engine32 1 0 (\<lambda>_. 0) memory0"

lemma world_taken:
  assumes "build_level engine32 res_world False 0 plan0 = Some (lv, msgs)" "k \<in> set (wd_ids (world1 lv))" "lying (world1 lv) k"
  obtains w es where "world_step engine32 (\<lambda>_. True) scene1 (Ev_Pickup k 0 [person_node scene1] id) (world1 lv) = Some (w, es)"
    "live w" "pk_item (wd_pickup (world1 lv) k) \<in> set (inv_items (wd_inv w))" "wd_padlocks w = wd_padlocks (world1 lv)"
proof -
  let ?ev = "Ev_Pickup k 0 [person_node scene1] id"
  have live: "live (world1 lv)" by (rule new_world_live [OF assms(1) world_misplaced])
  then have "world_step engine32 (\<lambda>_. True) scene1 ?ev (world1 lv) \<noteq> None"
    using step_None [OF live, of scene1 ?ev engine32 "\<lambda>_. True"] by (simp add: off_floor_def few_posters_def fair_call_def)
  then obtain w es where w: "world_step engine32 (\<lambda>_. True) scene1 ?ev (world1 lv) = Some (w, es)" by auto
  have "pk_item (wd_pickup (world1 lv) k) \<in> set (inv_items (wd_inv w))"
    using pickup_step [OF w] assms(2,3) by (auto simp: v_front_def)
  moreover have "wd_padlocks w = wd_padlocks (world1 lv)" by (rule padlocks_frame [OF w]) simp
  ultimately show ?thesis using that w live_step [OF live w] by blast
qed

lemma ieq32: "str_ieq engine32 = (=)"
  by (simp add: engine32_def)


theorem items_conserved_witness:
  "\<exists>lv msgs k w es. build_level engine32 res_world False 0 plan0 = Some (lv, msgs) \<and> k \<in> set (wd_ids (world1 lv)) \<and>
     world_run engine32 (\<lambda>_. True) [(scene1, Ev_Pickup k 0 [person_node scene1] id)] (world1 lv) = Some (w, es) \<and>
     k \<in> set (carried w) \<and> count_list (carried w) k = 1 \<and> \<not> lying w k \<and> \<not> gone w k"
proof -
  obtain lv msgs where b: "build_level engine32 res_world False 0 plan0 = Some (lv, msgs)" using build_world by blast
  obtain k n l where k: "k \<in> set (wd_ids (world1 lv))" "lying (world1 lv) k" using world_key [OF b] by blast
  obtain w es where w: "world_step engine32 (\<lambda>_. True) scene1 (Ev_Pickup k 0 [person_node scene1] id) (world1 lv) = Some (w, es)"
    "pk_item (wd_pickup (world1 lv) k) \<in> set (inv_items (wd_inv w))"
    using world_taken [OF b k] by blast
  have r: "world_run engine32 (\<lambda>_. True) [(scene1, Ev_Pickup k 0 [person_node scene1] id)] (world1 lv) = Some (w, es)"
    using w(1) by simp
  have "i_node (pk_item (wd_pickup (world1 lv) k)) = k" using new_world_pickup [OF b k(1)] by auto
  then have c: "k \<in> set (carried w)" using w(2) by (force simp: carried_def)
  then have "count_list (carried w) k \<noteq> 0" by (simp add: count_list_0_iff)
  moreover have "(count_list (carried w) k, lying w k, gone w k) \<in> {(0, True, False), (1, False, False), (0, False, True)}"
    using items_conserved [OF b r] k(1) by blast
  ultimately have "count_list (carried w) k = 1" "\<not> lying w k" "\<not> gone w k" by auto
  then show ?thesis using k(1) b r c by blast
qed

theorem padlock_needs_pickup_witness:
  "\<exists>lv msgs k n w es. build_level engine32 res_world False 0 plan0 = Some (lv, msgs) \<and>
     world_run engine32 (\<lambda>_. True)
       [(scene1, Ev_Pickup k 0 [person_node scene1] id), (scene1, Ev_Padlock n (0, 0) 800 600)] (world1 lv) = Some (w, es) \<and>
     map_of (wd_padlocks (world1 lv)) n \<noteq> None \<and> map_of (wd_padlocks w) n = None \<and> (\<exists>q \<in> set (wd_ids w). \<not> lying w q)"
proof -
  obtain lv msgs where b: "build_level engine32 res_world False 0 plan0 = Some (lv, msgs)" using build_world by blast
  obtain k n l where k: "k \<in> set (wd_ids (world1 lv))" "lying (world1 lv) k"
    "i_type (pk_item (wd_pickup (world1 lv) k)) = ''Key''" "map_of (wd_padlocks (world1 lv)) n = Some l" "pl_type l = ''Key''"
    using world_key [OF b] by blast
  obtain w es where w: "world_step engine32 (\<lambda>_. True) scene1 (Ev_Pickup k 0 [person_node scene1] id) (world1 lv) = Some (w, es)"
    "live w" "pk_item (wd_pickup (world1 lv) k) \<in> set (inv_items (wd_inv w))" "wd_padlocks w = wd_padlocks (world1 lv)"
    using world_taken [OF b k(1,2)] by blast
  have "str_ieq engine32 (i_type (pk_item (wd_pickup (world1 lv) k))) (pl_type l)" by (simp add: k(3,5) ieq32)
  from padlock_opens [OF w(2,3) this _ reach_scene1, of n "\<lambda>_. True" "(0, 0)" 800 600] obtain w' es'
    where p: "world_step engine32 (\<lambda>_. True) scene1 (Ev_Padlock n (0, 0) 800 600) w = Some (w', es')" "map_of (wd_padlocks w') n = None"
    using k(4) w(4) by auto
  then have r: "world_run engine32 (\<lambda>_. True)
      [(scene1, Ev_Pickup k 0 [person_node scene1] id), (scene1, Ev_Padlock n (0, 0) 800 600)] (world1 lv) = Some (w', es @ es')"
    using w(1) by (simp del: world_step.simps)
  show ?thesis using padlock_needs_pickup [OF b r k(4) p(2)] b r k(4) p(2) by blast
qed

theorem taken_key_opens_witness:
  "\<exists>lv msgs k n w2 es2 w4 es4. build_level engine32 res_world False 0 plan0 = Some (lv, msgs) \<and>
     world_step engine32 (\<lambda>_. True) scene1 (Ev_Pickup k 0 [person_node scene1] id) (world1 lv) = Some (w2, es2) \<and>
     world_step engine32 (\<lambda>_. True) scene1 (Ev_Padlock n (0, 0) 800 600) w2 = Some (w4, es4) \<and> Remove_Node n \<in> set es4"
proof -
  obtain lv msgs where b: "build_level engine32 res_world False 0 plan0 = Some (lv, msgs)" using build_world by blast
  obtain k n l where k: "k \<in> set (wd_ids (world1 lv))" "lying (world1 lv) k"
    "i_type (pk_item (wd_pickup (world1 lv) k)) = ''Key''" "map_of (wd_padlocks (world1 lv)) n = Some l" "pl_type l = ''Key''"
    using world_key [OF b] by blast
  obtain w es where w: "world_step engine32 (\<lambda>_. True) scene1 (Ev_Pickup k 0 [person_node scene1] id) (world1 lv) = Some (w, es)"
    "wd_padlocks w = wd_padlocks (world1 lv)"
    using world_taken [OF b k(1,2)] by blast
  have t: "str_ieq engine32 (i_type (pk_item (wd_pickup (world1 lv) k))) (pl_type l)"
    "\<not> str_ieq engine32 (i_type (pk_item (wd_pickup (world1 lv) k))) ''Throwable''" by (simp_all add: k(3,5) ieq32)
  have r: "world_run engine32 (\<lambda>_. True) [] (world1 lv) = Some (world1 lv, [])" "world_run engine32 (\<lambda>_. True) [] w = Some (w, [])"
    by simp_all
  have l: "map_of (wd_padlocks w) n = Some l" using k(4) w(2) by simp
  from taken_key_opens [OF b world_misplaced r(1) k(1,2) w(1) r(2) l t reach_scene1] show ?thesis using b w(1) by blast
qed

end
