(* ===== verification/WorldBoss.thy ===== *)
theory WorldBoss
  imports WorldRun
begin

text \<open>
  The puzzles of a running level and its end: as long as Mr Wright or the wife wait for a touch, the
  right poster or terminal is in their room; and a level ends for a reason only.
\<close>

section \<open>One component of a class\<close>

lemma interaction_once: "length (filter P (fst (interaction_comp rs x))) \<le> 1"
  by (simp add: interaction_comp_def Let_def)

lemma object_once:
  assumes "cls \<in> set interactable"
  shows "length (filter (\<lambda>c. cp_type c = cls) (sn_comps (fst (load_object E rs x)))) \<le> 1"
proof -
  have "''StaticModel'' \<noteq> cls" "''RigidBody'' \<noteq> cls" "''CollisionShape'' \<noteq> cls" "''Navigable'' \<noteq> cls"
    using assms by (auto simp: interactable_def)
  then show ?thesis using interaction_once [of "\<lambda>c. cp_type c = cls" rs x]
    by (simp add: load_object_def Let_def case_prod_beta)
qed

lemma comps_once:
  assumes "build_level E rs dev level im = Some (sc, msgs)" "cls \<in> set interactable" "(i, k, n) \<in> set (numbered sc)"
  shows "length (filter (\<lambda>c. cp_type c = cls) (sn_comps n)) \<le> 1"
proof (cases "\<exists>c \<in> set (sn_comps n). cp_type c = cls")
  case True
  then obtain c where c: "c \<in> set (sn_comps n)" "cp_type c = cls" by blast
  obtain t where t: "t \<in> set (sc_nodes sc)" "n \<in> set (all_nodes t)" using numbered_node [OF assms(3)] by blast
  have "set interactable \<inter> set (''Guard'' # loader_classes) = {}" by (simp add: interactable_def loader_classes_def)
  then have "cls \<noteq> ''Guard''" "cls \<notin> set loader_classes" using assms(2) by auto
  moreover have "comp_from E rs (level_objects rs level im) n c"
    using level_from [OF assms(1) t(1)] t(2) c(1) by (simp add: tree_from_def)
  ultimately obtain x where "n = fst (load_object E rs x)" using c(2) by (auto simp: comp_from_def)
  then show ?thesis using object_once [OF assms(2)] by simp
next
  case False
  then have "filter (\<lambda>c. cp_type c = cls) (sn_comps n) = []" by (simp add: filter_empty_conv)
  then show ?thesis by simp
qed

lemma distinct_once:
  "distinct (map fst xs) \<Longrightarrow> \<forall>x \<in> set xs. length (g x) \<le> 1 \<Longrightarrow>
   distinct (map fst (concat (map (\<lambda>x. map (\<lambda>c. (fst x, h x c)) (g x)) xs)))"
proof (induction xs)
  case (Cons x xs)
  have "fst ` set (concat (map (\<lambda>x. map (\<lambda>c. (fst x, h x c)) (g x)) xs)) \<subseteq> fst ` set xs" by force
  moreover have "length (g x) = 0 \<or> length (g x) = 1" using Cons.prems(2) by (simp add: le_Suc_eq)
  ultimately show ?case using Cons by (auto simp: length_Suc_conv)
qed simp

lemma instances_distinct:
  assumes "build_level E rs dev level im = Some (sc, msgs)" "cls \<in> set interactable"
  shows "distinct (map fst (instances cls f sc))"
proof -
  have d: "distinct (map fst (numbered sc))" by (simp add: numbered_def)
  have "\<forall>x \<in> set (numbered sc). length (filter (\<lambda>c. cp_type c = cls) (sn_comps (snd (snd x)))) \<le> 1"
    using comps_once [OF assms] by auto
  from distinct_once [OF d this, of "\<lambda>x c. f (fst x) (snd (snd x)) c"] show ?thesis
    unfolding instances_def split_def .
qed

section \<open>Puzzles\<close>

lemma put_back_filter:
  "distinct (map fst xs) \<Longrightarrow> length ks = length (filter (\<lambda>(g, _). P g) xs) \<Longrightarrow>
   filter (\<lambda>(g, _). P g) (put_back (zip (map fst (filter (\<lambda>(g, _). P g) xs)) ks) xs) =
     zip (map fst (filter (\<lambda>(g, _). P g) xs)) ks"
proof (induction xs arbitrary: ks)
  case (Cons x xs)
  obtain i b where x: "x = (i, b)" by (cases x)
  have i: "i \<notin> fst ` set xs" using Cons.prems(1) x by simp
  have skip: "put_back ((i, k) # new) xs = put_back new xs" for k and new
    by (simp add: put_back_def, intro ballI) (use i in force)
  show ?case
  proof (cases "P i")
    case True
    then obtain k ks' where ks: "ks = k # ks'" using Cons.prems(2) x by (cases ks) auto
    have "filter (\<lambda>(g, _). P g) (put_back (zip (map fst (filter (\<lambda>(g, _). P g) xs)) ks') xs) =
        zip (map fst (filter (\<lambda>(g, _). P g) xs)) ks'"
      using Cons.IH [of ks'] Cons.prems x ks True by simp
    moreover have "put_back ((i, k) # new) (x # xs) = (i, k) # put_back new xs" for new
      using skip [of k new] by (simp add: x put_back_def)
    ultimately show ?thesis using x ks True by simp
  next
    case False
    have "map_of (zip (map fst (filter (\<lambda>(g, _). P g) xs)) ks) i = None"
      using False by (auto simp: map_of_eq_None_iff dest!: set_zip_leftD)
    then have "put_back (zip (map fst (filter (\<lambda>(g, _). P g) xs)) ks) (x # xs) =
        (i, b) # put_back (zip (map fst (filter (\<lambda>(g, _). P g) xs)) ks) xs"
      by (simp add: x put_back_def)
    then show ?thesis using Cons False x by simp
  qed
qed (simp add: put_back_def)

lemma put_back_other:
  "\<forall>x \<in> set xs. P (fst x) \<longrightarrow> fst x \<notin> fst ` set new \<Longrightarrow>
   filter (\<lambda>(g, _). P g) (put_back new xs) = filter (\<lambda>(g, _). P g) xs"
proof (induction xs)
  case (Cons x xs)
  obtain i b where x: "x = (i, b)" by (cases x)
  have "P i \<Longrightarrow> map_of new i = None" using Cons.prems x by (simp add: map_of_eq_None_iff)
  then show ?case using Cons x by (simp add: put_back_def)
qed (simp add: put_back_def)

text \<open>Rearranging the materials of a room's posters changes them nowhere else.\<close>

lemma materials_after:
  assumes "distinct (map fst xs)" "mset ks = mset (map snd (in_room w n xs))"
  shows "snd ` set (in_room w m (put_back (zip (map fst (in_room w n xs)) ks) xs)) = snd ` set (in_room w m xs)"
proof (cases "wd_room w m = wd_room w n")
  case True
  have l: "length ks = length (in_room w n xs)" using mset_eq_length [OF assms(2)] by simp
  have "set ks = snd ` set (in_room w n xs)" using mset_eq_setD [OF assms(2)] by simp
  then show ?thesis
    using put_back_filter [OF assms(1), of ks "\<lambda>g. wd_room w g = wd_room w n"] l True
    by (simp add: in_room_def flip: set_map)
next
  case False
  have "\<forall>x \<in> set xs. wd_room w (fst x) = wd_room w m \<longrightarrow> fst x \<notin> fst ` set (zip (map fst (in_room w n xs)) ks)"
    using False by (auto simp: in_room_def dest!: set_zip_leftD)
  from put_back_other [OF this] show ?thesis by (simp add: in_room_def)
qed

text \<open>What the puzzles still ask for is in their rooms.\<close>

definition materials :: "world \<Rightarrow> node \<Rightarrow> mat set" where
  "materials w n = snd ` set (in_room w n (wd_posters w))"

definition terminals :: "world \<Rightarrow> node \<Rightarrow> node set" where
  "terminals w n = fst ` set (in_room w n (wd_terminals w))"

definition posed :: "world \<Rightarrow> bool" where
  "posed w \<longleftrightarrow> distinct (map fst (wd_posters w)) \<and>
     (\<forall>(n, r) \<in> set (wd_wrights w). \<forall>sq \<in> set (w_sequences r). set sq \<subseteq> materials w n) \<and>
     (\<forall>(n, f) \<in> set (wd_wives w). set (wf_sequence f) \<subseteq> terminals w n)"

lemma posed_frame:
  assumes "world_step E loaded sc ev w = Some (w', es)"
  shows "wd_room w' = wd_room w \<and> wd_terminals w' = wd_terminals w \<and>
    ((\<nexists>n pick c dt. ev = Ev_Wright n pick c dt) \<longrightarrow> wd_posters w' = wd_posters w) \<and>
    ((\<nexists>n pick c dt. ev = Ev_Wright n pick c dt) \<and> (\<nexists>n pick rot. ev = Ev_Wright_Start n pick rot) \<and>
     (\<nexists>n m p. ev = Ev_Wright_Touch n m p) \<longrightarrow> wd_wrights w' = wd_wrights w) \<and>
    ((\<nexists>n pick rot. ev = Ev_Wife_Start n pick rot) \<and> (\<nexists>n dt. ev = Ev_Wife n dt) \<and> (\<nexists>n m t. ev = Ev_Wife_Touch n m t) \<longrightarrow>
     wd_wives w' = wd_wives w)"
  using assms by (cases ev) (force split: option.splits prod.splits if_splits)+

lemma wright_asks:
  assumes "wright_start E pick pos posters r = Some (r', ins)" "sq \<in> set (w_sequences r')"
  shows "set sq \<subseteq> snd ` set posters"
proof -
  obtain sqs where q: "wright_sequences pick 0 3 2 (map snd posters) = Some sqs"
    and r': "r' = update_display E pos (r\<lparr>w_sequences := sqs, w_glyphs := []\<rparr>)"
    using assms(1) by (auto simp: wright_start_def split: option.splits)
  have "mset sq \<subseteq># mset (map snd posters)"
    using wright_sequences_Some [OF q] assms(2) by (simp add: r' list_all_iff)
  then show ?thesis using set_mset_mono by fastforce
qed

lemma wright_asks_less:
  assumes "wright_collision E loaded sc pos other k (r, am) = Some (r', am')" "sq' \<in> set (w_sequences r')"
  shows "\<exists>sq \<in> set (w_sequences r). set sq' \<subseteq> set sq"
proof (cases "w_sequences r")
  case Nil
  then show ?thesis using assms by (simp add: wright_collision_def)
next
  case (Cons sq later)
  have "set (v_erase 0 sq) \<subseteq> set sq" by (auto simp: v_erase_def dest: in_set_dropD)
  then show ?thesis using assms Cons
    by (auto simp: wright_collision_def Let_def split: option.splits if_splits)
qed

lemma wright_update_parts:
  assumes "wright_update E pick c dt (r, ks) = (r', ks')" "fair pick"
  shows "w_sequences r' = w_sequences r \<and> mset ks' = mset ks"
  using assms shuffle_perm [OF assms(2), of "length ks" ks c]
  by (auto simp: wright_update_def Let_def split: if_splits)

lemma posed_wrights:
  assumes "posed w" "wd_room w' = wd_room w" "wd_posters w' = wd_posters w" "wd_terminals w' = wd_terminals w"
    "wd_wrights w' = upd n r (wd_wrights w)" "wd_wives w' = wd_wives w"
    "\<And>sq. sq \<in> set (w_sequences r) \<Longrightarrow> set sq \<subseteq> materials w n"
  shows "posed w'"
proof -
  have "materials w' = materials w" "terminals w' = terminals w"
    using assms by (simp_all add: fun_eq_iff materials_def terminals_def in_room_def)
  moreover have "\<forall>sq \<in> set (w_sequences q). set sq \<subseteq> materials w m" if "(m, q) \<in> set (wd_wrights w')" for m q
    using that assms(1,7) set_upd [of "(m, q)" n r] unfolding assms(5) posed_def by blast
  ultimately show ?thesis using assms(1,3,6) by (auto simp: posed_def)
qed

lemma posed_wives:
  assumes "posed w" "wd_room w' = wd_room w" "wd_posters w' = wd_posters w" "wd_terminals w' = wd_terminals w"
    "wd_wrights w' = wd_wrights w" "wd_wives w' = upd n f (wd_wives w)" "set (wf_sequence f) \<subseteq> terminals w n"
  shows "posed w'"
proof -
  have "materials w' = materials w" "terminals w' = terminals w"
    using assms by (simp_all add: fun_eq_iff materials_def terminals_def in_room_def)
  moreover have "set (wf_sequence q) \<subseteq> terminals w m" if "(m, q) \<in> set (wd_wives w')" for m q
    using that assms(1,7) set_upd [of "(m, q)" n f] unfolding assms(6) posed_def by blast
  ultimately show ?thesis using assms(1,3,5) by (auto simp: posed_def)
qed

lemma posed_in: "posed w \<Longrightarrow> (n, r) \<in> set (wd_wrights w) \<Longrightarrow> sq \<in> set (w_sequences r) \<Longrightarrow> set sq \<subseteq> materials w n"
  unfolding posed_def by (elim conjE) (drule bspec, assumption, simp)

lemma posed_wright_asks: "posed w \<Longrightarrow> map_of (wd_wrights w) n = Some r \<Longrightarrow> sq \<in> set (w_sequences r) \<Longrightarrow> set sq \<subseteq> materials w n"
  by (rule posed_in [OF _ map_of_SomeD])

lemma posed_wife_asks: "posed w \<Longrightarrow> map_of (wd_wives w) n = Some f \<Longrightarrow> set (wf_sequence f) \<subseteq> terminals w n"
  by (auto simp: posed_def dest!: map_of_SomeD)

text \<open>The frame of Mr Wright, which may rearrange the posters.\<close>

lemma posed_wright_frame:
  assumes "posed w" "fair pick" "world_step E loaded sc (Ev_Wright n pick c dt) w = Some (w', es)"
  shows "posed w'"
proof (cases "n \<in> wd_started w \<and> map_of (wd_wrights w) n \<noteq> None")
  case False
  then show ?thesis using assms by (auto split: option.splits)
next
  case True
  then obtain r where Some: "map_of (wd_wrights w) n = Some r" by auto
  let ?ps = "in_room w n (wd_posters w)"
  obtain r' ks where u: "wright_update E pick c dt (r, map snd ?ps) = (r', ks)" by (rule prod.exhaust)
  have w': "w' = w\<lparr>wd_wrights := upd n r' (wd_wrights w), wd_posters := put_back (zip (map fst ?ps) ks) (wd_posters w)\<rparr>"
    using assms(3) True Some u by simp
  note p = wright_update_parts [OF u assms(2)]
  have room: "in_room w' = in_room w" by (simp add: w' fun_eq_iff in_room_def)
  have d: "distinct (map fst (wd_posters w))" using assms(1) by (simp add: posed_def)
  have m: "materials w' = materials w" using materials_after [OF d conjunct2 [OF p]]
    by (simp add: fun_eq_iff materials_def room) (simp add: w')
  have t: "terminals w' = terminals w" by (simp add: fun_eq_iff terminals_def room) (simp add: w')
  have "\<forall>sq \<in> set (w_sequences q). set sq \<subseteq> materials w k" if "(k, q) \<in> set (wd_wrights w')" for k q
  proof -
    have "(k, q) = (n, r') \<or> (k, q) \<in> set (wd_wrights w)" using that set_upd by (fastforce simp: w')
    then show ?thesis
    proof
      assume "(k, q) = (n, r')"
      then show ?thesis using posed_wright_asks [OF assms(1) Some] p by simp
    next
      assume "(k, q) \<in> set (wd_wrights w)"
      then show ?thesis using posed_in [OF assms(1)] by blast
    qed
  qed
  moreover have "\<forall>(k, f) \<in> set (wd_wives w'). set (wf_sequence f) \<subseteq> terminals w k"
    using assms(1) by (simp add: posed_def w')
  ultimately show ?thesis unfolding posed_def m t using d by (auto simp: w')
qed

lemma wife_asks:
  assumes "wife_start E pick ts f = (f', ins, es)" "fair pick"
  shows "set (wf_sequence f') = fst ` set ts"
proof -
  have "mset (shuffle pick 0 (length ts) (map fst ts)) = mset (map fst ts)"
    using shuffle_perm [OF assms(2), of "length ts" "map fst ts" 0] by simp
  then have "set (shuffle pick 0 (length ts) (map fst ts)) = set (map fst ts)" by (rule mset_eq_setD)
  moreover have "wf_sequence f' = shuffle pick 0 (length ts) (map fst ts)" using assms(1) by (auto simp: wife_start_def Let_def)
  ultimately show ?thesis by simp
qed

lemma wife_asks_less: "wife_collision sc other t f = (f', es) \<Longrightarrow> set (wf_sequence f') \<subseteq> set (wf_sequence f)"
  by (auto simp: wife_collision_def v_erase_def split: list.splits if_splits)

lemma posed_step:
  assumes "posed w" "fair_call (sc, ev)" "world_step E loaded sc ev w = Some (w', es)"
  shows "posed w'"
proof (cases "w' = w")
  case changed: False
  show ?thesis
  proof (cases ev)
    case (Ev_Wright_Start n pick rot)
    then obtain r r' ins where r: "wright_start E pick (world_pos sc n)
          (map (\<lambda>(p, k). ((p, world_pos sc p, rot p), k)) (in_room w n (wd_posters w))) r = Some (r', ins)"
      "w' = w\<lparr>wd_wrights := upd n r' (wd_wrights w), wd_started := insert n (wd_started w)\<rparr>"
      using assms(3) changed by (auto split: option.splits if_splits)
    have "snd ` set (map (\<lambda>(p, k). ((p, world_pos sc p, rot p), k)) (in_room w n (wd_posters w))) = materials w n"
      by (force simp: materials_def)
    then have "set sq \<subseteq> materials w n" if "sq \<in> set (w_sequences r')" for sq using wright_asks [OF r(1) that] by simp
    then show ?thesis by (intro posed_wrights [OF assms(1), of w' n r']) (simp_all add: r(2))
  next
    case (Ev_Wright n pick c dt)
    then show ?thesis using posed_wright_frame [OF assms(1)] assms(2,3) by (simp add: fair_call_def del: world_step.simps)
  next
    case (Ev_Wright_Touch n other poster)
    then obtain r k r' am where r: "map_of (wd_wrights w) n = Some r"
      "wright_collision E loaded sc (world_pos sc n) other k (r, wd_audio w) = Some (r', am)"
      "w' = w\<lparr>wd_wrights := upd n r' (wd_wrights w), wd_audio := am\<rparr>"
      using assms(3) changed by (auto split: option.splits)
    have "set sq \<subseteq> materials w n" if "sq \<in> set (w_sequences r')" for sq
      using wright_asks_less [OF r(2) that] posed_wright_asks [OF assms(1) r(1)] by blast
    then show ?thesis by (intro posed_wrights [OF assms(1), of w' n r']) (simp_all add: r(3))
  next
    case (Ev_Wife_Start n pick rot)
    then obtain f f' ins where f: "wife_start E pick (map (\<lambda>(t, _). (t, world_pos sc t, rot t)) (in_room w n (wd_terminals w))) f = (f', ins, es)"
      "w' = w\<lparr>wd_wives := upd n f' (wd_wives w), wd_wife_started := insert n (wd_wife_started w)\<rparr>"
      using assms(3) changed by (auto split: option.splits if_splits prod.splits)
    have "fair pick" using assms(2) by (simp add: Ev_Wife_Start fair_call_def)
    then have "set (wf_sequence f') \<subseteq> terminals w n" using wife_asks [OF f(1)] by (force simp: terminals_def)
    then show ?thesis by (intro posed_wives [OF assms(1), of w' n f']) (simp_all add: f(2))
  next
    case (Ev_Wife n dt)
    then obtain f f' p where f: "map_of (wd_wives w) n = Some f" "wife_update E sc dt n (f, wd_person w) = ((f', p), es)"
      "w' = w\<lparr>wd_wives := upd n f' (wd_wives w), wd_person := p\<rparr>"
      using assms(3) changed by (auto split: option.splits if_splits prod.splits)
    have "wf_sequence f' = wf_sequence f" using f(2) by (auto simp: wife_update_def Let_def split: if_splits)
    then show ?thesis using posed_wife_asks [OF assms(1) f(1)]
      by (intro posed_wives [OF assms(1), of w' n f']) (simp_all add: f(3))
  next
    case (Ev_Wife_Touch n other t)
    then obtain f f' where f: "map_of (wd_wives w) n = Some f" "wife_collision sc other t f = (f', es)"
      "w' = w\<lparr>wd_wives := upd n f' (wd_wives w)\<rparr>"
      using assms(3) changed by (auto split: option.splits prod.splits)
    show ?thesis using posed_wife_asks [OF assms(1) f(1)] wife_asks_less [OF f(2)]
      by (intro posed_wives [OF assms(1), of w' n f']) (simp_all add: f(3))
  qed (use posed_frame [OF assms(3)] assms(1) in \<open>simp add: posed_def materials_def terminals_def in_room_def\<close>)+
qed (use assms in simp)

interpretation posed: kept_by_allowed E loaded fair_call posed for E loaded
  by unfold_locales (rule posed_step)

lemma new_world_posed:
  assumes "build_level E rs dev level im = Some (sc, msgs)"
  shows "posed (new_world E pr panel mat m sc)"
proof -
  have "w_sequences r = []" if r: "(i, r) \<in> set (instances ''MrWright'' (make_wright m) sc)" for i r
    using instances_comp [OF r] by (auto simp: make_wright_def)
  moreover have "wf_sequence f = []" if f: "(i, f) \<in> set (instances ''Wife'' (make_wife m) sc)" for i f
    using instances_comp [OF f] by (auto simp: make_wife_def)
  moreover have "''InteractablePoster'' \<in> set interactable" by (simp add: interactable_def)
  then have "distinct (map fst (instances ''InteractablePoster'' (make_poster mat) sc))" by (rule instances_distinct [OF assms])
  ultimately show ?thesis by (fastforce simp: posed_def new_world_def Let_def)
qed

section \<open>Properties\<close>

lemma wright_touch_next:
  assumes "wright_ok (r, am)" "w_sequences r = sq # later"
  shows "\<exists>r' am'. wright_collision E loaded sc pos (person_node sc) (hd sq) (r, am) = Some (r', am') \<and>
    concat (w_sequences r') = tl (concat (w_sequences r))"
proof -
  obtain x xs where sq: "sq = x # xs" using assms by (cases sq) (auto simp: wright_ok_def)
  obtain r' am' where t: "wright_touch E loaded sc pos x (r, am) = (r', am')" by (rule prod.exhaust)
  have "wright_collision E loaded sc pos (person_node sc) x (r, am) = Some (r', am')"
    "concat (w_sequences r') = matched (concat (w_sequences r)) x"
    using wright_touch_step [OF assms(1), of E loaded sc pos x] t by simp_all
  then show ?thesis using assms(2) by (simp add: sq)
qed

lemma poster_shows:
  assumes "distinct (map fst (wd_posters w))" "k \<in> materials w n"
  shows "\<exists>p \<in> fst ` set (in_room w n (wd_posters w)). map_of (wd_posters w) p = Some k"
proof -
  obtain p where p: "(p, k) \<in> set (in_room w n (wd_posters w))" using assms(2) by (auto simp: materials_def)
  then have "map_of (wd_posters w) p = Some k" using assms(1) by (simp add: in_room_def)
  then show ?thesis using p by (force intro: bexI [of _ p])
qed

text \<open>C11. The puzzles of a level never get stuck: however a loaded level has run, and however often
  Mr Wright has rearranged his posters, as long as he waits for a glyph some poster of his room shows
  it, and touching that poster is the next step of his sequences; as long as the wife waits for a
  terminal, it is one of her room, and touching it is the next step.\<close>

theorem puzzles_never_stuck:
  assumes "build_level E rs dev level im = Some (lv, msgs)" "\<not> list_ex misplaced (level_objects rs level im)"
    "world_run E loaded evs (new_world E pr panel mat m lv) = Some (w, es)" "list_all fair_call evs"
  shows "(\<forall>n r. map_of (wd_wrights w) n = Some r \<longrightarrow> w_sequences r \<noteq> [] \<longrightarrow>
      (\<exists>p \<in> fst ` set (in_room w n (wd_posters w)). \<forall>sc. \<exists>w' r'.
         world_step E loaded sc (Ev_Wright_Touch n (person_node sc) p) w = Some (w', []) \<and>
         map_of (wd_wrights w') n = Some r' \<and> concat (w_sequences r') = tl (concat (w_sequences r)))) \<and>
    (\<forall>n f. map_of (wd_wives w) n = Some f \<longrightarrow> wf_sequence f \<noteq> [] \<longrightarrow>
      (\<exists>t \<in> fst ` set (in_room w n (wd_terminals w)). \<forall>sc. \<exists>w' f' es'.
         world_step E loaded sc (Ev_Wife_Touch n (person_node sc) t) w = Some (w', es') \<and>
         map_of (wd_wives w') n = Some f' \<and> wf_sequence f' = tl (wf_sequence f)))"
proof (intro conjI allI impI)
  have live: "live w" by (rule live.run [OF new_world_live [OF assms(1,2)] assms(3)])
  have posed: "posed w" by (rule posed.allowed_run [OF new_world_posed [OF assms(1)] assms(4,3)])
  fix n r assume r: "map_of (wd_wrights w) n = Some r" "w_sequences r \<noteq> []"
  then obtain sq later where sq: "w_sequences r = sq # later" by (cases "w_sequences r") auto
  have ok: "wright_ok (r, wd_audio w)" using drawn_get [OF r(1)] live by (simp add: live_def)
  then have "hd sq \<in> set sq" using sq by (simp add: wright_ok_def)
  then have m: "hd sq \<in> materials w n" using posed_wright_asks [OF posed r(1), of sq] sq by auto
  have "distinct (map fst (wd_posters w))" using posed by (simp add: posed_def)
  from poster_shows [OF this m] obtain p where p: "p \<in> fst ` set (in_room w n (wd_posters w))" "map_of (wd_posters w) p = Some (hd sq)"
    by blast
  have "\<exists>w' r'. world_step E loaded sc (Ev_Wright_Touch n (person_node sc) p) w = Some (w', []) \<and>
      map_of (wd_wrights w') n = Some r' \<and> concat (w_sequences r') = tl (concat (w_sequences r))" for sc
  proof -
    obtain r' am' where t: "wright_collision E loaded sc (world_pos sc n) (person_node sc) (hd sq) (r, wd_audio w) = Some (r', am')"
      "concat (w_sequences r') = tl (concat (w_sequences r))"
      using wright_touch_next [OF ok sq, of E loaded sc "world_pos sc n"] by blast
    show ?thesis
      by (rule exI [of _ "w\<lparr>wd_wrights := upd n r' (wd_wrights w), wd_audio := am'\<rparr>"], rule exI [of _ r'])
        (use r(1) p(2) t in \<open>simp add: map_of_upd\<close>)
  qed
  then show "\<exists>p \<in> fst ` set (in_room w n (wd_posters w)). \<forall>sc. \<exists>w' r'.
      world_step E loaded sc (Ev_Wright_Touch n (person_node sc) p) w = Some (w', []) \<and>
      map_of (wd_wrights w') n = Some r' \<and> concat (w_sequences r') = tl (concat (w_sequences r))"
    using p(1) by blast
next
  have posed: "posed w" by (rule posed.allowed_run [OF new_world_posed [OF assms(1)] assms(4,3)])
  fix n f assume f: "map_of (wd_wives w) n = Some f" "wf_sequence f \<noteq> []"
  then obtain t ts where t: "wf_sequence f = t # ts" by (cases "wf_sequence f") auto
  then have "t \<in> fst ` set (in_room w n (wd_terminals w))" using posed_wife_asks [OF posed f(1)] by (simp add: terminals_def)
  then show "\<exists>t \<in> fst ` set (in_room w n (wd_terminals w)). \<forall>sc. \<exists>w' f' es'.
      world_step E loaded sc (Ev_Wife_Touch n (person_node sc) t) w = Some (w', es') \<and>
      map_of (wd_wives w') n = Some f' \<and> wf_sequence f' = tl (wf_sequence f)"
    by (rule bexI [rotated]) (use f(1) t in \<open>simp add: wife_collision_def map_of_upd\<close>)
qed

section \<open>Witness\<close>

text \<open>Mr Wright's room: one of his and six posters.\<close>

definition xml_wright :: xml where
  "xml_wright = Xml ''object'' [(''interaction'', ''MrWright'')] [] []"

definition xml_poster :: "string \<Rightarrow> xml" where
  "xml_poster nm = Xml ''object'' [(''interaction'', ''InteractablePoster''), (''name'', nm)] [] []"

definition poster_names :: "string list" where
  "poster_names = [''1'', ''2'', ''3'', ''4'', ''5'', ''6'']"

definition res_boss :: resources where
  "res_boss = res_room (xml_wright # map xml_poster poster_names)"

lemma boss_objects: "level_objects res_boss 0 plan0 = xml_wright # map xml_poster poster_names"
  unfolding res_boss_def by (rule objects_one_room) (simp add: xml_wright_def xml_poster_def list_all_iff)

lemma boss_misplaced: "\<not> list_ex misplaced (level_objects res_boss 0 plan0)"
  by (simp add: boss_objects list_ex_iff misplaced_def xml_wright_def xml_poster_def has_attr_def get_attr_def not_for_objects_def)

text \<open>In a level of one room all objects are in the same room.\<close>

lemma one_room_object:
  assumes "build_level E rs dev level plan0 = Some (sc, msgs)" "x \<in> set (level_objects rs level plan0)"
  shows "\<exists>i. (i, 0, fst (load_object E rs x)) \<in> set (numbered sc)"
proof -
  let ?n = "fst (load_object E rs x)"
  let ?ls = "level_style E rs (rs_xml rs (''Levels/'' @ show_int (level + 1) @ ''.xml''))"
  obtain rooms where r: "load_rooms E rs dev level ?ls [(0, 0)] = Some (rooms, msgs)"
    and sc: "sc_nodes sc = rooms @ load_walls E rs ?ls plan0 @
        [person_tree E rs (person_start E plan0), camera_tree E rs (person_start E plan0)]"
    using assms(1) by (auto simp: build_level_def Let_def floor_plan0)
  then obtain q m where q: "rooms = [q]" "load_room E rs dev level ?ls 0 0 = Some (q, m)" by (auto split: option.splits)
  have "x \<in> set (room_objects rs level 0 0)" using assms(2) by (simp add: level_objects_def floor_plan0)
  then have "?n \<in> set (all_nodes q)" by (rule object_in_room [OF q(2)])
  then have "(0, ?n) \<in> set (concat (map (\<lambda>(k, t). map (Pair k) (all_nodes t)) (enumerate 0 (sc_nodes sc))))"
    using sc q(1) by simp
  then show ?thesis unfolding numbered_def
    by (metis in_set_impl_in_set_zip2 enumerate_eq_zip length_upt diff_zero add.left_neutral)
qed

lemma object_interaction:
  assumes "has_attr x ''interaction''" "get_attr x ''interaction'' = cls" "cls \<in> set interactable"
  shows "last (sn_comps (fst (load_object E rs x))) = Comp cls [(''LoadFromXML'', A_xml x)]"
proof -
  have "set interactable \<subseteq> set registered" by (simp add: interactable_def registered_def)
  then have "interaction_comp rs x = ([Comp cls [(''LoadFromXML'', A_xml x)]], [])"
    using assms(2,3) by (auto simp: interaction_comp_def)
  then show ?thesis using assms(1) by (simp add: load_object_def Let_def)
qed

lemma object_has_comp:
  assumes "has_attr x ''interaction''" "get_attr x ''interaction'' = cls" "cls \<in> set interactable"
  shows "Comp cls [(''LoadFromXML'', A_xml x)] \<in> set (sn_comps (fst (load_object E rs x)))"
proof -
  have "sn_comps (fst (load_object E rs x)) \<noteq> []" by (simp add: load_object_def Let_def case_prod_beta)
  from last_in_set [OF this] show ?thesis unfolding object_interaction [OF assms] .
qed

lemma in_room_fst: "(i, a) \<in> set xs \<Longrightarrow> wd_room w i = wd_room w n \<Longrightarrow> i \<in> fst ` set (in_room w n xs)"
  by (rule image_eqI [of _ _ "(i, a)"]) (simp_all add: in_room_def)

lemma numbered_room: "(i, k, n) \<in> set (numbered sc) \<Longrightarrow> wd_room (new_world E pr panel mat m sc) i = Some k"
proof -
  assume "(i, k, n) \<in> set (numbered sc)"
  then have "(i, k) \<in> set (map (\<lambda>(i, k, _). (i, k)) (numbered sc))" by force
  moreover have "map fst (map (\<lambda>(i, k, _). (i, k)) (numbered sc)) = map fst (numbered sc)" by auto
  then have "distinct (map fst (map (\<lambda>(i, k, _). (i, k)) (numbered sc)))" by (simp add: numbered_def)
  ultimately show ?thesis by (simp add: new_world_def Let_def)
qed

lemma boss_posters:
  assumes "build_level E res_boss dev 0 plan0 = Some (lv, msgs)" "(n, 0, nd) \<in> set (numbered lv)"
  shows "6 \<le> length (in_room (new_world E pr panel mat m lv) n (wd_posters (new_world E pr panel mat m lv)))"
proof -
  let ?w = "new_world E pr panel mat m lv"
  let ?xs = "map xml_poster poster_names"
  let ?node = "\<lambda>x. fst (load_object E res_boss x)"
  have at: "has_attr x ''interaction'' \<and> get_attr x ''interaction'' = ''InteractablePoster''" if "x \<in> set ?xs" for x
    using that by (auto simp: xml_poster_def has_attr_def get_attr_def)
  have ip: "''InteractablePoster'' \<in> set interactable" by (simp add: interactable_def)
  have last: "last (sn_comps (?node x)) = Comp ''InteractablePoster'' [(''LoadFromXML'', A_xml x)]" if "x \<in> set ?xs" for x
    using object_interaction [OF _ _ ip] at [OF that] by blast
  have "\<forall>x \<in> set ?xs. \<exists>i. (i, 0, ?node x) \<in> set (numbered lv)"
    using one_room_object [OF assms(1)] by (simp add: boss_objects)
  then obtain l where l: "\<forall>x \<in> set ?xs. (l x, 0, ?node x) \<in> set (numbered lv)" by metis
  have d: "distinct (map fst (numbered lv))" by (simp add: numbered_def)
  have "inj_on l (set ?xs)"
  proof (rule inj_onI)
    fix x y assume xy: "x \<in> set ?xs" "y \<in> set ?xs" "l x = l y"
    then have "(l x, 0, ?node y) \<in> set (numbered lv)" using l by metis
    from eq_key_imp_eq_value [OF d bspec [OF l xy(1)] this] have "?node x = ?node y" by simp
    then have "last (sn_comps (?node x)) = last (sn_comps (?node y))" by (rule arg_cong)
    then show "x = y" unfolding last [OF xy(1)] last [OF xy(2)] by simp
  qed
  then have c: "card (l ` set ?xs) = 6"
    unfolding card_image [OF \<open>inj_on l (set ?xs)\<close>]
    by (simp add: poster_names_def xml_poster_def)
  have "l x \<in> fst ` set (in_room ?w n (wd_posters ?w))" if x: "x \<in> set ?xs" for x
  proof -
    have n: "(l x, 0, ?node x) \<in> set (numbered lv)" using l x by blast
    have "Comp ''InteractablePoster'' [(''LoadFromXML'', A_xml x)] \<in> set (sn_comps (?node x))"
      using object_has_comp [OF _ _ ip] at [OF x] by blast
    then have "(l x, make_poster mat (l x) (?node x) (Comp ''InteractablePoster'' [(''LoadFromXML'', A_xml x)])) \<in> set (wd_posters ?w)"
      using instances_intro [OF n, of _ "''InteractablePoster''" "make_poster mat"] by (simp add: new_world_def Let_def)
    then show ?thesis by (rule in_room_fst) (simp add: numbered_room [OF n] numbered_room [OF assms(2)])
  qed
  then have "l ` set ?xs \<subseteq> set (map fst (in_room ?w n (wd_posters ?w)))" by auto
  then have "card (l ` set ?xs) \<le> length (in_room ?w n (wd_posters ?w))"
    using card_mono [OF finite_set] card_length by (metis le_trans length_map)
  then show ?thesis using c by simp
qed

theorem puzzles_never_stuck_witness:
  "\<exists>lv msgs n w r p w' r'. build_level engine32 res_boss False 0 plan0 = Some (lv, msgs) \<and>
     world_run engine32 (\<lambda>_. True) [(scene1, Ev_Wright_Start n (\<lambda>_ _. 0) (\<lambda>_. quat0))] (world1 lv) = Some (w, []) \<and>
     map_of (wd_wrights w) n = Some r \<and> map length (w_sequences r) = [2, 4, 6] \<and>
     world_step engine32 (\<lambda>_. True) scene1 (Ev_Wright_Touch n (person_node scene1) p) w = Some (w', []) \<and>
     map_of (wd_wrights w') n = Some r' \<and> concat (w_sequences r') = tl (concat (w_sequences r))"
proof -
  have "\<exists>lv msgs. build_level engine32 res_boss False 0 plan0 = Some (lv, msgs)"
    unfolding res_boss_def by (rule build_one_room) (simp add: xml_wright_def xml_poster_def list_all_iff)
  then obtain lv msgs where b: "build_level engine32 res_boss False 0 plan0 = Some (lv, msgs)" by blast
  let ?w = "world1 lv" and ?ev = "\<lambda>n. Ev_Wright_Start n (\<lambda>_ _. 0) (\<lambda>_. quat0)"
  have x: "xml_wright \<in> set (level_objects res_boss 0 plan0)" by (simp add: boss_objects)
  have mw: "''MrWright'' \<in> set interactable" by (simp add: interactable_def)
  have at: "has_attr xml_wright ''interaction''" "get_attr xml_wright ''interaction'' = ''MrWright''"
    by (simp_all add: xml_wright_def has_attr_def get_attr_def)
  obtain n where n: "(n, 0, fst (load_object engine32 res_boss xml_wright)) \<in> set (numbered lv)"
    using one_room_object [OF b x] by blast
  have "(n, make_wright memory0 n (fst (load_object engine32 res_boss xml_wright)) (Comp ''MrWright'' [(''LoadFromXML'', A_xml xml_wright)]))
      \<in> set (wd_wrights ?w)"
    using instances_intro [OF n object_has_comp [OF at mw], of "''MrWright''" "make_wright memory0"] by (simp add: new_world_def Let_def)
  then have in_w: "n \<in> fst ` set (wd_wrights ?w)" by force
  then obtain r0 where r0: "map_of (wd_wrights ?w) n = Some r0" by (metis map_of_eq_None_iff option.exhaust)
  have start: "wd_started ?w = {}" by (simp add: new_world_def Let_def)
  have f: "fair (\<lambda>_ _. 0)" by (simp add: fair_def)
  let ?ps = "map (\<lambda>(p, k). ((p, world_pos scene1 p, quat0), k)) (in_room ?w n (wd_posters ?w))"
  have "wright_start engine32 (\<lambda>_ _. 0) (world_pos scene1 n) ?ps r0 \<noteq> None"
    using wright_start_None [OF f] boss_posters [OF b n, of 1 0 "\<lambda>_. 0" memory0] by simp
  then obtain r ts where r: "wright_start engine32 (\<lambda>_ _. 0) (world_pos scene1 n) ?ps r0 = Some (r, ts)" by auto
  let ?w1 = "?w\<lparr>wd_wrights := upd n r (wd_wrights ?w), wd_started := {n}\<rparr>"
  have run: "world_run engine32 (\<lambda>_. True) [(scene1, ?ev n)] ?w = Some (?w1, [])" using r0 r start by simp
  have shape: "map length (w_sequences r) = [2, 4, 6]" using wright_start_shape [OF f r] by simp
  have mr: "map_of (wd_wrights ?w1) n = Some r" using r0 by (simp add: map_of_upd)
  have fc: "list_all fair_call [(scene1, ?ev n)]" using f by (simp add: fair_call_def)
  have "w_sequences r \<noteq> []" using shape by auto
  then obtain p w' r' where "world_step engine32 (\<lambda>_. True) scene1 (Ev_Wright_Touch n (person_node scene1) p) ?w1 = Some (w', [])"
    "map_of (wd_wrights w') n = Some r'" "concat (w_sequences r') = tl (concat (w_sequences r))"
    using puzzles_never_stuck [OF b boss_misplaced run fc] mr by blast
  then show ?thesis using b run mr shape by - ((rule exI)+, (intro conjI; assumption))
qed

end
