(* ===== verification/WorldEnd.thy ===== *)
theory WorldEnd
  imports WorldBoss
begin

text \<open>
  How a running level ends: by one of the calls that may end it, and by the entry without a sound
  in the queue of clips, which only a beaten boss (or an audio zone whose file is missing) puts there.
\<close>

section \<open>The silent entry\<close>

definition silent :: "audio_entry list \<Rightarrow> bool" where
  "silent es \<longleftrightarrow> list_ex (\<lambda>e. ae_sound e = None) es"

text \<open>A boss that is beaten, and a zone without its sound.\<close>

definition beaten :: "world \<Rightarrow> bool" where
  "beaten w \<longleftrightarrow> (\<exists>n b. map_of (wd_berthas w) n = Some b \<and> b_health b \<le> 0) \<or>
     (\<exists>n \<in> wd_started w. \<exists>r. map_of (wd_wrights w) n = Some r \<and> w_sequences r = [])"

definition mute_zone :: "world \<Rightarrow> bool" where
  "mute_zone w \<longleftrightarrow> (\<exists>n z. map_of (wd_zones w) n = Some z \<and> silent (az_queue z))"

definition quiet :: "world \<Rightarrow> world \<Rightarrow> bool" where
  "quiet w0 w \<longleftrightarrow> (silent (am_queue (wd_audio w)) \<longrightarrow> mute_zone w0 \<or> beaten w) \<and> (mute_zone w \<longrightarrow> mute_zone w0) \<and>
     (\<forall>n r. map_of (wd_wrights w) n = Some r \<longrightarrow> n \<notin> wd_started w \<longrightarrow> w_sequences r = [])"

lemma silent_play: "silent (am_queue (am_play xs False am)) = silent xs"
  by (simp add: silent_def am_play_def v_insert0_def list_ex_iff)

lemma silent_tick:
  assumes "am_scene_update E dt p am = (am', es)"
  shows "(silent (am_queue am') \<longrightarrow> silent (am_queue am)) \<and> (End_Level l t \<in> set es \<longrightarrow> silent (am_queue am) \<and> \<not> l \<and> \<not> t \<and> \<not> p)"
  using assms
  by (cases "am_queue am" rule: rev_cases)
    (auto simp: am_scene_update_def v_back_def v_pop_def v_push_def silent_def split: if_splits option.splits)

lemma bertha_damaged:
  assumes "bertha_take_damage E loaded d (b, am) = (b', am')"
  shows "(b_health b \<le> 0 \<longrightarrow> b_health b' \<le> 0) \<and> (am' = am \<or> b_health b' \<le> 0)"
  using assms by (auto simp: bertha_take_damage_def Let_def split: if_splits)

lemma wright_touch_audio:
  assumes "wright_collision E loaded sc pos other k (r, am) = Some (r', am')"
  shows "(w_sequences r = [] \<longrightarrow> r' = r \<and> am' = am) \<and> (am' = am \<or> w_sequences r' = [])"
  using assms by (auto simp: wright_collision_def Let_def split: list.splits if_splits option.splits)

text \<open>What most calls leave alone.\<close>

lemma quiet_frame:
  assumes "world_step E loaded sc ev w = Some (w', es)"
    "\<nexists>dt p. ev = Ev_Audio dt p" "\<nexists>n m. ev = Ev_Zone n m" "\<nexists>n dt y. ev = Ev_Bertha n dt y"
    "\<nexists>n m. ev = Ev_Boss_Laser_Touch n m" "\<nexists>n p q. ev = Ev_Wright_Start n p q" "\<nexists>n p c dt. ev = Ev_Wright n p c dt"
    "\<nexists>n m p. ev = Ev_Wright_Touch n m p"
  shows "wd_audio w' = wd_audio w \<and> wd_zones w' = wd_zones w \<and> wd_berthas w' = wd_berthas w \<and>
    wd_wrights w' = wd_wrights w \<and> wd_started w' = wd_started w"
  using assms by (cases ev) (force split: option.splits prod.splits if_splits)+

lemma quiet_same:
  assumes "quiet w0 w" "wd_audio w' = wd_audio w" "wd_zones w' = wd_zones w" "wd_berthas w' = wd_berthas w"
    "wd_wrights w' = wd_wrights w" "wd_started w' = wd_started w"
  shows "quiet w0 w'"
  using assms by (simp add: quiet_def beaten_def mute_zone_def)

lemma beaten_berthas:
  assumes "beaten w" "wd_berthas w' = upd n b' (wd_berthas w)" "wd_wrights w' = wd_wrights w" "wd_started w' = wd_started w"
    "\<And>b. map_of (wd_berthas w) n = Some b \<Longrightarrow> b_health b \<le> 0 \<Longrightarrow> b_health b' \<le> 0"
  shows "beaten w'"
proof -
  consider m b where "map_of (wd_berthas w) m = Some b" "b_health b \<le> 0"
    | m r where "m \<in> wd_started w" "map_of (wd_wrights w) m = Some r" "w_sequences r = []"
    using assms(1) by (auto simp: beaten_def)
  then show ?thesis
  proof cases
    case 1
    then have "map_of (wd_berthas w') m = Some (if m = n then b' else b)" by (simp add: assms(2) map_of_upd)
    then show ?thesis using 1 assms(5) unfolding beaten_def by (metis)
  next
    case 2
    then show ?thesis using assms(3,4) by (auto simp: beaten_def)
  qed
qed

lemma beaten_wrights:
  assumes "beaten w" "wd_wrights w' = upd n r' (wd_wrights w)" "wd_berthas w' = wd_berthas w" "wd_started w \<subseteq> wd_started w'"
    "\<And>r. map_of (wd_wrights w) n = Some r \<Longrightarrow> n \<in> wd_started w \<Longrightarrow> w_sequences r = [] \<Longrightarrow> w_sequences r' = []"
  shows "beaten w'"
proof -
  consider m b where "map_of (wd_berthas w) m = Some b" "b_health b \<le> 0"
    | m r where "m \<in> wd_started w" "map_of (wd_wrights w) m = Some r" "w_sequences r = []"
    using assms(1) by (auto simp: beaten_def)
  then show ?thesis
  proof cases
    case 1
    then show ?thesis using assms(3) by (auto simp: beaten_def)
  next
    case 2
    then have "map_of (wd_wrights w') m = Some (if m = n then r' else r)" by (simp add: assms(2) map_of_upd)
    moreover have "w_sequences (if m = n then r' else r) = []" using 2 assms(5) by auto
    ultimately show ?thesis using 2(1) assms(4) unfolding beaten_def by blast
  qed
qed

lemma quiet_step:
  assumes q: "quiet w0 w" and step: "world_step E loaded sc ev w = Some (w', es)"
  shows "quiet w0 w'"
proof (cases "w' = w")
  case changed: False
  show ?thesis
  proof (cases ev)
    case (Ev_Audio dt p)
    obtain am fs where a: "am_scene_update E dt p (wd_audio w) = (am, fs)" by (rule prod.exhaust)
    have w': "w' = w\<lparr>wd_audio := am\<rparr>" using step Ev_Audio a by simp
    show ?thesis using q silent_tick [OF a] by (simp add: w' quiet_def beaten_def mute_zone_def)
  next
    case (Ev_Zone n m)
    then obtain z z' am where z: "map_of (wd_zones w) n = Some z" "az_collision sc m z (wd_audio w) = (z', am)"
      "w' = w\<lparr>wd_audio := am, wd_zones := (if az_removed z' then drop_node n (wd_zones w) else upd n z' (wd_zones w))\<rparr>"
      using step changed by (auto split: option.splits prod.splits)
    have z': "az_queue z' = az_queue z" "am = wd_audio w \<or> am = am_play (az_queue z) False (wd_audio w)"
      using z(2) by (auto simp: az_collision_def split: if_splits)
    have "\<exists>y. map_of (wd_zones w) k = Some y \<and> az_queue y = az_queue x" if "map_of (wd_zones w') k = Some x" for k x
      using that z(1) z'(1) by (cases "k = n") (auto simp: z(3) map_of_upd map_of_drop split: if_splits option.splits)
    then have m: "mute_zone w' \<longrightarrow> mute_zone w" unfolding mute_zone_def by metis
    have "silent (az_queue z) \<longrightarrow> mute_zone w" using z(1) by (auto simp: mute_zone_def)
    then have "silent (am_queue am) \<longrightarrow> mute_zone w0 \<or> beaten w" using q z'(2) by (auto simp: quiet_def silent_play)
    then show ?thesis using q m by (simp add: z(3) quiet_def beaten_def)
  next
    case (Ev_Bertha n dt y)
    then obtain b b' p where b: "map_of (wd_berthas w) n = Some b" "bertha_update E sc dt y n (b, wd_person w) = (b', p)"
      "w' = w\<lparr>wd_berthas := upd n b' (wd_berthas w), wd_person := p\<rparr>"
      using step changed by (auto split: option.splits prod.splits)
    have "b_health b' = b_health b" using b(2)
      by (auto simp: bertha_update_def bertha_charge_def bertha_bar_def Let_def split: if_splits)
    then have "beaten w \<longrightarrow> beaten w'" using beaten_berthas [of w w' n b'] b(1) by (simp add: b(3))
    then show ?thesis using q by (auto simp: quiet_def mute_zone_def b(3))
  next
    case (Ev_Boss_Laser_Touch n m)
    then obtain l where l: "map_of (wd_boss_lasers w) n = Some l" using step changed by (auto split: option.splits)
    show ?thesis
    proof (cases "map_of (wd_berthas w) m")
      case None
      then have "wd_audio w' = wd_audio w \<and> wd_zones w' = wd_zones w \<and> wd_berthas w' = wd_berthas w \<and> wd_wrights w' = wd_wrights w \<and>
          wd_started w' = wd_started w"
        using step Ev_Boss_Laser_Touch l by (auto simp: boss_laser_collision_def split: prod.splits if_splits)
      then show ?thesis using quiet_same [OF q] by blast
    next
      case (Some b)
      obtain p b' am fs where c: "boss_laser_collision E loaded sc m True l (wd_person w, b, wd_audio w) = ((p, b', am), fs)"
        by (metis prod.exhaust)
      have w': "w' = w\<lparr>wd_person := p, wd_berthas := upd m b' (wd_berthas w), wd_audio := am\<rparr>"
        using step Ev_Boss_Laser_Touch l Some c by simp
      have h: "(b_health b \<le> 0 \<longrightarrow> b_health b' \<le> 0) \<and> (am = wd_audio w \<or> b_health b' \<le> 0)"
        using c bertha_damaged [of E loaded "flt E (5 / 1000)" b "wd_audio w"]
        by (auto simp: boss_laser_collision_def split: prod.splits if_splits)
      have "beaten w \<longrightarrow> beaten w'" using beaten_berthas [of w w' m b'] Some h by (simp add: w')
      moreover have "map_of (wd_berthas w') m = Some b'" using Some by (simp add: w' map_of_upd)
      then have "b_health b' \<le> 0 \<longrightarrow> beaten w'" by (auto simp: beaten_def)
      ultimately show ?thesis using q h by (auto simp: quiet_def mute_zone_def w')
    qed
  next
    case (Ev_Wright_Start n pick rot)
    then obtain r r' ins where r: "map_of (wd_wrights w) n = Some r" "n \<notin> wd_started w"
      "w' = w\<lparr>wd_wrights := upd n r' (wd_wrights w), wd_started := insert n (wd_started w)\<rparr>"
      using step changed by (auto split: option.splits if_splits)
    have "beaten w \<longrightarrow> beaten w'" using beaten_wrights [of w w' n r'] r(2) by (auto simp: r(3))
    then show ?thesis using q by (auto simp: quiet_def mute_zone_def r(3) map_of_upd split: option.splits)
  next
    case (Ev_Wright n pick c dt)
    then obtain r r' ks where r: "map_of (wd_wrights w) n = Some r"
      "wright_update E pick c dt (r, map snd (in_room w n (wd_posters w))) = (r', ks)"
      "w' = w\<lparr>wd_wrights := upd n r' (wd_wrights w),
                wd_posters := put_back (zip (map fst (in_room w n (wd_posters w))) ks) (wd_posters w)\<rparr>"
      using step changed by (auto split: option.splits if_splits prod.splits)
    have s: "w_sequences r' = w_sequences r" using r(2) by (auto simp: wright_update_def Let_def split: if_splits)
    then have "beaten w \<longrightarrow> beaten w'" using beaten_wrights [of w w' n r'] r(1) by (simp add: r(3))
    then show ?thesis using q r(1) s by (auto simp: quiet_def mute_zone_def r(3) map_of_upd split: option.splits)
  next
    case (Ev_Wright_Touch n m p)
    then obtain r k r' am where r: "map_of (wd_wrights w) n = Some r"
      "wright_collision E loaded sc (world_pos sc n) m k (r, wd_audio w) = Some (r', am)"
      "w' = w\<lparr>wd_wrights := upd n r' (wd_wrights w), wd_audio := am\<rparr>"
      using step changed by (auto split: option.splits)
    note t = wright_touch_audio [OF r(2)]
    have b: "beaten w \<longrightarrow> beaten w'" using beaten_wrights [of w w' n r'] r(1) t by (auto simp: r(3))
    have u: "n \<notin> wd_started w \<longrightarrow> r' = r \<and> am = wd_audio w" using q r(1) t by (simp add: quiet_def)
    have "n \<in> wd_started w \<and> w_sequences r' = [] \<longrightarrow> beaten w'" using r(1) by (auto simp: beaten_def r(3) map_of_upd)
    then have "silent (am_queue am) \<longrightarrow> mute_zone w0 \<or> beaten w'" using q b t u by (auto simp: quiet_def)
    then show ?thesis using q u r(1) by (auto simp: quiet_def mute_zone_def r(3) map_of_upd split: option.splits)
  qed (use quiet_frame [OF step] quiet_same [OF q] in blast)+
qed (use q in simp)

interpretation quiet: kept_by_calls E loaded "quiet w0" for E loaded w0
  by unfold_locales (rule quiet_step)

lemma new_world_quiet: "quiet (new_world E pr panel mat m lv) (new_world E pr panel mat m lv)"
proof -
  have "w_sequences r = []" if "map_of (wd_wrights (new_world E pr panel mat m lv)) n = Some r" for n r
  proof -
    have "(n, r) \<in> set (instances ''MrWright'' (make_wright m) lv)"
      using map_of_SomeD [OF that] by (simp add: new_world_def Let_def)
    then show ?thesis using instances_comp by (fastforce simp: make_wright_def)
  qed
  moreover have "am_queue (wd_audio (new_world E pr panel mat m lv)) = []" by (simp add: new_world_def Let_def am_new_def)
  ultimately show ?thesis by (simp add: quiet_def silent_def)
qed

section \<open>The end\<close>

text \<open>Which calls end the level, and how.\<close>

definition ends :: "urho \<Rightarrow> scene \<Rightarrow> world_event \<Rightarrow> world \<Rightarrow> bool \<Rightarrow> bool \<Rightarrow> bool" where
  "ends E sc ev w lost timed \<longleftrightarrow>
     (case ev of
        Ev_Guard_Touch n other \<Rightarrow> other = person_node sc \<and> n \<in> fst ` set (wd_guards w) \<and> lost \<and> \<not> timed
      | Ev_Bertha_Touch n other \<Rightarrow> other = person_node sc \<and> n \<in> fst ` set (wd_berthas w) \<and> lost \<and> \<not> timed
      | Ev_Boss_Laser_Touch n other \<Rightarrow>
          other = person_node sc \<and> 0 < p_health (wd_person w) \<and> fsub E (p_health (wd_person w)) (flt E (5 / 1000)) \<le> 0 \<and>
          lost \<and> \<not> timed
      | Ev_Wife n dt \<Rightarrow>
          n \<in> wd_wife_started w \<and> (\<exists>f. map_of (wd_wives w) n = Some f \<and> wf_sequence f = []) \<and>
          room_of E (world_pos sc n) = room_of E (person_pos sc) \<and> \<not> lost \<and> timed
      | Ev_Stairs n \<Rightarrow>
          n \<in> fst ` set (wd_stairs w) \<and> vec_len2 E (vec_sub E (world_pos sc n) (person_pos sc)) \<le> 25 \<and> \<not> lost \<and> \<not> timed
      | Ev_Audio dt playing \<Rightarrow> \<not> playing \<and> silent (am_queue (wd_audio w)) \<and> \<not> lost \<and> \<not> timed
      | _ \<Rightarrow> False)"

lemma steer_no_end: "person_steer E sc inp p = (p', es) \<Longrightarrow> End_Level l t \<notin> set es"
  by (auto simp: person_steer_def Let_def split: prod.splits if_splits)

lemma no_end:
  "person_update E sc dt inp p = Some (p', es) \<Longrightarrow> End_Level l t \<notin> set es"
  "thrower_update E j k pos dir fresh com sc1 st = (st', th, es) \<Longrightarrow> End_Level l t \<notin> set es"
  "pickup_update E sc dt cs tw pk iv = (pk', iv', es) \<Longrightarrow> End_Level l t \<notin> set es"
  "sd_update E dt n pos d = (d', es) \<Longrightarrow> End_Level l t \<notin> set es"
  "thrown_collision E sc n playing gs = (gs', es) \<Longrightarrow> End_Level l t \<notin> set es"
  "padlock_update E sc n screen gw gh iv q = Some (q', es) \<Longrightarrow> End_Level l t \<notin> set es"
  "laser_update E dt lz lights = (lz', lights', es) \<Longrightarrow> End_Level l t \<notin> set es"
  "laser_collision sc m playing lz gs = (lz', gs', es) \<Longrightarrow> End_Level l t \<notin> set es"
  "door_start E sc m a b dr p = (dr', p', es) \<Longrightarrow> End_Level l t \<notin> set es"
  "door_end sc m dr = (dr', es) \<Longrightarrow> End_Level l t \<notin> set es"
  "wife_start E pick ts f = (f', ins, es) \<Longrightarrow> End_Level l t \<notin> set es"
  "wife_collision sc m te f = (f', es) \<Longrightarrow> End_Level l t \<notin> set es"
  subgoal using steer_no_end by (fastforce simp: person_update_def split: option.splits prod.splits)
  subgoal by (auto simp: thrower_update_def Let_def split: option.splits prod.splits if_splits)
  subgoal by (auto simp: pickup_update_def Let_def split: option.splits prod.splits if_splits)
  subgoal by (auto simp: sd_update_def Let_def split: option.splits prod.splits if_splits)
  subgoal by (auto simp: thrown_collision_def Let_def split: option.splits prod.splits if_splits)
  subgoal by (auto simp: padlock_update_def Let_def split: option.splits prod.splits if_splits)
  subgoal by (auto simp: laser_update_def laser_switch_def Let_def split: option.splits prod.splits if_splits)
  subgoal by (auto simp: laser_collision_def laser_alarm_def Let_def split: option.splits prod.splits if_splits)
  subgoal by (auto simp: door_start_def Let_def split: option.splits prod.splits if_splits)
  subgoal by (auto simp: door_end_def Let_def split: option.splits prod.splits if_splits)
  subgoal by (auto simp: wife_start_def Let_def)
  subgoal by (auto simp: wife_collision_def split: list.splits if_splits)
  done

lemma step_ends:
  assumes "world_step E loaded sc ev w = Some (w', es)" "End_Level lost timed \<in> set es"
  shows "ends E sc ev w lost timed"
proof (cases ev)
  case (Ev_Audio dt p)
  obtain am fs where a: "am_scene_update E dt p (wd_audio w) = (am, fs)" by (rule prod.exhaust)
  then show ?thesis using assms Ev_Audio silent_tick [OF a, of lost timed] by (simp add: ends_def)
next
  case (Ev_Boss_Laser_Touch n m)
  then show ?thesis using assms
    by (auto simp: ends_def boss_laser_collision_def person_take_damage_def Let_def split: option.splits prod.splits if_splits)
next
  case (Ev_Wife n dt)
  then show ?thesis using assms
    by (auto simp: ends_def wife_update_def Let_def split: option.splits prod.splits if_splits)
next
  case (Ev_Stairs n)
  then show ?thesis using assms by (auto simp: ends_def stairs_update_def split: if_splits)
next
  case (Ev_Guard_Touch n m)
  then show ?thesis using assms by (auto simp: ends_def guard_collision_def split: if_splits)
next
  case (Ev_Bertha_Touch n m)
  then show ?thesis using assms by (auto simp: ends_def bertha_collision_def split: if_splits)
qed (use assms in \<open>force dest: no_end split: option.splits prod.splits if_splits\<close>)+

text \<open>C12. A level ends for a reason only: in any run of a level a call ends it as lost only when a
  guard or Bertha touches the player, or a hit of a boss laser uses up the health he has; as won on
  time only in a frame in the room of a wife whose terminals have all been touched; and as completed
  only within five units of some stairs, or when the clips come to the entry without a sound, which is
  in the queue only if a boss is beaten (Bertha has no health left or Mr Wright's three sequences have
  been touched) or an audio zone of the level names a missing sound.\<close>

theorem level_ends_for_a_reason:
  assumes "world_run E loaded evs (new_world E pr panel mat m lv) = Some (w, es)"
    "world_step E loaded sc ev w = Some (w', es')" "End_Level lost timed \<in> set es'"
  shows "case ev of
      Ev_Guard_Touch n other \<Rightarrow> other = person_node sc \<and> n \<in> fst ` set (wd_guards w) \<and> lost \<and> \<not> timed
    | Ev_Bertha_Touch n other \<Rightarrow> other = person_node sc \<and> n \<in> fst ` set (wd_berthas w) \<and> lost \<and> \<not> timed
    | Ev_Boss_Laser_Touch n other \<Rightarrow>
        other = person_node sc \<and> 0 < p_health (wd_person w) \<and> p_health (wd_person w') = 0 \<and> lost \<and> \<not> timed
    | Ev_Wife n dt \<Rightarrow>
        n \<in> wd_wife_started w \<and> (\<exists>f. map_of (wd_wives w) n = Some f \<and> wf_sequence f = []) \<and>
        room_of E (world_pos sc n) = room_of E (person_pos sc) \<and> \<not> lost \<and> timed
    | Ev_Stairs n \<Rightarrow>
        n \<in> fst ` set (wd_stairs w) \<and> vec_len2 E (vec_sub E (world_pos sc n) (person_pos sc)) \<le> 25 \<and> \<not> lost \<and> \<not> timed
    | Ev_Audio dt playing \<Rightarrow>
        \<not> playing \<and> \<not> lost \<and> \<not> timed \<and>
        ((\<exists>n b. map_of (wd_berthas w) n = Some b \<and> b_health b \<le> 0) \<or>
         (\<exists>n \<in> wd_started w. \<exists>r. map_of (wd_wrights w) n = Some r \<and> w_sequences r = []) \<or>
         mute_zone (new_world E pr panel mat m lv))
    | _ \<Rightarrow> False"
proof -
  have q: "quiet (new_world E pr panel mat m lv) w" by (rule quiet.run [OF new_world_quiet assms(1)])
  have e: "ends E sc ev w lost timed" by (rule step_ends [OF assms(2,3)])
  show ?thesis
  proof (cases ev)
    case (Ev_Audio dt p)
    then show ?thesis using e q by (auto simp: ends_def quiet_def beaten_def)
  next
    case (Ev_Boss_Laser_Touch n m)
    then have "p_health (wd_person w') = 0" using assms(2,3)
      by (auto simp: boss_laser_collision_def person_take_damage_def Let_def split: option.splits prod.splits if_splits)
    then show ?thesis using e Ev_Boss_Laser_Touch by (simp add: ends_def)
  qed (use e in \<open>simp add: ends_def\<close>)+
qed

section \<open>Witness\<close>

definition xml_stairs :: xml where
  "xml_stairs = Xml ''object'' [(''interaction'', ''Stairs'')] [] []"

theorem level_ends_for_a_reason_witness:
  "\<exists>lv msgs n w. build_level engine32 (res_room [xml_stairs]) False 0 plan0 = Some (lv, msgs) \<and>
     world_step engine32 (\<lambda>_. True) scene1 (Ev_Stairs n) (world1 lv) = Some (w, [End_Level False False]) \<and>
     n \<in> fst ` set (wd_stairs (world1 lv))"
proof -
  have o: "list_all (\<lambda>x. xml_tag x = ''object'') [xml_stairs]" by (simp add: xml_stairs_def)
  obtain lv msgs where b: "build_level engine32 (res_room [xml_stairs]) False 0 plan0 = Some (lv, msgs)"
    using build_one_room [OF o] by blast
  have x: "xml_stairs \<in> set (level_objects (res_room [xml_stairs]) 0 plan0)" "has_attr xml_stairs ''interaction''"
    "get_attr xml_stairs ''interaction'' = ''Stairs''"
    unfolding objects_one_room [OF o] by (simp_all add: xml_stairs_def has_attr_def get_attr_def)
  from object_instance [OF b x, of "\<lambda>_ _ _. ()"] obtain n where "(n, ()) \<in> set (wd_stairs (world1 lv))"
    by (auto simp: new_world_def Let_def interactable_def)
  then have n: "n \<in> fst ` set (wd_stairs (world1 lv))" by force
  have near: "\<not> 25 < vec_len2 engine32 (vec_sub engine32 (world_pos scene1 n) (person_pos scene1))"
    by (simp add: scene1_def engine32_def V3_def)
  then have s: "world_step engine32 (\<lambda>_. True) scene1 (Ev_Stairs n) (world1 lv) = Some (world1 lv, [End_Level False False])"
    using n by (simp add: stairs_update_def)
  have r: "world_run engine32 (\<lambda>_. True) [] (world1 lv) = Some (world1 lv, [])" by simp
  have "n \<in> fst ` set (wd_stairs (world1 lv))" using level_ends_for_a_reason [OF r s, of False False] by simp
  then show ?thesis using b s by blast
qed

end
