(* ===== verification/Spec2Isabelle.thy ===== *)
theory Spec2Isabelle
  imports Posters GameProps WorldEnd
begin

text \<open>
  A verification development for The Traitor, a stealth game written in C++ against the engine
  Urho3D (\<open>src/\<close> of the repository; the paths below are relative to it).

  \<^bold>\<open>The program.\<close> \<open>Game\<close> starts the engine, keeps the screen (menu, intro, level, credits) and the
  score, and builds a level from an image (the floor plan) and XML files (the rooms' contents). A
  level is a tree of nodes whose components do the rest: the engine calls each of them once per
  frame and when bodies collide. Components find each other through the scene: they take the node
  called Person, its inventory and its health, the guards, the room of a position by its name, and
  the audio manager, whose queue plays voices and whose null entry ends the level; through
  \<open>Game::EndLevel\<close> the level comes back to \<open>Game\<close>.

  \<^bold>\<open>How it is modelled.\<close> Each class is a record with its fields, each operation a function on it, in the
  order of the code; what an operation asks of the engine in a frame is an argument (records
  \<open>scene\<close>, \<open>person_in\<close>, \<open>camera_in\<close>, \<open>frame_in\<close>), what it tells the engine is a list of effects
  or calls. The engine itself is not part of the repository: its pure functions are the fields of
  a record \<open>urho\<close>, every theorem holds for all of them, and the few that need more name the laws
  they use (\<open>float_unit\<close>: rounding to nearest, proved for binary32 in \<open>Float32\<close>;
  \<open>vector_unit\<close>: addition by component, proved for \<open>engine32\<close>). A null pointer that is used, an
  element of an empty vector and a loop that does not end are \<open>None\<close>. A \<open>float\<close> is a real number
  and every operation on it rounds; infinities and NaN do not occur. An \<open>int\<close> is an integer: the
  counters and scores of the game stay far below the width, except for the total score, which no
  run bounds and whose overflow is not modelled.

  \<^bold>\<open>Theories.\<close>
  \<^item> \<open>Prelude\<close>: vectors of the engine's containers, truncation, rounding, formatted numbers, hint collections.
  \<^item> \<open>Float32\<close>, \<open>Timer\<close>: the arithmetic unit as a locale and binary32 as its instance; the locales
    \<open>countdown\<close> and \<open>periodic\<close> for timers.
  \<^item> \<open>Engine\<close>: the interface to the engine, XML elements, effects, the room of a position.
  \<^item> \<open>Inventory\<close> (\<open>Inventory.cpp\<close>, \<open>Pickup.cpp\<close>), \<open>AudioQueue\<close> (\<open>AudioManager.cpp\<close>, \<open>AudioZone.cpp\<close>),
    \<open>Health\<close> (the contract of what can be damaged), \<open>Person\<close>, \<open>Guard\<close>, \<open>Throwing\<close> (\<open>Thrower.cpp\<close>,
    \<open>SelfDestroy.cpp\<close>), \<open>Door\<close>, \<open>Interactables\<close> (\<open>Terminal.cpp\<close>, \<open>Padlock.cpp\<close>, \<open>Stairs.cpp\<close>,
    \<open>TutorialPoster.cpp\<close>, \<open>ClickMarker.cpp\<close>), \<open>Posters\<close> (\<open>AnimatedPoster.cpp\<close>), \<open>Lasers\<close> (\<open>Laser.cpp\<close>,
    \<open>SecurityCamera.cpp\<close>), \<open>Bertha\<close> (\<open>BossBertha.cpp\<close>, \<open>BossLaser.cpp\<close>), \<open>Sequences\<close> (\<open>MrWright.cpp\<close>,
    \<open>Wife.cpp\<close>), \<open>Camera\<close> (\<open>CameraController.cpp\<close>), \<open>Analytics\<close> (and \<open>CrashHandler.cpp\<close>): one component each.
    Locales are their interfaces: \<open>item_store\<close>, \<open>audio_queue\<close>, \<open>damageable\<close>, \<open>beam\<close>, \<open>sequence_lock\<close>,
    each interpreted on the model of the code.
  \<^item> \<open>SceneTree\<close>, \<open>Level\<close>, \<open>TitleScene\<close>: trees of nodes, building a level (\<open>Game::LoadLevel\<close>), the
    scene behind the title. \<open>LevelRun\<close>: the loaded level together with the player, the camera and the guards.
  \<^item> \<open>SceneTyping\<close>: what each class takes from its surroundings without a check (components of its node, of
    children, of the player's node, of the scene; the camera's controller), and the typing of scenes by it.
  \<^item> \<open>World\<close>: a running level as a whole, the player, the inventory, the audio manager, the items that have
    been thrown and all components that affect each other, made from the loaded scene as their constructors,
    \<open>LoadFromXML\<close> and \<open>DelayedStart\<close> make them; a step is one call of the engine, an update or a
    collision, and a run is any sequence of calls. The locales \<open>kept_by_allowed\<close> and \<open>kept_by_calls\<close> lift
    what calls keep to runs. \<open>WorldLoad\<close>: where the components of a loaded level come from. \<open>WorldRun\<close>: no
    failure, items, padlocks. \<open>WorldBoss\<close>: the puzzles. \<open>WorldEnd\<close>: how levels end. The components that
    only change what is their own (terminals, posters of the tutorial, animated posters, click markers,
    the camera) are not in the world.
  \<^item> \<open>Game\<close>: the state of \<open>Game\<close> (its fields and the static variables of \<open>HandleUpdate\<close>), starting,
    loading, ending, controllers. \<open>Frame\<close>: \<open>HandleUpdate\<close> in its parts, and \<open>HandlePostRenderUpdate\<close>.
    \<open>GameRun\<close>: the loops of a frame end, reachable states and their invariant, no frame fails.
    \<open>GameSpec\<close>: the abstract machine of the screens and the refinement. \<open>GameProps\<close>: the properties of the game.

  \<^bold>\<open>What is shown.\<close> Of the game: no frame of a reachable state fails (but for the crash key), its
  screens refine an abstract machine, levels follow each other as they should, the score, the
  clock text, the cheat code, the animated materials. Of the loader: which levels load, that there
  is one player, that rooms are found by name, that the player and the camera are safe exactly on
  the floor and that loaded guards never read an empty vector. Every node and component that a component of
  a loaded level takes without a check exists, unless an object is given one of three classes. Of running levels: no call fails
  but two kinds, no item is lost or doubled, a padlock opens for a pickup of its type that was taken
  and for nothing else, a key that was taken opens its padlock, Mr Wright and the wife never wait for
  something that is not in their room, and a level ends for the reasons that it is meant to. Of the
  components: the functional behaviour of each operation, its invariants over any number of frames, the schedules of timers,
  the conditions under which bosses, locks and doors give way. Some of the properties state what
  the code does where that is not what it means to do: guards without waypoints, the last field of
  the clock, totals that are never reset, a death that becomes a victory, the drift of the cameras,
  debug drawing without a world, objects of a class that their node does not suit.

  \<^bold>\<open>Bounds.\<close> Loops of the code are structural recursion where they run over a list. The loop over
  guard elements and the loops of the frame clocks may not end and are partial functions to
  \<open>option\<close>; the clocks end for time steps up to 1000 seconds (\<open>clock_returns\<close>), the guard loop as
  \<open>level_loads_iff\<close> says. Statements about timers use grids of binary fractions of a second, on
  which rounding is exact.

  \<^bold>\<open>Not modelled.\<close> What is drawn, sounded or simulated by the engine; registering
  classes and events beyond the tables of their names; Breakpad's exception handler itself; memory
  that is read before it is set holds an arbitrary value of its type, \<open>memory\<close> for the components of a
  level; the materials of Mr Wright's posters are loaded; which call comes when is the engine's, but for
  \<open>DelayedStart\<close> before \<open>Update\<close>, and what a call asks of the scene is its argument and is not tied
  to the positions of earlier calls; the widgets that components other than \<open>Game\<close> put on the screen
  are in their own records, not in \<open>gm_ui\<close>; the vendored Breakpad sources, assets and build files.
\<close>

end
